(* ===== verification/Prelude.thy ===== *)
theory Prelude
  imports
    Complex_Main
    "HOL-Library.Word"
    "HOL-Library.List_Lexorder"
    "HOL-Library.Product_Lexorder"
    "HOL-Library.Char_ord"
begin

text \<open>
  Shared vocabulary of the development: the value types the crate uses everywhere, the JSON
  values of its \<^verbatim>\<open>metadata\<close> columns, the text primitives of the Rust standard library that the
  components call (\<^verbatim>\<open>split\<close>, \<^verbatim>\<open>trim_end_matches\<close>, decimal and hexadecimal printing and parsing),
  the lemma collections, and the generic facts on keyed lists that every table of the database
  model uses. A Rust \<^verbatim>\<open>String\<close> is its list of UTF-8 bytes, a \<^typ>\<open>string\<close>.
\<close>

named_theorems io_simps \<open>unfolding of the statement monad\<close>
named_theorems text_simps \<open>facts about printed text\<close>
named_theorems frame \<open>what an operation leaves unchanged\<close>

section \<open>Value types\<close>

text \<open>A \<^verbatim>\<open>Uuid\<close> is its 128 bits; \<^verbatim>\<open>Ord\<close> on the bytes is the unsigned order.\<close>

type_synonym uuid = "128 word"

text \<open>\<^verbatim>\<open>NaiveDate\<close>: days since 1970-01-01. \<^verbatim>\<open>DateTime<Utc>\<close>: nanoseconds since the Unix epoch.\<close>

type_synonym date = int
type_synonym datetime = int

definition nanos :: int where
  "nanos = 1000000000"

definition day_nanos :: int where
  "day_nanos = 86400 * nanos"

text \<open>\<^verbatim>\<open>date_naive\<close>, \<^verbatim>\<open>timestamp\<close> and midnight of a date, as chrono documents them in UTC.\<close>

definition date_naive :: "datetime \<Rightarrow> date" where
  "date_naive t = t div day_nanos"

definition timestamp :: "datetime \<Rightarrow> int" where
  "timestamp t = t div nanos"

definition midnight :: "date \<Rightarrow> datetime" where
  "midnight d = d * day_nanos"

lemma day_nanos_pos [simp]: "0 < day_nanos"
  by (simp add: day_nanos_def nanos_def)

lemma date_naive_midnight [simp]: "date_naive (midnight d) = d"
  using day_nanos_pos by (simp add: date_naive_def midnight_def del: day_nanos_pos)

lemma midnight_le_iff: "midnight d \<le> t \<longleftrightarrow> d \<le> date_naive t"
proof
  assume "midnight d \<le> t"
  then have "midnight d div day_nanos \<le> t div day_nanos"
    by (intro zdiv_mono1) auto
  then show "d \<le> date_naive t"
    by (metis date_naive_def date_naive_midnight)
next
  assume "d \<le> date_naive t"
  then have "d * day_nanos \<le> (t div day_nanos) * day_nanos"
    by (simp add: date_naive_def)
  also have "\<dots> \<le> t"
    using day_nanos_pos by (metis minus_div_mult_eq_mod diff_ge_0_iff_ge pos_mod_sign)
  finally show "midnight d \<le> t"
    by (simp add: midnight_def)
qed

section \<open>JSON values\<close>

datatype json =
    JNull
  | JBool bool
  | JNum int
  | JFloat rat
  | JStr string
  | JArr "json list"
  | JObj "(string \<times> json) list"

text \<open>A \<^verbatim>\<open>metadata\<close> column: a JSONB object, read as the map from its keys.\<close>

type_synonym metadata = "string \<rightharpoonup> json"

text \<open>\<^verbatim>\<open>(metadata->>'deleted_at') IS NULL\<close>: the key is absent or holds JSON null.\<close>

definition not_deleted :: "metadata \<Rightarrow> bool" where
  "not_deleted m \<longleftrightarrow> (case m ''deleted_at'' of None \<Rightarrow> True | Some j \<Rightarrow> j = JNull)"

lemma not_deleted_empty [simp]: "not_deleted Map.empty"
  by (simp add: not_deleted_def)

lemma not_deleted_upd_other [simp]:
  "k \<noteq> ''deleted_at'' \<Longrightarrow> not_deleted (m(k \<mapsto> v)) = not_deleted m"
  by (simp add: not_deleted_def)

section \<open>Text\<close>

definition newline :: string where
  "newline = [CHR 0x0A]"

definition quote :: string where
  "quote = [CHR 0x27]"

definition dquote :: string where
  "dquote = [CHR 0x22]"

text \<open>The em dash, three bytes of UTF-8.\<close>

definition em_dash :: string where
  "em_dash = [CHR 0xE2, CHR 0x80, CHR 0x94]"

text \<open>\<^verbatim>\<open>str::split\<close> on one character: always at least one part, empty parts kept.\<close>

fun split_on :: "char \<Rightarrow> string \<Rightarrow> string list" where
  "split_on c [] = [[]]"
| "split_on c (x # xs) =
     (if x = c then [] # split_on c xs
      else (case split_on c xs of [] \<Rightarrow> [[x]] | p # ps \<Rightarrow> (x # p) # ps))"

lemma split_on_not_Nil [simp]: "split_on c s \<noteq> []"
  by (induction c s rule: split_on.induct) (auto split: list.splits)

lemma split_on_no_sep: "c \<notin> set s \<Longrightarrow> split_on c s = [s]"
  by (induction c s rule: split_on.induct) auto

lemma split_on_sep: "c \<notin> set s \<Longrightarrow> split_on c (s @ c # t) = s # split_on c t"
proof (induction s)
  case (Cons x xs)
  then show ?case by (cases "split_on c (xs @ c # t)") auto
qed simp

definition starts_with :: "string \<Rightarrow> string \<Rightarrow> bool" where
  "starts_with p s \<longleftrightarrow> take (length p) s = p"

lemma starts_with_append [simp]: "starts_with p (p @ s)"
  by (simp add: starts_with_def)

text \<open>\<^verbatim>\<open>trim_end_matches(c)\<close>.\<close>

definition trim_end_matches :: "char \<Rightarrow> string \<Rightarrow> string" where
  "trim_end_matches c s = rev (dropWhile (\<lambda>x. x = c) (rev s))"

text \<open>
  \<^verbatim>\<open>trim()\<close>: the characters of Unicode's \<^verbatim>\<open>White_Space\<close> property, as their UTF-8 bytes, off both
  ends. No encoding of a character is the tail of another's, so the end is stripped bytewise too.
\<close>

definition white_space :: "string list" where
  "white_space =
     [[CHR 0x20], [CHR 0x09], [CHR 0x0A], [CHR 0x0B], [CHR 0x0C], [CHR 0x0D],
      [CHR 0xC2, CHR 0x85], [CHR 0xC2, CHR 0xA0], [CHR 0xE1, CHR 0x9A, CHR 0x80],
      [CHR 0xE2, CHR 0x80, CHR 0x80], [CHR 0xE2, CHR 0x80, CHR 0x81], [CHR 0xE2, CHR 0x80, CHR 0x82],
      [CHR 0xE2, CHR 0x80, CHR 0x83], [CHR 0xE2, CHR 0x80, CHR 0x84], [CHR 0xE2, CHR 0x80, CHR 0x85],
      [CHR 0xE2, CHR 0x80, CHR 0x86], [CHR 0xE2, CHR 0x80, CHR 0x87], [CHR 0xE2, CHR 0x80, CHR 0x88],
      [CHR 0xE2, CHR 0x80, CHR 0x89], [CHR 0xE2, CHR 0x80, CHR 0x8A], [CHR 0xE2, CHR 0x80, CHR 0xA8],
      [CHR 0xE2, CHR 0x80, CHR 0xA9], [CHR 0xE2, CHR 0x80, CHR 0xAF], [CHR 0xE2, CHR 0x81, CHR 0x9F],
      [CHR 0xE3, CHR 0x80, CHR 0x80]]"

function strip_front :: "string list \<Rightarrow> string \<Rightarrow> string" where
  "strip_front ps s =
     (case find (\<lambda>p. p \<noteq> [] \<and> starts_with p s) ps of
        None \<Rightarrow> s
      | Some p \<Rightarrow> strip_front ps (drop (length p) s))"
  by pat_completeness auto
termination
proof (relation "measure (\<lambda>(ps, s). length s)")
  fix ps s p
  assume "find (\<lambda>p. p \<noteq> [] \<and> starts_with p s) ps = Some p"
  then have "p \<noteq> []" "take (length p) s = p" by (auto simp: find_Some_iff starts_with_def)
  then have "p \<noteq> []" "s \<noteq> []" by auto
  then show "((ps, drop (length p) s), (ps, s)) \<in> measure (\<lambda>(ps, s). length s)" by simp
qed simp

declare strip_front.simps [simp del]

definition trim :: "string \<Rightarrow> string" where
  "trim s = rev (strip_front (map rev white_space) (rev (strip_front white_space s)))"

text \<open>
  \<^verbatim>\<open>to_lowercase\<close>, as far as a comparison with an ASCII word can see it: the ASCII letters, and the
  Kelvin sign, the one other character whose lower case is ASCII (\<^verbatim>\<open>k\<close>). Any other character keeps
  a byte outside ASCII and is left as it is. The sources compare the result and never show it.
\<close>

definition lower_char :: "char \<Rightarrow> char" where
  "lower_char c = (let n = of_char c :: nat in if 65 \<le> n \<and> n \<le> 90 then char_of (n + 32) else c)"

definition kelvin_sign :: string where
  "kelvin_sign = [CHR 0xE2, CHR 0x84, CHR 0xAA]"

fun to_lowercase :: "string \<Rightarrow> string" where
  "to_lowercase [] = []"
| "to_lowercase (c # s) =
     (if starts_with kelvin_sign (c # s) then CHR ''k'' # to_lowercase (drop 2 s)
      else lower_char c # to_lowercase s)"

declare to_lowercase.simps(2) [simp del]

lemma to_lowercase_ascii [simp]: "c \<noteq> CHR 0xE2 \<Longrightarrow> to_lowercase (c # s) = lower_char c # to_lowercase s"
  by (simp add: to_lowercase.simps(2) starts_with_def kelvin_sign_def)

subsection \<open>Decimal numbers\<close>

definition digit_char :: "nat \<Rightarrow> char" where
  "digit_char d = char_of (48 + d)"

definition char_digit :: "char \<Rightarrow> nat option" where
  "char_digit c = (let n = of_char c :: nat in if 48 \<le> n \<and> n \<le> 57 then Some (n - 48) else None)"

fun show_nat :: "nat \<Rightarrow> string" where
  "show_nat n = (if n < 10 then [digit_char n] else show_nat (n div 10) @ [digit_char (n mod 10)])"

declare show_nat.simps [simp del]

fun read_digits :: "nat \<Rightarrow> string \<Rightarrow> nat option" where
  "read_digits acc [] = Some acc"
| "read_digits acc (c # cs) =
     (case char_digit c of None \<Rightarrow> None | Some d \<Rightarrow> read_digits (acc * 10 + d) cs)"

definition show_int :: "int \<Rightarrow> string" where
  "show_int i = (if i < 0 then CHR ''-'' # show_nat (nat (- i)) else show_nat (nat i))"

text \<open>
  \<^verbatim>\<open>str::parse::<i64>\<close>: an optional sign, at least one digit, nothing else, in range.
\<close>

definition read_unsigned :: "string \<Rightarrow> nat option" where
  "read_unsigned s = (if s = [] then None else read_digits 0 s)"

definition parse_i64 :: "string \<Rightarrow> int option" where
  "parse_i64 s =
     (case (case s of
              [] \<Rightarrow> None
            | c # cs \<Rightarrow>
                if c = CHR ''-'' then map_option (\<lambda>n. - int n) (read_unsigned cs)
                else if c = CHR ''+'' then map_option int (read_unsigned cs)
                else map_option int (read_unsigned s)) of
        None \<Rightarrow> None
      | Some i \<Rightarrow> if - (2 ^ 63) \<le> i \<and> i < 2 ^ 63 then Some i else None)"

lemma of_char_digit_char: "d < 10 \<Longrightarrow> (of_char (digit_char d) :: nat) = 48 + d"
  by (simp add: digit_char_def)

lemma char_digit_digit_char [simp]: "d < 10 \<Longrightarrow> char_digit (digit_char d) = Some d"
  by (simp add: char_digit_def of_char_digit_char Let_def)

lemma read_digits_append:
  "read_digits a (xs @ ys) =
     (case read_digits a xs of None \<Rightarrow> None | Some b \<Rightarrow> read_digits b ys)"
  by (induction a xs rule: read_digits.induct) (auto split: option.splits)

lemma read_digits_show_nat: "read_digits 0 (show_nat n) = Some n"
proof (induction n rule: show_nat.induct)
  case (1 n)
  show ?case
  proof (cases "n < 10")
    case True
    then show ?thesis by (simp add: show_nat.simps)
  next
    case False
    with 1 have "read_digits 0 (show_nat (n div 10)) = Some (n div 10)" by simp
    with False show ?thesis
      by (simp add: show_nat.simps [of n] read_digits_append)
  qed
qed

lemma show_nat_not_Nil [simp]: "show_nat n \<noteq> []"
  by (simp add: show_nat.simps)

lemma show_nat_chars: "c \<in> set (show_nat n) \<Longrightarrow> \<exists>d<10. c = digit_char d"
proof (induction n rule: show_nat.induct)
  case (1 n)
  show ?case
  proof (cases "n < 10")
    case True
    with 1 show ?thesis by (auto simp: show_nat.simps)
  next
    case False
    with "1.prems" have "c \<in> set (show_nat (n div 10)) \<or> c = digit_char (n mod 10)"
      by (auto simp: show_nat.simps [of n])
    with "1.IH" [OF False] show ?thesis by (metis mod_less_divisor zero_less_numeral)
  qed
qed

lemma digit_char_not_sign:
  "d < 10 \<Longrightarrow> digit_char d \<noteq> CHR ''-'' \<and> digit_char d \<noteq> CHR ''+'' \<and> digit_char d \<noteq> CHR ''.''"
  by (auto simp: digit_char_def dest!: arg_cong [where f = "of_char :: char \<Rightarrow> nat"])

lemma show_int_no_dot [text_simps]: "CHR ''.'' \<notin> set (show_int i)"
  by (auto simp: show_int_def dest!: show_nat_chars) (metis digit_char_not_sign)+

lemma read_unsigned_show_nat [simp]: "read_unsigned (show_nat n) = Some n"
  by (simp add: read_unsigned_def read_digits_show_nat)

lemma parse_i64_show_int [text_simps]:
  assumes "- (2 ^ 63) \<le> i" "i < 2 ^ 63"
  shows "parse_i64 (show_int i) = Some i"
proof (cases "i < 0")
  case True
  with assms show ?thesis by (simp add: parse_i64_def show_int_def)
next
  case False
  obtain c cs where c: "show_nat (nat i) = c # cs"
    by (cases "show_nat (nat i)") auto
  have "c \<noteq> CHR ''-'' \<and> c \<noteq> CHR ''+''"
    using show_nat_chars [of c "nat i"] digit_char_not_sign c by auto
  with False assms show ?thesis
    using c read_unsigned_show_nat [of "nat i"] by (simp add: parse_i64_def show_int_def)
qed

subsection \<open>Hexadecimal bytes\<close>

text \<open>\<^verbatim>\<open>{b:02x}\<close> prints a byte as two lower-case digits; \<^verbatim>\<open>from_str_radix(16)\<close> reads either case.\<close>

type_synonym byte = "8 word"

definition hex_char :: "nat \<Rightarrow> char" where
  "hex_char d = (if d < 10 then char_of (48 + d) else char_of (87 + d))"

definition hex_digit :: "char \<Rightarrow> nat option" where
  "hex_digit c =
     (let n = of_char c :: nat in
      if 48 \<le> n \<and> n \<le> 57 then Some (n - 48)
      else if 97 \<le> n \<and> n \<le> 102 then Some (n - 87)
      else if 65 \<le> n \<and> n \<le> 70 then Some (n - 55)
      else None)"

definition is_ascii_hexdigit :: "char \<Rightarrow> bool" where
  "is_ascii_hexdigit c \<longleftrightarrow> hex_digit c \<noteq> None"

definition show_byte :: "byte \<Rightarrow> string" where
  "show_byte b = [hex_char (unat b div 16), hex_char (unat b mod 16)]"

fun read_bytes :: "string \<Rightarrow> byte list option" where
  "read_bytes [] = Some []"
| "read_bytes [c] = None"
| "read_bytes (c # d # cs) =
     (case (hex_digit c, hex_digit d, read_bytes cs) of
        (Some h, Some l, Some bs) \<Rightarrow> Some (word_of_nat (16 * h + l) # bs)
      | _ \<Rightarrow> None)"

lemma hex_digit_hex_char [simp]: "d < 16 \<Longrightarrow> hex_digit (hex_char d) = Some d"
  by (auto simp: hex_digit_def hex_char_def Let_def)

lemma unat_byte_less: "unat (b :: byte) < 256"
  by (rule unsigned_less [of b, simplified])

lemma read_bytes_show_bytes [text_simps]: "read_bytes (concat (map show_byte bs)) = Some bs"
proof (induction bs)
  case (Cons b bs)
  have "unat b div 16 < 16" "unat b mod 16 < 16"
    using unat_byte_less [of b] by auto
  moreover have "word_of_nat (16 * (unat b div 16) + unat b mod 16) = b"
    by simp
  ultimately show ?case using Cons by (simp add: show_byte_def)
qed simp

lemma length_show_bytes [text_simps]: "length (concat (map show_byte bs)) = 2 * length bs"
  by (induction bs) (auto simp: show_byte_def)

lemma show_bytes_hexdigits [text_simps]:
  "c \<in> set (concat (map show_byte bs)) \<Longrightarrow> is_ascii_hexdigit c"
proof (induction bs)
  case (Cons b bs)
  have "unat b div 16 < 16" "unat b mod 16 < 16"
    using unat_byte_less [of b] by auto
  with Cons show ?case by (auto simp: show_byte_def is_ascii_hexdigit_def)
qed simp

lemma dot_not_hexdigit [text_simps]: "\<not> is_ascii_hexdigit (CHR ''.'')"
  by (simp add: is_ascii_hexdigit_def hex_digit_def)

section \<open>Keyed lists\<close>

text \<open>
  A table with a unique key is a list whose key column is distinct. The locale states the key
  once; every table of the world is an interpretation.
\<close>

definition unique_key :: "('r \<Rightarrow> 'k) \<Rightarrow> 'r list \<Rightarrow> bool" where
  "unique_key key rows \<longleftrightarrow> distinct (map key rows)"

text \<open>\<^verbatim>\<open>INSERT .. ON CONFLICT (key) DO NOTHING\<close>: the table and the number of rows inserted.\<close>

definition insert_or_ignore :: "('r \<Rightarrow> 'k) \<Rightarrow> 'r \<Rightarrow> 'r list \<Rightarrow> nat \<times> 'r list" where
  "insert_or_ignore key r rows =
     (if key r \<in> key ` set rows then (0, rows) else (1, rows @ [r]))"

text \<open>\<^verbatim>\<open>UPDATE .. WHERE p\<close>: rows affected and the new table.\<close>

definition update_where :: "('r \<Rightarrow> bool) \<Rightarrow> ('r \<Rightarrow> 'r) \<Rightarrow> 'r list \<Rightarrow> nat \<times> 'r list" where
  "update_where p f rows =
     (length (filter p rows), map (\<lambda>r. if p r then f r else r) rows)"

locale keyed_table =
  fixes key :: "'r \<Rightarrow> 'k"
begin

lemma insert_unique: "unique_key key rows \<Longrightarrow> unique_key key (snd (insert_or_ignore key r rows))"
  by (auto simp: unique_key_def insert_or_ignore_def)

lemma insert_present:
  "key r \<in> key ` set rows \<Longrightarrow> insert_or_ignore key r rows = (0, rows)"
  by (simp add: insert_or_ignore_def)

lemma insert_has_key: "key r \<in> key ` set (snd (insert_or_ignore key r rows))"
  by (simp add: insert_or_ignore_def)

lemma insert_keeps: "x \<in> set rows \<Longrightarrow> x \<in> set (snd (insert_or_ignore key r rows))"
  by (simp add: insert_or_ignore_def)

lemma update_keys:
  "(\<And>r. key (f r) = key r) \<Longrightarrow> map key (snd (update_where p f rows)) = map key rows"
  by (simp add: update_where_def)

lemma update_unique:
  "(\<And>r. key (f r) = key r) \<Longrightarrow> unique_key key rows \<Longrightarrow> unique_key key (snd (update_where p f rows))"
  by (simp add: unique_key_def update_keys)

lemma filter_unique: "unique_key key rows \<Longrightarrow> unique_key key (filter p rows)"
  by (induction rows) (auto simp: unique_key_def)

lemma at_most_one:
  assumes "unique_key key rows" and "\<And>r. p r \<Longrightarrow> key r = k"
  shows "length (filter p rows) \<le> 1"
proof -
  have "distinct (map key (filter p rows))"
    using filter_unique [OF assms(1)] by (simp add: unique_key_def)
  moreover have "set (map key (filter p rows)) \<subseteq> {k}"
    using assms(2) by auto
  ultimately have "card (set (map key (filter p rows))) = length (filter p rows)"
    by (metis distinct_card length_map)
  moreover have "card (set (map key (filter p rows))) \<le> card {k}"
    by (rule card_mono) (use \<open>set (map key (filter p rows)) \<subseteq> {k}\<close> in auto)
  ultimately show ?thesis by simp
qed

lemma key_inj:
  assumes "unique_key key rows" "r \<in> set rows" "s \<in> set rows" "key r = key s"
  shows "r = s"
  using assms by (auto simp: unique_key_def distinct_map dest: inj_onD)

end

section \<open>The first row of an ordered query\<close>

lemma sort_key_Nil_iff [simp]: "sort_key f xs = [] \<longleftrightarrow> xs = []"
  by (metis length_0_conv length_sort)

lemma first_of_sorted:
  assumes "sort_key f (filter P xs) = m # ms"
  shows "m \<in> set xs" "P m" "\<And>x. x \<in> set xs \<Longrightarrow> P x \<Longrightarrow> f m \<le> f x"
proof -
  have s: "set (filter P xs) = set (m # ms)" using assms by (metis set_sort)
  then have "m \<in> set (filter P xs)" by simp
  then show "m \<in> set xs" "P m" by auto
  have "sorted (map f (m # ms))" using assms by (metis sorted_sort_key)
  then have "\<forall>x \<in> set (filter P xs). f m \<le> f x" using s by auto
  then show "\<And>x. x \<in> set xs \<Longrightarrow> P x \<Longrightarrow> f m \<le> f x" by simp
qed

section \<open>Counting what a loop has not processed\<close>

definition remaining :: "'a list \<Rightarrow> 'a list \<Rightarrow> nat" where
  "remaining done ids = length (filter (\<lambda>i. i \<notin> set done) ids)"

lemma remaining_mono: "remaining (x # done) ids \<le> remaining done ids"
  by (induction ids) (auto simp: remaining_def)

lemma remaining_less:
  "x \<in> set ids \<Longrightarrow> x \<notin> set done \<Longrightarrow> remaining (x # done) ids < remaining done ids"
proof (induction ids)
  case (Cons i ids)
  show ?case
  proof (cases "i = x")
    case True
    have "remaining (x # done) ids \<le> remaining done ids" by (rule remaining_mono)
    with True Cons.prems show ?thesis by (simp add: remaining_def)
  next
    case False
    with Cons show ?thesis by (auto simp: remaining_def)
  qed
qed simp

end
