(* ===== verification/F64.thy ===== *)
theory F64
  imports Prelude
begin

text \<open>
  The binary64 arithmetic the crate uses: KPI amounts and margins
  (\<^verbatim>\<open>application/service/base_kpis.rs\<close>) and the page count of the list DTOs. A finite \<^verbatim>\<open>f64\<close> is a sign
  and a magnitude (so that minus zero prints with its sign); every operation is the exact
  rational result rounded to 53 significant bits, ties to even. The exponent is unbounded:
  infinities, NaN and underflow are outside the model.
\<close>

section \<open>Rounding a magnitude\<close>

fun ilog2 :: "nat \<Rightarrow> nat" where
  "ilog2 n = (if n < 2 then 0 else Suc (ilog2 (n div 2)))"

declare ilog2.simps [simp del]

lemma ilog2_bounds: "0 < n \<Longrightarrow> 2 ^ ilog2 n \<le> n \<and> n < 2 ^ Suc (ilog2 n)"
proof (induction n rule: ilog2.induct)
  case (1 n)
  show ?case
  proof (cases "n < 2")
    case True
    with 1 show ?thesis by (simp add: ilog2.simps [of n])
  next
    case False
    then have "2 ^ ilog2 (n div 2) \<le> n div 2 \<and> n div 2 < 2 ^ Suc (ilog2 (n div 2))"
      using 1 by simp
    then have "2 * 2 ^ ilog2 (n div 2) \<le> n \<and> n < 2 * 2 ^ Suc (ilog2 (n div 2))" by linarith
    with False show ?thesis by (simp add: ilog2.simps [of n])
  qed
qed

text \<open>The unit in the last place of a positive rational: \<open>2\<^sup>5\<^sup>2\<close> units reach its leading bit.\<close>

definition ulp :: "rat \<Rightarrow> rat" where
  "ulp x =
     (if 1 \<le> x then 2 ^ ilog2 (nat \<lfloor>x\<rfloor>) / 2 ^ 52
      else 1 / (2 ^ Suc (ilog2 (nat (\<lceil>1 / x\<rceil> - 1))) * 2 ^ 52))"

definition round_half_even :: "rat \<Rightarrow> int" where
  "round_half_even y =
     (let f = \<lfloor>y\<rfloor>; r = y - of_int f in
      if r < 1 / 2 then f else if 1 / 2 < r then f + 1 else if even f then f else f + 1)"

definition round53 :: "rat \<Rightarrow> rat" where
  "round53 x = (if x = 0 then 0 else of_int (round_half_even (x / ulp x)) * ulp x)"

lemma round_half_even_error: "\<bar>of_int (round_half_even y) - y\<bar> \<le> 1 / 2"
proof -
  have "of_int \<lfloor>y\<rfloor> \<le> y" "y < of_int \<lfloor>y\<rfloor> + 1" by linarith+
  moreover define f where "f = \<lfloor>y\<rfloor>"
  ultimately have "of_int f \<le> y" "y < of_int f + 1" by simp_all
  then show ?thesis
    unfolding round_half_even_def Let_def f_def [symmetric] by (simp split: if_splits)
qed

lemma round_half_even_int [simp]: "round_half_even (of_int k) = k"
  by (simp add: round_half_even_def)

lemma ulp_pos: "0 < ulp x"
  by (simp add: ulp_def)

lemma ulp_bounds:
  assumes "0 < x"
  shows "2 ^ 52 * ulp x \<le> x" "x \<le> 2 ^ 53 * ulp x"
proof -
  have "2 ^ 52 * ulp x \<le> x \<and> x \<le> 2 ^ 53 * ulp x"
  proof (cases "1 \<le> x")
    case True
    let ?n = "nat \<lfloor>x\<rfloor>"
    have n: "0 < ?n" using True by simp
    have "(of_nat ?n :: rat) = of_int \<lfloor>x\<rfloor>" using True by simp
    then have "(of_nat ?n :: rat) \<le> x" "x < of_nat ?n + 1" by linarith+
    moreover have "(2 ^ ilog2 ?n :: rat) \<le> of_nat ?n"
      using ilog2_bounds [OF n] by (metis of_nat_le_iff of_nat_numeral of_nat_power)
    moreover have "(of_nat ?n :: rat) + 1 \<le> 2 ^ Suc (ilog2 ?n)"
      using ilog2_bounds [OF n] by (metis Suc_leI of_nat_Suc of_nat_le_iff of_nat_numeral of_nat_power add.commute)
    ultimately have "2 ^ ilog2 ?n \<le> x" "x \<le> 2 ^ Suc (ilog2 ?n)" by linarith+
    with True show ?thesis by (simp add: ulp_def)
  next
    case False
    let ?m = "\<lceil>1 / x\<rceil>" and ?k = "ilog2 (nat (\<lceil>1 / x\<rceil> - 1))"
    have "1 < 1 / x" using assms False by simp
    then have m: "1 < ?m" by linarith
    have b: "2 ^ ?k \<le> nat (?m - 1)" "nat (?m - 1) < 2 ^ Suc ?k"
      using ilog2_bounds [of "nat (?m - 1)"] m by simp_all
    have "(2 ^ ?k :: rat) \<le> of_nat (nat (?m - 1))"
      using b(1) by (metis of_nat_le_iff of_nat_numeral of_nat_power)
    also have "\<dots> = of_int (?m - 1)" using m by (simp only: of_nat_nat)
    also have "\<dots> = of_int ?m - 1" by simp
    also have "\<dots> < 1 / x" by linarith
    finally have lo: "2 ^ ?k < 1 / x" .
    have "Suc (nat (?m - 1)) \<le> 2 ^ Suc ?k" using b(2) by simp
    then have "(of_nat (Suc (nat (?m - 1))) :: rat) \<le> 2 ^ Suc ?k"
      by (metis of_nat_le_iff of_nat_numeral of_nat_power)
    moreover have "(of_nat (Suc (nat (?m - 1))) :: rat) = of_int ?m"
    proof -
      have "Suc (nat (?m - 1)) = nat ?m" using m by (simp only: nat_eq_iff)
      then show ?thesis using m by (simp only: of_nat_nat)
    qed
    moreover have "1 / x \<le> of_int ?m" by linarith
    ultimately have hi: "1 / x \<le> 2 ^ Suc ?k" by linarith
    have "2 ^ 52 * ulp x = 1 / 2 ^ Suc ?k" "2 ^ 53 * ulp x = 1 / 2 ^ ?k"
      using False by (simp_all add: ulp_def)
    moreover have "1 / 2 ^ Suc ?k \<le> x" using hi assms by (simp add: field_simps)
    moreover have "x \<le> 1 / 2 ^ ?k" using lo assms by (simp add: field_simps)
    ultimately show ?thesis by simp
  qed
  then show "2 ^ 52 * ulp x \<le> x" "x \<le> 2 ^ 53 * ulp x" by auto
qed

text \<open>The relative error of one rounding.\<close>

lemma round53_error:
  assumes "0 \<le> x"
  shows "\<bar>round53 x - x\<bar> \<le> x / 2 ^ 53"
proof (cases "x = 0")
  case True
  then show ?thesis by (simp add: round53_def)
next
  case False
  with assms have x: "0 < x" by simp
  let ?u = "ulp x"
  have "round53 x - x = (of_int (round_half_even (x / ?u)) - x / ?u) * ?u"
    using False ulp_pos [of x] by (simp add: round53_def left_diff_distrib)
  then have "\<bar>round53 x - x\<bar> = \<bar>of_int (round_half_even (x / ?u)) - x / ?u\<bar> * ?u"
    using ulp_pos [of x] by (simp add: abs_mult)
  also have "\<dots> \<le> (1 / 2) * ?u"
    using round_half_even_error ulp_pos [of x] by (intro mult_right_mono) auto
  also have "\<dots> \<le> x / 2 ^ 53" using ulp_bounds(1) [OF x] by simp
  finally show ?thesis .
qed

lemma round53_zero [simp]: "round53 0 = 0"
  by (simp add: round53_def)

lemma round53_pos:
  assumes "0 < x"
  shows "0 < round53 x"
proof -
  have "x - x / 2 ^ 53 \<le> round53 x" using round53_error [of x] assms by linarith
  moreover have "0 < x - x / 2 ^ 53" using assms by simp
  ultimately show ?thesis by linarith
qed

lemma round53_nonneg: "0 \<le> x \<Longrightarrow> 0 \<le> round53 x"
  using round53_pos [of x] by (cases "x = 0") auto

lemma round53_eq_0_iff: "0 \<le> x \<Longrightarrow> round53 x = 0 \<longleftrightarrow> x = 0"
  using round53_pos [of x] by (cases "x = 0") auto

text \<open>Every integer up to \<open>2\<^sup>5\<^sup>3\<close> is representable.\<close>

lemma round53_nat:
  assumes "n \<le> 2 ^ 53"
  shows "round53 (of_nat n) = of_nat n"
proof (cases "n = 0")
  case True
  then show ?thesis by simp
next
  case False
  let ?e = "ilog2 n"
  have b: "2 ^ ?e \<le> n" "n < 2 ^ Suc ?e" using ilog2_bounds [of n] False by auto
  have u: "ulp (of_nat n) = 2 ^ ?e / 2 ^ 52" using False by (simp add: ulp_def)
  have "\<exists>k::int. (of_nat n :: rat) / ulp (of_nat n) = of_int k"
  proof (cases "?e \<le> 52")
    case True
    then have "(2 ^ 52 :: rat) = 2 ^ (52 - ?e) * 2 ^ ?e"
      by (simp only: power_add [symmetric] le_add_diff_inverse2)
    then have "(2 ^ 52 :: rat) / 2 ^ ?e = 2 ^ (52 - ?e)"
      by (simp only: nonzero_mult_div_cancel_right power_not_zero zero_neq_numeral not_False_eq_True)
    moreover have "(of_nat n :: rat) / ulp (of_nat n) = of_nat n * (2 ^ 52 / 2 ^ ?e)"
      by (simp only: u divide_divide_eq_right times_divide_eq_right)
    ultimately have "(of_nat n :: rat) / ulp (of_nat n) = of_nat n * 2 ^ (52 - ?e)"
      by (simp only:)
    then have "(of_nat n :: rat) / ulp (of_nat n) = of_int (int n * 2 ^ (52 - ?e))" by simp
    then show ?thesis by blast
  next
    case False
    then have "(2::nat) ^ 53 \<le> 2 ^ ?e" by (intro power_increasing) auto
    with b(1) assms have n: "n = 2 ^ 53" by linarith
    have "?e = 53"
    proof -
      have "(2::nat) ^ ?e \<le> 2 ^ 53" using b(1) n by simp
      then have "?e \<le> 53" by (rule power_le_imp_le_exp [rotated]) simp
      with False show ?thesis by simp
    qed
    then have "(of_nat n :: rat) / ulp (of_nat n) = of_int (2 ^ 52)" using u n by simp
    then show ?thesis by blast
  qed
  then obtain k :: int where k: "(of_nat n :: rat) / ulp (of_nat n) = of_int k" ..
  then have "round53 (of_nat n) = of_int k * ulp (of_nat n)" using False by (simp add: round53_def)
  also have "\<dots> = of_nat n" using k ulp_pos [of "of_nat n"] by (simp add: field_simps)
  finally show ?thesis .
qed

text \<open>
  Rounding a quotient of integers does not move it across an integer: a quotient that is not
  an integer is at least \<open>1 / q\<close> away from both neighbours, and the rounding error of a
  dividend below \<open>2\<^sup>5\<^sup>3\<close> is smaller.
\<close>

lemma ceiling_quotient_gap:
  fixes p q :: nat
  assumes q: "0 < q" and nint: "(of_nat p / of_nat q :: rat) \<noteq> of_int \<lceil>of_nat p / of_nat q :: rat\<rceil>"
  shows "(of_int \<lceil>of_nat p / of_nat q :: rat\<rceil> - 1 :: rat) + 1 / of_nat q \<le> of_nat p / of_nat q"
    and "(of_nat p / of_nat q :: rat) + 1 / of_nat q \<le> of_int \<lceil>of_nat p / of_nat q :: rat\<rceil>"
proof -
  let ?x = "of_nat p / of_nat q :: rat"
  let ?n = "\<lceil>?x\<rceil>"
  have "?x \<le> of_int ?n" "of_int ?n - 1 < ?x" by linarith+
  with nint have "?x < of_int ?n" by linarith
  then have "of_nat p < (of_int ?n * of_nat q :: rat)" using q by (simp add: field_simps)
  then have "(of_int (int p) :: rat) < of_int (?n * int q)" by simp
  then have "int p < ?n * int q" by (simp only: of_int_less_iff)
  then have "int p + 1 \<le> ?n * int q" by simp
  then have "(of_int (int p + 1) :: rat) \<le> of_int (?n * int q)" by (simp only: of_int_le_iff)
  then show "?x + 1 / of_nat q \<le> of_int ?n" using q by (simp add: field_simps)
  have "(of_int ?n - 1) * of_nat q < (of_nat p :: rat)" using \<open>of_int ?n - 1 < ?x\<close> q by (simp add: field_simps)
  then have "(of_int ((?n - 1) * int q) :: rat) < of_int (int p)" by simp
  then have "(?n - 1) * int q < int p" by (simp only: of_int_less_iff)
  then have "(?n - 1) * int q + 1 \<le> int p" by simp
  then have "(of_int ((?n - 1) * int q + 1) :: rat) \<le> of_int (int p)" by (simp only: of_int_le_iff)
  then have "((of_int ?n - 1) * of_nat q + 1) / of_nat q \<le> ?x" by (intro divide_right_mono) simp_all
  then show "(of_int ?n - 1 :: rat) + 1 / of_nat q \<le> ?x" using q by (simp add: add_divide_distrib)
qed

lemma ceiling_round53_quotient:
  fixes p q :: nat
  assumes p: "p < 2 ^ 53" and q: "0 < q"
  shows "\<lceil>round53 (of_nat p / of_nat q)\<rceil> = \<lceil>of_nat p / of_nat q :: rat\<rceil>"
proof (cases "(of_nat p / of_nat q :: rat) = of_int \<lceil>of_nat p / of_nat q :: rat\<rceil>")
  case True
  let ?n = "nat \<lceil>of_nat p / of_nat q :: rat\<rceil>"
  have "0 \<le> (of_nat p / of_nat q :: rat)" by simp
  then have "0 \<le> \<lceil>of_nat p / of_nat q :: rat\<rceil>" by linarith
  then have x: "(of_nat p / of_nat q :: rat) = of_nat ?n" using True by (simp only: of_nat_nat)
  then have "(of_nat p :: rat) = of_nat (?n * q)" using q by (simp add: field_simps)
  then have "p = ?n * q" by (simp only: of_nat_eq_iff)
  then have "?n \<le> p" using q by (metis One_nat_def Suc_leI mult_le_mono2 nat_mult_1_right)
  then have "round53 (of_nat ?n) = of_nat ?n" using p by (intro round53_nat) simp
  with x show ?thesis by simp
next
  case False
  let ?x = "of_nat p / of_nat q :: rat"
  have "(of_nat p :: rat) < 2 ^ 53"
    using p by (metis of_nat_less_iff of_nat_numeral of_nat_power)
  then have "?x / 2 ^ 53 < 1 / of_nat q" using q by (simp add: field_simps)
  moreover have "\<bar>round53 ?x - ?x\<bar> \<le> ?x / 2 ^ 53" by (rule round53_error) simp
  ultimately have "of_int \<lceil>?x\<rceil> - 1 < round53 ?x" "round53 ?x \<le> of_int \<lceil>?x\<rceil>"
    using ceiling_quotient_gap [OF q False] by linarith+
  then show ?thesis by (simp add: ceiling_unique)
qed

section \<open>Values and operations\<close>

datatype f64 = F64 (f64_neg: bool) (f64_mag: rat)

definition f64_val :: "f64 \<Rightarrow> rat" where
  "f64_val a = (if f64_neg a then - f64_mag a else f64_mag a)"

definition f64_ok :: "f64 \<Rightarrow> bool" where
  "f64_ok a \<longleftrightarrow> 0 \<le> f64_mag a"

definition f64_of_rat :: "rat \<Rightarrow> f64" where
  "f64_of_rat x = F64 (x < 0) (round53 \<bar>x\<bar>)"

definition f64_of_int :: "int \<Rightarrow> f64" where
  "f64_of_int n = f64_of_rat (of_int n)"

text \<open>\<^verbatim>\<open>==\<close> identifies the two zeros.\<close>

definition f64_eq :: "f64 \<Rightarrow> f64 \<Rightarrow> bool" where
  "f64_eq a b \<longleftrightarrow> f64_val a = f64_val b"

definition f64_sub :: "f64 \<Rightarrow> f64 \<Rightarrow> f64" where
  "f64_sub a b =
     (if f64_val a = f64_val b then F64 (f64_neg a \<and> \<not> f64_neg b) 0
      else f64_of_rat (f64_val a - f64_val b))"

definition f64_mul :: "f64 \<Rightarrow> f64 \<Rightarrow> f64" where
  "f64_mul a b = F64 (f64_neg a \<noteq> f64_neg b) (round53 (f64_mag a * f64_mag b))"

text \<open>Division by a non-zero value; the sources divide under that guard only.\<close>

definition f64_div :: "f64 \<Rightarrow> f64 \<Rightarrow> f64" where
  "f64_div a b = F64 (f64_neg a \<noteq> f64_neg b) (round53 (f64_mag a / f64_mag b))"

text \<open>\<^verbatim>\<open>round()\<close>: nearest integer, half away from zero.\<close>

definition f64_round :: "f64 \<Rightarrow> f64" where
  "f64_round a = F64 (f64_neg a) (of_int \<lfloor>f64_mag a + 1 / 2\<rfloor>)"

text \<open>\<^verbatim>\<open>ceil()\<close>, and the cast \<^verbatim>\<open>as u32\<close>, which truncates and saturates.\<close>

definition f64_ceil :: "f64 \<Rightarrow> f64" where
  "f64_ceil a = F64 (f64_neg a) (of_int (if f64_neg a then \<lfloor>f64_mag a\<rfloor> else \<lceil>f64_mag a\<rceil>))"

definition f64_as_u32 :: "f64 \<Rightarrow> 32 word" where
  "f64_as_u32 a = word_of_int (if f64_neg a then 0 else min (2 ^ 32 - 1) \<lfloor>f64_mag a\<rfloor>)"

lemma f64_neg_ops [simp]:
  "f64_neg (f64_mul a b) = (f64_neg a \<noteq> f64_neg b)"
  "f64_neg (f64_div a b) = (f64_neg a \<noteq> f64_neg b)"
  "f64_neg (f64_round a) = f64_neg a"
  by (simp_all add: f64_mul_def f64_div_def f64_round_def)

lemma f64_ok_of_rat [simp]: "f64_ok (f64_of_rat x)"
  by (simp add: f64_ok_def f64_of_rat_def round53_nonneg)

lemma f64_ok_sub [simp]: "f64_ok (f64_sub a b)"
  by (simp add: f64_sub_def) (simp add: f64_ok_def)

lemma f64_ok_mul [simp]: "f64_ok a \<Longrightarrow> f64_ok b \<Longrightarrow> f64_ok (f64_mul a b)"
  by (simp add: f64_ok_def f64_mul_def round53_nonneg)

lemma f64_ok_div [simp]: "f64_ok a \<Longrightarrow> f64_ok b \<Longrightarrow> f64_ok (f64_div a b)"
  by (simp add: f64_ok_def f64_div_def round53_nonneg)

lemma f64_ok_round [simp]: "f64_ok a \<Longrightarrow> f64_ok (f64_round a)"
  by (simp add: f64_ok_def f64_round_def)

lemma f64_of_int_val: "\<bar>n\<bar> \<le> 2 ^ 53 \<Longrightarrow> f64_val (f64_of_int n) = of_int n"
proof -
  assume "\<bar>n\<bar> \<le> 2 ^ 53"
  then have "round53 (of_nat (nat \<bar>n\<bar>)) = of_nat (nat \<bar>n\<bar>)" by (intro round53_nat) (simp add: nat_le_iff)
  then have "round53 \<bar>of_int n\<bar> = \<bar>of_int n\<bar>" by simp
  then show ?thesis by (auto simp: f64_of_int_def f64_of_rat_def f64_val_def)
qed

lemma f64_of_int_nat: "n \<le> 2 ^ 53 \<Longrightarrow> f64_of_int (int n) = F64 False (of_nat n)"
  by (simp add: f64_of_int_def f64_of_rat_def round53_nat)

section \<open>Printing\<close>

text \<open>\<^verbatim>\<open>{:.2}\<close>: two decimals of the exact value, ties to even.\<close>

definition pad2 :: "nat \<Rightarrow> string" where
  "pad2 n = (if n < 10 then CHR ''0'' # show_nat n else show_nat n)"

definition show_fixed2 :: "f64 \<Rightarrow> string" where
  "show_fixed2 a =
     (let n = nat (round_half_even (f64_mag a * 100)) in
      (if f64_neg a then ''-'' else []) @ show_nat (n div 100) @ ''.'' @ pad2 (n mod 100))"

text \<open>
  \<^verbatim>\<open>{:+}\<close>: the sign and the shortest decimal expansion that rounds back to the value. The search
  tries at most \<open>k\<close> decimals; the values printed are rounded hundredths, which need two or
  a few more.
\<close>

fun strip_zeros :: "nat \<Rightarrow> nat \<Rightarrow> nat \<times> nat" where
  "strip_zeros 0 n = (0, n)"
| "strip_zeros (Suc k) n = (if n mod 10 = 0 then strip_zeros k (n div 10) else (Suc k, n))"

fun pad_left :: "nat \<Rightarrow> string \<Rightarrow> string" where
  "pad_left 0 s = s"
| "pad_left (Suc k) s = (if Suc k \<le> length s then s else CHR ''0'' # pad_left k s)"

definition show_decimal :: "nat \<Rightarrow> nat \<Rightarrow> string" where
  "show_decimal k n =
     (case strip_zeros k n of (j, m) \<Rightarrow>
        if j = 0 then show_nat m
        else show_nat (m div 10 ^ j) @ ''.'' @ pad_left j (show_nat (m mod 10 ^ j)))"

fun shortest_decimal :: "nat \<Rightarrow> nat \<Rightarrow> rat \<Rightarrow> string" where
  "shortest_decimal 0 k m = show_decimal k (nat (round_half_even (m * 10 ^ k)))"
| "shortest_decimal (Suc fuel) k m =
     (let n = round_half_even (m * 10 ^ k) in
      if round53 (of_int n / 10 ^ k) = m then show_decimal k (nat n)
      else shortest_decimal fuel (Suc k) m)"

definition show_signed :: "f64 \<Rightarrow> string" where
  "show_signed a = (if f64_neg a then ''-'' else ''+'') @ shortest_decimal 20 0 (f64_mag a)"

text \<open>
  The values printed are hundredths rounded once. For those below \<open>2\<^sup>5\<^sup>2\<close> hundredths the search stops
  at two decimals at the latest, well within its 20, with text that reads back as the value.
\<close>

lemma round_half_even_near: "\<bar>y - of_int k\<bar> < 1 / 2 \<Longrightarrow> round_half_even y = k"
proof -
  assume "\<bar>y - of_int k\<bar> < 1 / 2"
  moreover have "\<bar>of_int (round_half_even y) - y\<bar> \<le> 1 / 2" by (rule round_half_even_error)
  ultimately have "\<bar>(of_int (round_half_even y) :: rat) - of_int k\<bar> < 1" by linarith
  then have "(of_int \<bar>round_half_even y - k\<bar> :: rat) < 1" by simp
  then show ?thesis by linarith
qed

lemma shortest_hundredths_fuel:
  assumes "n < 2 ^ 52"
  shows "\<exists>k \<le> 2. \<exists>i. shortest_decimal (Suc (Suc (Suc f))) 0 (round53 (of_nat n / 100)) = show_decimal k (nat i) \<and>
    round53 (of_int i / 10 ^ k) = round53 (of_nat n / 100)"
proof -
  let ?m = "round53 (of_nat n / 100)"
  have "\<bar>?m - of_nat n / 100\<bar> \<le> of_nat n / 100 / 2 ^ 53" by (rule round53_error) simp
  moreover have "(of_nat n :: rat) < 2 ^ 52" using assms by (metis of_nat_less_iff of_nat_numeral of_nat_power)
  then have "(of_nat n / 100 / 2 ^ 53 :: rat) < 1 / 200" by simp
  ultimately have "\<bar>?m - of_nat n / 100\<bar> < 1 / 200" by (rule order.strict_trans1)
  then have "\<bar>?m * 100 - of_int (int n)\<bar> < 1 / 2" by (simp add: abs_if split: if_splits)
  then have two: "round_half_even (?m * 10 ^ 2) = int n" by (intro round_half_even_near) simp
  show ?thesis
  proof (cases "round53 (of_int (round_half_even (?m * 10 ^ 0)) / 10 ^ 0) = ?m")
    case True
    then show ?thesis by (intro exI [of _ 0]) (auto simp: Let_def)
  next
    case no0: False
    show ?thesis
    proof (cases "round53 (of_int (round_half_even (?m * 10 ^ 1)) / 10 ^ 1) = ?m")
      case True
      then show ?thesis using no0 by (intro exI [of _ 1]) (auto simp: Let_def)
    next
      case False
      then show ?thesis using no0 two
        by (intro exI [of _ 2] conjI exI [of _ "int n"]) (auto simp: Let_def numeral_2_eq_2)
    qed
  qed
qed

lemma shortest_hundredths:
  assumes "n < 2 ^ 52"
  shows "\<exists>k \<le> 2. \<exists>i. shortest_decimal 20 0 (round53 (of_nat n / 100)) = show_decimal k (nat i) \<and>
    round53 (of_int i / 10 ^ k) = round53 (of_nat n / 100)"
proof -
  have e: "(20 :: nat) = Suc (Suc (Suc 17))" by simp
  show ?thesis unfolding e by (rule shortest_hundredths_fuel [OF assms])
qed

end
