(* ===== verification/Kpi_Registry.thy ===== *)
theory Kpi_Registry
  imports Prelude F64
begin

text \<open>
  The declarative KPI registry (\<^verbatim>\<open>application/service/kpi_registry.rs\<close>): fence declarations and their
  drop decision, KPI values, compute functions, and the registry itself, a \<^verbatim>\<open>BTreeMap\<close> from names
  to definitions, kept here as its sorted list of entries. The write guard of the map is
  the function's own state argument.
\<close>

definition kpi_name_prefix :: string where
  "kpi_name_prefix = ''kpi_''"

definition kpi_connected_users :: string where
  "kpi_connected_users = ''kpi_res_users_connected''"

definition kpi_messages_sent :: string where
  "kpi_messages_sent = ''kpi_mail_message_total''"

record kpi_query_context =
  qc_recipient_user_id :: uuid
  qc_company_id :: "uuid option"
  qc_window_start :: datetime
  qc_window_end :: datetime

record kpi_value =
  kv_count :: int
  kv_amount :: "f64 option"

definition kpi_zero :: kpi_value where
  "kpi_zero = \<lparr> kv_count = 0, kv_amount = None \<rparr>"

definition kpi_count :: "int \<Rightarrow> kpi_value" where
  "kpi_count n = \<lparr> kv_count = n, kv_amount = None \<rparr>"

definition kpi_display :: "kpi_value \<Rightarrow> f64" where
  "kpi_display v = (case kv_amount v of None \<Rightarrow> f64_of_int (kv_count v) | Some a \<Rightarrow> a)"

datatype kpi_error = Compute string | SourceUnavailable string

fun show_kpi_error :: "kpi_error \<Rightarrow> string" where
  "show_kpi_error (Compute e) = ''kpi compute failed: '' @ e"
| "show_kpi_error (SourceUnavailable e) = ''kpi source unavailable: '' @ e"

type_synonym kpi_computer = "kpi_query_context \<Rightarrow> kpi_error + kpi_value"

datatype kpi_fence = SharedData | CompanyData | PinnedCompanyData uuid

fun renders_for :: "kpi_fence \<Rightarrow> uuid option \<Rightarrow> bool" where
  "renders_for SharedData _ = True"
| "renders_for CompanyData company = (company \<noteq> None)"
| "renders_for (PinnedCompanyData pinned) company = (company = Some pinned)"

record kpi_definition =
  kd_name :: string
  kd_label :: string
  kd_fence :: kpi_fence
  kd_computer :: kpi_computer

section \<open>The registry\<close>

type_synonym kpi_registry = "(string \<times> kpi_definition) list"

datatype registration_error = BadPrefix string string

datatype registration = Registered kpi_registry | Refused registration_error | DuplicatePanic

fun btree_insert :: "string \<Rightarrow> kpi_definition \<Rightarrow> kpi_registry \<Rightarrow> kpi_registry" where
  "btree_insert k d [] = [(k, d)]"
| "btree_insert k d ((k', d') # es) =
     (if k < k' then (k, d) # (k', d') # es
      else if k = k' then (k, d) # es
      else (k', d') # btree_insert k d es)"

definition registry_new :: kpi_registry where
  "registry_new = []"

definition registry_register :: "kpi_definition \<Rightarrow> kpi_registry \<Rightarrow> registration" where
  "registry_register def r =
     (if \<not> starts_with kpi_name_prefix (kd_name def)
      then Refused (BadPrefix (kd_name def) kpi_name_prefix)
      else if map_of r (kd_name def) \<noteq> None then DuplicatePanic
      else Registered (btree_insert (kd_name def) def r))"

definition registry_get :: "kpi_registry \<Rightarrow> string \<Rightarrow> kpi_definition option" where
  "registry_get r nm = map_of r nm"

definition registry_names :: "kpi_registry \<Rightarrow> string list" where
  "registry_names r = map fst r"

definition registry_len :: "kpi_registry \<Rightarrow> nat" where
  "registry_len r = length r"

definition registry_is_empty :: "kpi_registry \<Rightarrow> bool" where
  "registry_is_empty r \<longleftrightarrow> registry_len r = 0"

definition registry_ok :: "kpi_registry \<Rightarrow> bool" where
  "registry_ok r \<longleftrightarrow>
     sorted (map fst r) \<and> distinct (map fst r) \<and>
     (\<forall>(k, d) \<in> set r. kd_name d = k \<and> starts_with kpi_name_prefix k)"

lemma set_btree_insert:
  "set (map fst (btree_insert k d r)) = insert k (set (map fst r))"
  by (induction k d r rule: btree_insert.induct) auto

lemma sorted_btree_insert:
  "sorted (map fst r) \<Longrightarrow> distinct (map fst r) \<Longrightarrow>
     sorted (map fst (btree_insert k d r)) \<and> distinct (map fst (btree_insert k d r))"
proof (induction k d r rule: btree_insert.induct)
  case (2 k d k' d' es)
  have "set (map fst (btree_insert k d es)) = insert k (set (map fst es))"
    by (rule set_btree_insert)
  with 2 show ?case by (force simp: less_le)
qed simp

lemma map_of_btree_insert:
  "sorted (map fst r) \<Longrightarrow> map_of (btree_insert k d r) = (map_of r)(k \<mapsto> d)"
proof (induction k d r rule: btree_insert.induct)
  case (2 k d k' d' es)
  show ?case
  proof (cases "k < k'")
    case True
    then show ?thesis by (auto simp: fun_eq_iff)
  next
    case False
    with 2 show ?thesis by (auto simp: fun_eq_iff)
  qed
qed simp

lemma registry_ok_new [simp]: "registry_ok registry_new"
  by (simp add: registry_ok_def registry_new_def)

lemma registry_ok_entry:
  "registry_ok r \<Longrightarrow> map_of r k = Some d \<Longrightarrow> kd_name d = k \<and> starts_with kpi_name_prefix k"
  by (auto simp: registry_ok_def dest!: map_of_SomeD)

lemma registry_register_ok:
  assumes "registry_ok r" "registry_register def r = Registered r'"
  shows "registry_ok r'"
proof -
  have r': "r' = btree_insert (kd_name def) def r" "starts_with kpi_name_prefix (kd_name def)"
    and sd: "sorted (map fst r)" "distinct (map fst r)"
    using assms by (auto simp: registry_register_def registry_ok_def split: if_splits)
  have "sorted (map fst r') \<and> distinct (map fst r')"
    using sorted_btree_insert [OF sd] by (simp add: r')
  moreover have "kd_name d = k \<and> starts_with kpi_name_prefix k" if "(k, d) \<in> set r'" for k d
  proof -
    have "map_of r' k = Some d"
      using that \<open>sorted (map fst r') \<and> distinct (map fst r')\<close> by (simp add: map_of_eq_Some_iff)
    then have "((map_of r)(kd_name def \<mapsto> def)) k = Some d"
      using map_of_btree_insert [OF sd(1)] by (simp add: r')
    with assms(1) r'(2) show ?thesis by (auto split: if_splits dest: registry_ok_entry)
  qed
  ultimately show ?thesis by (auto simp: registry_ok_def)
qed

lemma registry_register_get:
  assumes "registry_ok r" "registry_register def r = Registered r'"
  shows "registry_get r' = (registry_get r)(kd_name def \<mapsto> def)"
proof -
  have "r' = btree_insert (kd_name def) def r" "sorted (map fst r)"
    using assms by (auto simp: registry_register_def registry_ok_def split: if_splits)
  then show ?thesis by (simp add: registry_get_def map_of_btree_insert fun_eq_iff)
qed

text \<open>Registering a list of definitions in order, as the builder does.\<close>

fun register_all :: "kpi_definition list \<Rightarrow> kpi_registry \<Rightarrow> registration" where
  "register_all [] r = Registered r"
| "register_all (d # ds) r =
     (case registry_register d r of
        Registered r' \<Rightarrow> register_all ds r'
      | Refused e \<Rightarrow> Refused e
      | DuplicatePanic \<Rightarrow> DuplicatePanic)"

lemma register_all_ok:
  "registry_ok r \<Longrightarrow> register_all ds r = Registered r' \<Longrightarrow> registry_ok r'"
  by (induction ds r rule: register_all.induct)
    (auto split: registration.splits dest: registry_register_ok)

lemma register_all_keeps:
  assumes "registry_ok r" "register_all ds r = Registered r'" "registry_get r k = Some d"
  shows "registry_get r' k = Some d"
  using assms
proof (induction ds r rule: register_all.induct)
  case (2 x ds r)
  then obtain r1 where r1: "registry_register x r = Registered r1" "register_all ds r1 = Registered r'"
    by (auto split: registration.splits)
  have "kd_name x \<noteq> k"
    using r1(1) 2(4) by (auto simp: registry_register_def registry_get_def split: if_splits)
  then have "registry_get r1 k = Some d"
    using registry_register_get [OF 2(2) r1(1)] 2(4) by simp
  with 2(1) [OF r1(1) registry_register_ok [OF 2(2) r1(1)] r1(2)] show ?case by simp
qed simp

end
