(* ===== verification/Engagement_Port.thy ===== *)
theory Engagement_Port
  imports Prelude
begin

text \<open>
  The recipient-context port (\<^verbatim>\<open>application/service/engagement_port.rs\<close>): the identity facts of one
  recipient, the port as a record of its four calls, the refusing default tenant, the canned
  double, the swappable slot and the SQL adapter over the sapiens tables. The locale
  \<open>recipient_port_contract\<close> states what the trait promises its callers.
\<close>

section \<open>The trait\<close>

record recipient_context =
  rc_user_id :: uuid
  rc_email :: string
  rc_company_id :: "uuid option"
  rc_is_internal :: bool
  rc_last_login :: "datetime option"

datatype port_error = NotWired string | Unavailable string

fun is_not_wired :: "port_error \<Rightarrow> bool" where
  "is_not_wired (NotWired _) = True"
| "is_not_wired (Unavailable _) = False"

fun show_port_error :: "port_error \<Rightarrow> string" where
  "show_port_error (NotWired d) = ''recipient context port not wired: '' @ d"
| "show_port_error (Unavailable d) = ''recipient context source failed: '' @ d"

record recipient_port =
  resolve :: "uuid \<Rightarrow> port_error + recipient_context"
  count_connected :: "uuid option \<Rightarrow> datetime \<Rightarrow> datetime \<Rightarrow> port_error + int"
  any_logged_in_since :: "uuid list \<Rightarrow> datetime \<Rightarrow> port_error + bool"
  group_keys :: "uuid \<Rightarrow> port_error + string set"

text \<open>
  A resolved context is about the user asked for, is internal exactly when it carries a company,
  and a recipient without company has nobody to count.
\<close>

locale recipient_port_contract =
  fixes port :: recipient_port
  assumes resolve_user: "resolve port u = Inr c \<Longrightarrow> rc_user_id c = u"
    and internal_iff: "resolve port u = Inr c \<Longrightarrow> rc_is_internal c \<longleftrightarrow> rc_company_id c \<noteq> None"
    and count_no_company: "count_connected port None a b = Inr n \<Longrightarrow> n = 0"
    and count_nonneg: "count_connected port company a b = Inr n \<Longrightarrow> 0 \<le> n"

section \<open>The refusing tenant\<close>

definition not_wired :: "string \<Rightarrow> port_error" where
  "not_wired what = NotWired (''no RecipientContextPort is wired; refusing '' @ what @ '' '' @ em_dash @
     '' compose one via DigestModule::set_recipient_port (SqlRecipientContext is the standard adapter)'')"

definition refusing_recipient_context :: recipient_port where
  "refusing_recipient_context =
     \<lparr> resolve = (\<lambda>_. Inl (not_wired ''recipient resolution'')),
       count_connected = (\<lambda>_ _ _. Inl (not_wired ''the connected-users count'')),
       any_logged_in_since = (\<lambda>_ _. Inl (not_wired ''the slowdown login signal'')),
       group_keys = (\<lambda>_. Inl (not_wired ''the tip group-key resolution'')) \<rparr>"

lemma is_not_wired_not_wired [simp]: "is_not_wired (not_wired what)"
  by (simp add: not_wired_def)

interpretation refusing: recipient_port_contract refusing_recipient_context
  by unfold_locales (simp_all add: refusing_recipient_context_def)

section \<open>The canned double\<close>

record canned_answers =
  ca_context :: "recipient_context option"
  ca_connected :: int
  ca_any_logged_in :: bool
  ca_keys :: "string set"

record canned =
  cn_resolved :: "uuid list"
  cn_answer :: canned_answers

definition canned_with :: "canned_answers \<Rightarrow> canned" where
  "canned_with a = \<lparr> cn_resolved = [], cn_answer = a \<rparr>"

text \<open>\<^verbatim>\<open>resolve\<close> also records who was asked for; the other calls read.\<close>

definition canned_resolve :: "uuid \<Rightarrow> canned \<Rightarrow> (port_error + recipient_context) \<times> canned" where
  "canned_resolve u c =
     ((case ca_context (cn_answer c) of
         None \<Rightarrow> Inl (Unavailable ''no canned context'')
       | Some x \<Rightarrow> Inr x),
      c\<lparr>cn_resolved := cn_resolved c @ [u]\<rparr>)"

definition canned_port :: "canned \<Rightarrow> recipient_port" where
  "canned_port c =
     \<lparr> resolve = (\<lambda>u. fst (canned_resolve u c)),
       count_connected = (\<lambda>_ _ _. Inr (ca_connected (cn_answer c))),
       any_logged_in_since = (\<lambda>_ _. Inr (ca_any_logged_in (cn_answer c))),
       group_keys = (\<lambda>_. Inr (ca_keys (cn_answer c))) \<rparr>"

section \<open>The slot\<close>

record slot = slot_inner :: recipient_port

definition slot_default :: slot where
  "slot_default = \<lparr> slot_inner = refusing_recipient_context \<rparr>"

definition slot_install :: "recipient_port \<Rightarrow> slot \<Rightarrow> slot" where
  "slot_install p s = s\<lparr>slot_inner := p\<rparr>"

definition slot_current :: "slot \<Rightarrow> recipient_port" where
  "slot_current s = slot_inner s"

text \<open>The slot is itself a port: every call goes to the current tenant.\<close>

definition slot_port :: "slot \<Rightarrow> recipient_port" where
  "slot_port s =
     \<lparr> resolve = (\<lambda>u. resolve (slot_current s) u),
       count_connected = (\<lambda>c a b. count_connected (slot_current s) c a b),
       any_logged_in_since = (\<lambda>us t. any_logged_in_since (slot_current s) us t),
       group_keys = (\<lambda>u. group_keys (slot_current s) u) \<rparr>"

lemma slot_port_current: "slot_port s = slot_current s"
  by (simp add: slot_port_def)

lemma slot_install_current: "slot_port (slot_install p s) = p"
  by (simp add: slot_port_current slot_install_def slot_current_def)

lemma slot_default_refuses:
  "\<exists>e. resolve (slot_port slot_default) u = Inl e \<and> is_not_wired e"
  "\<exists>e. count_connected (slot_port slot_default) c a b = Inl e \<and> is_not_wired e"
  "\<exists>e. any_logged_in_since (slot_port slot_default) us t = Inl e \<and> is_not_wired e"
  "\<exists>e. group_keys (slot_port slot_default) u = Inl e \<and> is_not_wired e"
  by (simp_all add: slot_port_current slot_default_def slot_current_def refusing_recipient_context_def)

section \<open>The SQL adapter\<close>

text \<open>
  The tables the adapter reads, as far as its queries name their columns, and the text of the
  failure its next query meets, if any.
\<close>

record user_rec =
  us_id :: uuid
  us_email :: string
  us_last_login :: "datetime option"
  us_status :: string
  us_metadata :: metadata

record membership_rec =
  ou_user_id :: uuid
  ou_org_unit_id :: uuid
  ou_status :: string
  ou_joined_at :: datetime
  ou_metadata :: metadata

record role_rec =
  ro_id :: uuid
  ro_name :: string
  ro_metadata :: metadata

record sapiens =
  users :: "user_rec list"
  organization_users :: "membership_rec list"
  roles :: "role_rec list"
  user_roles :: "(uuid \<times> uuid) list"
  source_fault :: "string option"

definition active_membership :: "uuid \<Rightarrow> membership_rec \<Rightarrow> bool" where
  "active_membership u m \<longleftrightarrow>
     ou_user_id m = u \<and> ou_status m = ''active'' \<and> not_deleted (ou_metadata m)"

text \<open>The scalar subquery: the earliest active membership, or NULL.\<close>

definition active_company :: "sapiens \<Rightarrow> uuid \<Rightarrow> uuid option" where
  "active_company s u =
     (case sort_key ou_joined_at (filter (active_membership u) (organization_users s)) of
        [] \<Rightarrow> None
      | m # _ \<Rightarrow> Some (ou_org_unit_id m))"

definition sql_resolve :: "(uuid \<Rightarrow> string) \<Rightarrow> sapiens \<Rightarrow> uuid \<Rightarrow> port_error + recipient_context" where
  "sql_resolve sh s uid =
     (case source_fault s of
        Some e \<Rightarrow> Inl (Unavailable e)
      | None \<Rightarrow>
          (case find (\<lambda>u. us_id u = uid \<and> not_deleted (us_metadata u)) (users s) of
             None \<Rightarrow> Inl (Unavailable (''user '' @ sh uid @ '' not found (or soft-deleted) in sapiens''))
           | Some u \<Rightarrow>
               (let company = active_company s uid in
                Inr \<lparr> rc_user_id = uid, rc_email = us_email u, rc_company_id = company,
                      rc_is_internal = (company \<noteq> None), rc_last_login = us_last_login u \<rparr>)))"

text \<open>A \<^verbatim>\<open>NULL\<close> company joins nothing; a user with two active memberships counts once.\<close>

definition connected_user :: "sapiens \<Rightarrow> uuid option \<Rightarrow> datetime \<Rightarrow> datetime \<Rightarrow> user_rec \<Rightarrow> bool" where
  "connected_user s company since until u \<longleftrightarrow>
     (\<exists>m \<in> set (organization_users s). active_membership (us_id u) m \<and> company = Some (ou_org_unit_id m)) \<and>
     (case us_last_login u of None \<Rightarrow> False | Some t \<Rightarrow> since \<le> t \<and> t < until) \<and>
     us_status u = ''active'' \<and> not_deleted (us_metadata u) \<and>
     us_status u \<noteq> ''suspended'' \<and> us_status u \<noteq> ''pending_verification''"

definition sql_count_connected ::
  "sapiens \<Rightarrow> uuid option \<Rightarrow> datetime \<Rightarrow> datetime \<Rightarrow> port_error + int" where
  "sql_count_connected s company since until =
     (case source_fault s of
        Some e \<Rightarrow> Inl (Unavailable e)
      | None \<Rightarrow>
          Inr (int (length (remdups (map us_id (filter (connected_user s company since until) (users s)))))))"

definition sql_any_logged_in_since :: "sapiens \<Rightarrow> uuid list \<Rightarrow> datetime \<Rightarrow> port_error + bool" where
  "sql_any_logged_in_since s ids since =
     (if ids = [] then Inr False
      else case source_fault s of
        Some e \<Rightarrow> Inl (Unavailable e)
      | None \<Rightarrow>
          Inr (0 < length (filter (\<lambda>u. us_id u \<in> set ids \<and>
                 (case us_last_login u of None \<Rightarrow> False | Some t \<Rightarrow> since \<le> t)) (users s))))"

definition sql_group_keys :: "sapiens \<Rightarrow> uuid \<Rightarrow> port_error + string set" where
  "sql_group_keys s uid =
     (case source_fault s of
        Some e \<Rightarrow> Inl (Unavailable e)
      | None \<Rightarrow> Inr (ro_name ` set (filter
          (\<lambda>r. (uid, ro_id r) \<in> set (user_roles s) \<and> not_deleted (ro_metadata r)) (roles s))))"

definition sql_port :: "(uuid \<Rightarrow> string) \<Rightarrow> sapiens \<Rightarrow> recipient_port" where
  "sql_port sh s =
     \<lparr> resolve = sql_resolve sh s, count_connected = sql_count_connected s,
       any_logged_in_since = sql_any_logged_in_since s, group_keys = sql_group_keys s \<rparr>"

interpretation sqlp: recipient_port_contract "sql_port sh s" for sh s
  by unfold_locales
    (auto simp: sql_port_def sql_resolve_def sql_count_connected_def connected_user_def Let_def
      split: option.splits)

text \<open>
  The company of a resolved recipient is that of the earliest active membership they hold; they
  have none exactly when they hold none.
\<close>

lemma active_company_earliest:
  assumes "active_company s u = Some c"
  shows "\<exists>m \<in> set (organization_users s). active_membership u m \<and> ou_org_unit_id m = c \<and>
    (\<forall>m' \<in> set (organization_users s). active_membership u m' \<longrightarrow> ou_joined_at m \<le> ou_joined_at m')"
proof -
  obtain m ms where m: "sort_key ou_joined_at (filter (active_membership u) (organization_users s)) = m # ms"
    "ou_org_unit_id m = c"
    using assms by (auto simp: active_company_def split: list.splits)
  with first_of_sorted [OF m(1)] show ?thesis by blast
qed

lemma active_company_None_iff:
  "active_company s u = None \<longleftrightarrow> (\<forall>m \<in> set (organization_users s). \<not> active_membership u m)"
proof -
  have "active_company s u = None \<longleftrightarrow>
      sort_key ou_joined_at (filter (active_membership u) (organization_users s)) = []"
    unfolding active_company_def by (simp split: list.split del: sort_key_Nil_iff)
  then show ?thesis by (simp add: filter_empty_conv)
qed

lemma sql_any_logged_in_since_iff:
  assumes "source_fault s = None"
  shows "sql_any_logged_in_since s ids since = Inr True \<longleftrightarrow>
    (\<exists>u \<in> set (users s). us_id u \<in> set ids \<and> (\<exists>t. us_last_login u = Some t \<and> since \<le> t))"
  using assms by (auto simp: sql_any_logged_in_since_def filter_empty_conv split: option.splits)

end
