(* ===== verification/Calendar.thy ===== *)
theory Calendar
  imports Prelude
begin

text \<open>
  The calendar the crate takes from \<^verbatim>\<open>chrono::NaiveDate\<close>. The package is not part of the
  repository, so it is a parameter: the record \<open>calendar\<close> holds the operations the sources
  call, and the locale \<open>chrono_calendar\<close> the behaviour chrono documents for them (the proleptic
  Gregorian calendar over a bounded range of years). The date arithmetic of
  \<^verbatim>\<open>digest_write_service.rs\<close> is defined over any such record, in theory \<open>Periodicity\<close>. The
  second half builds the proleptic Gregorian calendar and shows that it satisfies the laws.
\<close>

section \<open>The operations and their documented laws\<close>

record calendar =
  ymd_of :: "date \<Rightarrow> int \<times> int \<times> int"
  from_ymd_opt :: "int \<Rightarrow> int \<Rightarrow> int \<Rightarrow> date option"
  year_min :: int
  year_max :: int
  date_min :: date
  date_max :: date

text \<open>\<^verbatim>\<open>DateTime + Duration\<close>, and \<^verbatim>\<open>-\<close>, panic when the sum leaves the years of chrono: \<open>None\<close>.\<close>

definition plus_time :: "calendar \<Rightarrow> datetime \<Rightarrow> int \<Rightarrow> datetime option" where
  "plus_time cal t d =
     (if date_min cal \<le> date_naive (t + d) \<and> date_naive (t + d) \<le> date_max cal then Some (t + d) else None)"

lemma plus_time_Some: "plus_time cal t d = Some t' \<Longrightarrow> t' = t + d"
  by (simp add: plus_time_def split: if_splits)

lemma date_naive_mono: "t \<le> t' \<Longrightarrow> date_naive t \<le> date_naive t'"
  by (simp add: date_naive_def zdiv_mono1)

definition leap_year :: "int \<Rightarrow> bool" where
  "leap_year y \<longleftrightarrow> y mod 4 = 0 \<and> (y mod 100 \<noteq> 0 \<or> y mod 400 = 0)"

definition month_length :: "int \<Rightarrow> int \<Rightarrow> int" where
  "month_length y m =
     (if m = 2 then (if leap_year y then 29 else 28)
      else if m \<in> {4, 6, 9, 11} then 30 else 31)"

definition next_month :: "int \<Rightarrow> int \<Rightarrow> int \<times> int" where
  "next_month y m = (if m = 12 then (y + 1, 1) else (y, m + 1))"

lemma month_length_bounds: "28 \<le> month_length y m" "month_length y m \<le> 31"
  by (simp_all add: month_length_def)

locale chrono_calendar =
  fixes cal :: calendar
  assumes from_ymd_iff:
      "from_ymd_opt cal y m d \<noteq> None \<longleftrightarrow>
         year_min cal \<le> y \<and> y \<le> year_max cal \<and> 1 \<le> m \<and> m \<le> 12 \<and> 1 \<le> d \<and> d \<le> month_length y m"
    and ymd_of_from_ymd: "from_ymd_opt cal y m d = Some D \<Longrightarrow> ymd_of cal D = (y, m, d)"
    and from_ymd_range: "from_ymd_opt cal y m d = Some D \<Longrightarrow> date_min cal \<le> D \<and> D \<le> date_max cal"
    and from_ymd_ymd_of:
      "date_min cal \<le> D \<Longrightarrow> D \<le> date_max cal \<Longrightarrow> ymd_of cal D = (y, m, d) \<Longrightarrow>
         from_ymd_opt cal y m d = Some D"
    and day_of_month:
      "from_ymd_opt cal y m 1 = Some F \<Longrightarrow> from_ymd_opt cal y m d = Some D \<Longrightarrow> D = F + (d - 1)"
    and month_succ:
      "from_ymd_opt cal y m 1 = Some F \<Longrightarrow> next_month y m = (y', m') \<Longrightarrow>
         from_ymd_opt cal y' m' 1 = Some G \<Longrightarrow> G = F + month_length y m"
begin

lemma from_ymd_Some:
  assumes "year_min cal \<le> y" "y \<le> year_max cal" "1 \<le> m" "m \<le> 12" "1 \<le> d" "d \<le> month_length y m"
  obtains D where "from_ymd_opt cal y m d = Some D"
  using assms from_ymd_iff [of y m d] by auto

lemma from_ymd_valid:
  assumes "from_ymd_opt cal y m d = Some D"
  shows "year_min cal \<le> y \<and> y \<le> year_max cal \<and> 1 \<le> m \<and> m \<le> 12 \<and> 1 \<le> d \<and> d \<le> month_length y m"
  using assms from_ymd_iff [of y m d] by auto

text \<open>Dates of the same month are ordered by day; the next month starts after all of them.\<close>

lemma first_of_month:
  assumes "from_ymd_opt cal y m d = Some D"
  obtains F where "from_ymd_opt cal y m 1 = Some F" "D = F + (d - 1)"
proof -
  from from_ymd_valid [OF assms] month_length_bounds [of y m]
  obtain F where "from_ymd_opt cal y m 1 = Some F" by (auto elim: from_ymd_Some [of y m 1])
  with assms that day_of_month show ?thesis by blast
qed

lemma later_month_less:
  assumes "from_ymd_opt cal y m d = Some D" "next_month y m = (y', m')"
    and "from_ymd_opt cal y' m' e = Some E"
  shows "D < E"
proof -
  obtain F where F: "from_ymd_opt cal y m 1 = Some F" "D = F + (d - 1)"
    using assms(1) by (rule first_of_month)
  obtain G where G: "from_ymd_opt cal y' m' 1 = Some G" "E = G + (e - 1)"
    using assms(3) by (rule first_of_month)
  have "G = F + month_length y m" using F(1) assms(2) G(1) by (rule month_succ)
  with F G from_ymd_valid [OF assms(1)] from_ymd_valid [OF assms(3)] show ?thesis by simp
qed

end

section \<open>The proleptic Gregorian calendar\<close>

text \<open>Days from 0001-01-01 to 1 January of year \<open>z + 1\<close>, and days before month \<open>m\<close>.\<close>

definition year_start :: "int \<Rightarrow> int" where
  "year_start z = 365 * z + z div 4 - z div 100 + z div 400"

definition days_before :: "int \<Rightarrow> int \<Rightarrow> int" where
  "days_before y m =
     (if m \<le> 1 then 0 else if m = 2 then 31
      else (if leap_year y then 1 else 0) +
        (if m = 3 then 59 else if m = 4 then 90 else if m = 5 then 120 else if m = 6 then 151
         else if m = 7 then 181 else if m = 8 then 212 else if m = 9 then 243 else if m = 10 then 273
         else if m = 11 then 304 else 334))"

definition epoch_offset :: int where
  "epoch_offset = 719162"

definition gregorian_day :: "int \<Rightarrow> int \<Rightarrow> int \<Rightarrow> date" where
  "gregorian_day y m d = year_start (y - 1) + days_before y m + (d - 1) - epoch_offset"

definition year0_of :: "date \<Rightarrow> int" where
  "year0_of n =
     (let z = (400 * n) div 146097 in
      if n < year_start z then z - 1 else if year_start (z + 1) \<le> n then z + 1 else z)"

function split_month :: "int \<Rightarrow> int \<Rightarrow> int \<Rightarrow> int \<times> int" where
  "split_month y m r =
     (if 12 \<le> m \<or> r < month_length y m then (m, r + 1)
      else split_month y (m + 1) (r - month_length y m))"
  by pat_completeness auto
termination
  by (relation "measure (\<lambda>(y, m, r). nat (12 - m))") auto

declare split_month.simps [simp del]

definition gregorian_ymd :: "date \<Rightarrow> int \<times> int \<times> int" where
  "gregorian_ymd D =
     (let n = D + epoch_offset; y = year0_of n + 1; (m, d) = split_month y 1 (n - year_start (y - 1))
      in (y, m, d))"

definition gregorian :: calendar where
  "gregorian =
     \<lparr> ymd_of = gregorian_ymd,
       from_ymd_opt = (\<lambda>y m d.
         if - 262143 \<le> y \<and> y \<le> 262142 \<and> 1 \<le> m \<and> m \<le> 12 \<and> 1 \<le> d \<and> d \<le> month_length y m
         then Some (gregorian_day y m d) else None),
       year_min = - 262143, year_max = 262142,
       date_min = gregorian_day (- 262143) 1 1, date_max = gregorian_day 262142 12 31 \<rparr>"

subsection \<open>Years\<close>

lemma div_bounds:
  assumes "0 < (k::int)"
  shows "k * (z div k) \<le> z" "z < k * (z div k) + k"
  using assms pos_mod_sign [of k z] pos_mod_bound [of k z] mult_div_mod_eq [of k z] by linarith+

lemma div_succ:
  assumes "0 < (k::int)"
  shows "(z + 1) div k = z div k + (if (z + 1) mod k = 0 then 1 else 0)"
proof (cases "(z + 1) mod k = 0")
  case True
  then have "k dvd z + 1" by (simp add: mod_eq_0_iff_dvd)
  then obtain q where q: "z + 1 = k * q" by (rule dvdE)
  then have "z = k * (q - 1) + (k - 1)" by (simp add: algebra_simps)
  then have "z div k = q - 1" using assms by (intro int_div_pos_eq [where r = "k - 1"]) auto
  with q True assms show ?thesis by simp
next
  case False
  have "z + 1 = k * ((z + 1) div k) + (z + 1) mod k" by simp
  then have "z = k * ((z + 1) div k) + ((z + 1) mod k - 1)" by linarith
  moreover have "0 \<le> (z + 1) mod k - 1" "(z + 1) mod k - 1 < k"
    using False assms pos_mod_sign [of k "z + 1"] pos_mod_bound [of k "z + 1"] by linarith+
  ultimately have "z div k = (z + 1) div k" by (rule int_div_pos_eq)
  with False show ?thesis by simp
qed

lemma year_start_Suc: "year_start (z + 1) = year_start z + (if leap_year (z + 1) then 366 else 365)"
proof -
  define A B C where "A = ((z + 1) mod 4 = 0)" and "B = ((z + 1) mod 100 = 0)"
    and "C = ((z + 1) mod 400 = 0)"
  have "year_start (z + 1) = 365 * z + 365 + (z + 1) div 4 - (z + 1) div 100 + (z + 1) div 400"
    by (simp add: year_start_def)
  also have "\<dots> = 365 * z + 365 + (z div 4 + (if A then 1 else 0)) - (z div 100 + (if B then 1 else 0))
      + (z div 400 + (if C then 1 else 0))"
    by (simp only: A_def B_def C_def div_succ)
  finally have "year_start (z + 1) = year_start z + 365 + (if A then 1 else 0) - (if B then 1 else 0)
      + (if C then 1 else 0)"
    by (simp add: year_start_def)
  moreover have "B \<Longrightarrow> A"
    unfolding A_def B_def using dvd_trans [of 4 100 "z + 1"] by (simp add: mod_eq_0_iff_dvd)
  moreover have "C \<Longrightarrow> B"
    unfolding B_def C_def using dvd_trans [of 100 400 "z + 1"] by (simp add: mod_eq_0_iff_dvd)
  moreover have "leap_year (z + 1) \<longleftrightarrow> A \<and> (\<not> B \<or> C)"
    by (simp only: leap_year_def A_def B_def C_def)
  ultimately show ?thesis by (cases A; cases B; cases C) simp_all
qed

lemma year_start_less: "z < z' \<Longrightarrow> year_start z < year_start z'"
proof (induction "nat (z' - z)" arbitrary: z')
  case (Suc k)
  show ?case
  proof (cases "z' = z + 1")
    case True
    then show ?thesis by (simp add: year_start_Suc)
  next
    case False
    with Suc have "year_start z < year_start (z' - 1)" by auto
    with year_start_Suc [of "z' - 1"] show ?thesis by (auto split: if_splits)
  qed
qed simp

lemma year_start_mono: "z \<le> z' \<Longrightarrow> year_start z \<le> year_start z'"
  using year_start_less [of z z'] by (cases "z = z'") auto

lemma year_start_bounds:
  "400 * year_start z \<le> 146097 * z + 396" "146097 * z - 699 \<le> 400 * year_start z"
proof -
  have "4 * (z div 4) \<le> z" "z - 3 \<le> 4 * (z div 4)"
    and "100 * (z div 100) \<le> z" "z - 99 \<le> 100 * (z div 100)"
    and "400 * (z div 400) \<le> z" "z - 399 \<le> 400 * (z div 400)"
    using div_bounds [of 4 z] div_bounds [of 100 z] div_bounds [of 400 z] by linarith+
  then show "400 * year_start z \<le> 146097 * z + 396" "146097 * z - 699 \<le> 400 * year_start z"
    by (simp_all add: year_start_def)
qed

lemma year0_of_bounds: "year_start (year0_of n) \<le> n \<and> n < year_start (year0_of n + 1)"
proof -
  define z where "z = (400 * n) div 146097"
  have z: "146097 * z \<le> 400 * n" "400 * n < 146097 * (z + 1)"
    unfolding z_def using div_bounds [of 146097 "400 * n"] by (simp_all add: distrib_left)
  have "year_start (z - 1) \<le> n" using z year_start_bounds(1) [of "z - 1"] by simp
  moreover have "n < year_start (z + 2)" using z year_start_bounds(2) [of "z + 2"] by simp
  ultimately show ?thesis by (auto simp: year0_of_def Let_def z_def [symmetric] add.commute)
qed

lemma year0_of_unique: "year_start z \<le> n \<Longrightarrow> n < year_start (z + 1) \<Longrightarrow> year0_of n = z"
  using year0_of_bounds [of n] year_start_mono [of "z + 1" "year0_of n"]
    year_start_mono [of "year0_of n + 1" z] by linarith

subsection \<open>Months\<close>

lemma month_cases:
  assumes "1 \<le> (m::int)" "m \<le> 12"
  shows "m = 1 \<or> m = 2 \<or> m = 3 \<or> m = 4 \<or> m = 5 \<or> m = 6 \<or> m = 7 \<or> m = 8 \<or> m = 9 \<or> m = 10
    \<or> m = 11 \<or> m = 12"
  using assms by presburger

lemma days_before_Suc:
  "1 \<le> m \<Longrightarrow> m \<le> 11 \<Longrightarrow> days_before y (m + 1) = days_before y m + month_length y m"
  using month_cases [of m] by (auto simp: days_before_def month_length_def)

lemma days_before_mono:
  "1 \<le> k \<Longrightarrow> k \<le> m \<Longrightarrow> m \<le> 12 \<Longrightarrow> days_before y k \<le> days_before y m"
proof (induction "nat (m - k)" arbitrary: k)
  case (Suc j)
  then have "days_before y (k + 1) \<le> days_before y m" by simp
  moreover have "days_before y (k + 1) = days_before y k + month_length y k"
    using Suc by (intro days_before_Suc) auto
  ultimately show ?case using month_length_bounds [of y k] by linarith
qed simp

lemma split_month_days_before:
  assumes "1 \<le> k" "k \<le> m" "m \<le> 12" "1 \<le> d" "d \<le> month_length y m"
  shows "split_month y k (days_before y m - days_before y k + (d - 1)) = (m, d)"
  using assms
proof (induction "nat (m - k)" arbitrary: k)
  case 0
  then have "k = m" by simp
  with 0 show ?case by (simp add: split_month.simps [of y m])
next
  case (Suc j)
  then have k: "1 \<le> k" "k \<le> 11" "k + 1 \<le> m" by auto
  have step: "days_before y (k + 1) = days_before y k + month_length y k"
    using k(1,2) by (rule days_before_Suc)
  have "0 \<le> days_before y m - days_before y (k + 1)"
    using days_before_mono [of "k + 1" m y] k Suc.prems(3) by simp
  then have "\<not> days_before y m - days_before y k + (d - 1) < month_length y k"
    using step Suc.prems by simp
  moreover have "split_month y (k + 1) (days_before y m - days_before y (k + 1) + (d - 1)) = (m, d)"
    using Suc k by auto
  ultimately show ?case
    using step k(2) by (simp add: split_month.simps [of y k] algebra_simps)
qed

lemma split_month_bounds:
  assumes "1 \<le> k" "k \<le> 12" "0 \<le> r" "r < 365 + (if leap_year y then 1 else 0) - days_before y k"
    and "split_month y k r = (m, d)"
  shows "k \<le> m \<and> m \<le> 12 \<and> 1 \<le> d \<and> d \<le> month_length y m \<and>
    days_before y m + (d - 1) = days_before y k + r"
  using assms
proof (induction y k r rule: split_month.induct)
  case (1 y k r)
  show ?case
  proof (cases "12 \<le> k \<or> r < month_length y k")
    case True
    with "1.prems" show ?thesis
      by (auto simp: split_month.simps [of y k r] days_before_def month_length_def)
  next
    case False
    have "days_before y (k + 1) = days_before y k + month_length y k"
      using False "1.prems" by (intro days_before_Suc) auto
    with "1.IH" [OF False] "1.prems" False show ?thesis
      by (auto simp: split_month.simps [of y k r])
  qed
qed

lemma days_before_le:
  assumes "1 \<le> m" "m \<le> 12" "1 \<le> d" "d \<le> month_length y m"
  shows "0 \<le> days_before y m + (d - 1)" "days_before y m + (d - 1) < (if leap_year y then 366 else 365)"
  using assms month_cases [of m] by (auto simp: days_before_def month_length_def)

subsection \<open>The laws\<close>

lemma gregorian_ymd_day:
  assumes "1 \<le> m" "m \<le> 12" "1 \<le> d" "d \<le> month_length y m"
  shows "gregorian_ymd (gregorian_day y m d) = (y, m, d)"
proof -
  let ?n = "gregorian_day y m d + epoch_offset"
  have n: "?n = year_start (y - 1) + (days_before y m + (d - 1))"
    by (simp add: gregorian_day_def)
  have "year_start (y - 1) \<le> ?n" "?n < year_start (y - 1 + 1)"
    using days_before_le [OF assms] year_start_Suc [of "y - 1"] n by (auto split: if_splits)
  then have "year0_of ?n = y - 1" by (rule year0_of_unique)
  moreover have "split_month y 1 (days_before y m + (d - 1)) = (m, d)"
    using split_month_days_before [of 1 m d y] assms by (simp add: days_before_def)
  ultimately show ?thesis using n by (simp add: gregorian_ymd_def Let_def)
qed

lemma gregorian_day_ymd:
  assumes "gregorian_ymd D = (y, m, d)"
  shows "1 \<le> m \<and> m \<le> 12 \<and> 1 \<le> d \<and> d \<le> month_length y m \<and> gregorian_day y m d = D"
proof -
  let ?n = "D + epoch_offset"
  obtain m' d' where s: "split_month (year0_of ?n + 1) 1 (?n - year_start (year0_of ?n)) = (m', d')"
    by (cases "split_month (year0_of ?n + 1) 1 (?n - year_start (year0_of ?n))")
  with assms have y: "y = year0_of ?n + 1" "m' = m" "d' = d"
    by (simp_all add: gregorian_ymd_def Let_def)
  have "0 \<le> ?n - year_start (year0_of ?n)"
    and "?n - year_start (year0_of ?n) < (if leap_year y then 366 else 365)"
    using year0_of_bounds [of ?n] year_start_Suc [of "year0_of ?n"] y(1) by (auto split: if_splits)
  then have "1 \<le> m \<and> m \<le> 12 \<and> 1 \<le> d \<and> d \<le> month_length y m \<and>
      days_before y m + (d - 1) = days_before y 1 + (?n - year_start (year0_of ?n))"
    using s y by (intro split_month_bounds) (auto simp: days_before_def split: if_splits)
  with y show ?thesis by (simp add: gregorian_day_def days_before_def)
qed

lemma gregorian_day_year_bounds:
  assumes "1 \<le> m" "m \<le> 12" "1 \<le> d" "d \<le> month_length y m"
  shows "year_start (y - 1) \<le> gregorian_day y m d + epoch_offset"
    "gregorian_day y m d + epoch_offset < year_start y"
  using days_before_le [OF assms] year_start_Suc [of "y - 1"]
  by (auto simp: gregorian_day_def split: if_splits)

lemma gregorian_range_iff:
  assumes "1 \<le> m" "m \<le> 12" "1 \<le> d" "d \<le> month_length y m"
  shows "- 262143 \<le> y \<and> y \<le> 262142 \<longleftrightarrow>
    gregorian_day (- 262143) 1 1 \<le> gregorian_day y m d \<and> gregorian_day y m d \<le> gregorian_day 262142 12 31"
proof -
  have lo: "gregorian_day (- 262143) 1 1 + epoch_offset = year_start (- 262144)"
    by (simp add: gregorian_day_def days_before_def)
  have hi: "gregorian_day 262142 12 31 + epoch_offset = year_start 262142 - 1"
    using year_start_Suc [of 262141] by (simp add: gregorian_day_def days_before_def leap_year_def)
  show ?thesis
    using gregorian_day_year_bounds [OF assms] lo hi
      year_start_mono [of "- 262144" "y - 1"] year_start_mono [of y 262142]
      year_start_mono [of y "- 262144"] year_start_mono [of 262142 "y - 1"]
    by linarith
qed

interpretation greg: chrono_calendar gregorian
proof
  fix y m d
  show "from_ymd_opt gregorian y m d \<noteq> None \<longleftrightarrow> year_min gregorian \<le> y \<and> y \<le> year_max gregorian \<and>
      1 \<le> m \<and> m \<le> 12 \<and> 1 \<le> d \<and> d \<le> month_length y m"
    by (simp add: gregorian_def)
next
  fix y m d D
  assume "from_ymd_opt gregorian y m d = Some D"
  then show "ymd_of gregorian D = (y, m, d)"
    by (auto simp: gregorian_def gregorian_ymd_day split: if_splits)
next
  fix y m d D
  assume "from_ymd_opt gregorian y m d = Some D"
  then show "date_min gregorian \<le> D \<and> D \<le> date_max gregorian"
    using gregorian_range_iff [of m d y] by (auto simp: gregorian_def split: if_splits)
next
  fix D y m d
  assume "date_min gregorian \<le> D" "D \<le> date_max gregorian" "ymd_of gregorian D = (y, m, d)"
  then show "from_ymd_opt gregorian y m d = Some D"
    using gregorian_day_ymd [of D y m d] gregorian_range_iff [of m d y] by (auto simp: gregorian_def)
next
  fix y m d F D
  assume "from_ymd_opt gregorian y m 1 = Some F" "from_ymd_opt gregorian y m d = Some D"
  then show "D = F + (d - 1)"
    by (auto simp: gregorian_def gregorian_day_def split: if_splits)
next
  fix y m y' m' F G
  assume F: "from_ymd_opt gregorian y m 1 = Some F" and n: "next_month y m = (y', m')"
    and G: "from_ymd_opt gregorian y' m' 1 = Some G"
  show "G = F + month_length y m"
  proof (cases "m = 12")
    case True
    with F n G show ?thesis using year_start_Suc [of "y - 1"]
      by (auto simp: gregorian_def next_month_def gregorian_day_def days_before_def month_length_def
          split: if_splits)
  next
    case False
    with F n G show ?thesis using days_before_Suc [of m y]
      by (auto simp: gregorian_def next_month_def gregorian_day_def split: if_splits)
  qed
qed

end
