(* ===== verification/Base_Kpis.thy ===== *)
theory Base_Kpis
  imports Kpi_Registry Engagement_Port Calendar
begin

text \<open>
  The two base KPIs, the render windows and the previous-period margin
  (\<^verbatim>\<open>application/service/base_kpis.rs\<close>). A computer is the function the engine calls, closed over
  what it reads: the port, or the rows of \<^verbatim>\<open>messaging.mail_messages\<close> (or the failure of that query).
\<close>

section \<open>Computers\<close>

definition connected_users_compute :: "recipient_port \<Rightarrow> kpi_computer" where
  "connected_users_compute port ctx =
     (case count_connected port (qc_company_id ctx) (qc_window_start ctx) (qc_window_end ctx) of
        Inl e \<Rightarrow> Inl (SourceUnavailable (show_port_error e))
      | Inr n \<Rightarrow> Inr (kpi_count n))"

record mail_message =
  mm_message_type :: string
  mm_date :: datetime
  mm_metadata :: metadata

definition message_counted :: "datetime \<Rightarrow> datetime \<Rightarrow> mail_message \<Rightarrow> bool" where
  "message_counted a b m \<longleftrightarrow>
     mm_message_type m \<in> {''email'', ''comment''} \<and> a \<le> mm_date m \<and> mm_date m < b \<and>
     not_deleted (mm_metadata m)"

definition messages_sent_compute :: "string + mail_message list \<Rightarrow> kpi_computer" where
  "messages_sent_compute source ctx =
     (case source of
        Inl e \<Rightarrow> Inl (Compute e)
      | Inr rows \<Rightarrow>
          Inr (kpi_count (int (length
            (filter (message_counted (qc_window_start ctx) (qc_window_end ctx)) rows)))))"

section \<open>Windows\<close>

record time_window =
  tw_start :: datetime
  tw_end :: datetime

text \<open>A subtraction that leaves the calendar panics (\<open>None\<close>).\<close>

definition window_current :: "calendar \<Rightarrow> datetime \<Rightarrow> int \<Rightarrow> time_window option" where
  "window_current cal now days =
     map_option (\<lambda>s. \<lparr> tw_start = s, tw_end = now \<rparr>) (plus_time cal now (- days * day_nanos))"

definition window_previous :: "calendar \<Rightarrow> time_window \<Rightarrow> time_window option" where
  "window_previous cal w =
     (let span = tw_end w - tw_start w in
      map_option (\<lambda>s. \<lparr> tw_start = s, tw_end = tw_start w \<rparr>) (plus_time cal (tw_start w) (- span)))"

definition window_spans_days :: "int list" where
  "window_spans_days = [1, 7, 30]"

definition windows_at :: "calendar \<Rightarrow> datetime \<Rightarrow> (time_window \<times> time_window) list option" where
  "windows_at cal now =
     (case those (map (window_current cal now) window_spans_days) of
        None \<Rightarrow> None
      | Some curs \<Rightarrow> those (map (\<lambda>cur. map_option (Pair cur) (window_previous cal cur)) curs))"

lemma windows_at_eq:
  "windows_at cal now = Some ws \<Longrightarrow> ws =
     [(\<lparr> tw_start = now - d * day_nanos, tw_end = now \<rparr>,
       \<lparr> tw_start = now - 2 * d * day_nanos, tw_end = now - d * day_nanos \<rparr>). d \<leftarrow> [1, 7, 30]]"
  by (auto simp: windows_at_def window_current_def window_previous_def window_spans_days_def Let_def
      split: option.splits dest!: plus_time_Some)

lemma length_windows_at: "windows_at cal now = Some ws \<Longrightarrow> length ws = 3"
  by (drule windows_at_eq) simp

text \<open>Sixty days of calendar before \<open>now\<close> are enough.\<close>

lemma windows_at_total:
  assumes "date_min cal \<le> date_naive now - 60" "date_naive now \<le> date_max cal"
  obtains ws where "windows_at cal now = Some ws"
proof -
  have inside: "plus_time cal t d = Some (t + d)" if "now - 60 * day_nanos \<le> t + d" "t + d \<le> now" for t d
  proof -
    have "date_naive (now - 60 * day_nanos) = date_naive now - 60"
      using div_mult_self1 [of day_nanos now "- 60"] day_nanos_pos by (simp add: date_naive_def del: day_nanos_pos)
    with date_naive_mono [OF that(1)] date_naive_mono [OF that(2)] assms show ?thesis
      by (simp add: plus_time_def)
  qed
  have w: "window_current cal now d = Some \<lparr> tw_start = now - d * day_nanos, tw_end = now \<rparr>"
    "window_previous cal \<lparr> tw_start = now - d * day_nanos, tw_end = now \<rparr> =
       Some \<lparr> tw_start = now - 2 * (d * day_nanos), tw_end = now - d * day_nanos \<rparr>" if "0 \<le> d" "d \<le> 30" for d
  proof -
    have "0 \<le> d * day_nanos" "d * day_nanos \<le> 30 * day_nanos"
      using that by (simp_all add: mult_right_mono less_imp_le)
    then show "window_current cal now d = Some \<lparr> tw_start = now - d * day_nanos, tw_end = now \<rparr>"
      "window_previous cal \<lparr> tw_start = now - d * day_nanos, tw_end = now \<rparr> =
         Some \<lparr> tw_start = now - 2 * (d * day_nanos), tw_end = now - d * day_nanos \<rparr>"
      using inside [of now "- (d * day_nanos)"] inside [of "now - d * day_nanos" "- (d * day_nanos)"]
      by (simp_all add: window_current_def window_previous_def Let_def algebra_simps)
  qed
  show thesis using that w(2) [of 1] by (simp add: windows_at_def window_spans_days_def w)
qed

text \<open>The current and the previous window split the doubled period: no instant is in both.\<close>

lemma windows_partition:
  assumes "windows_at cal now = Some ws" "(cur, prev) \<in> set ws"
  shows "tw_end prev = tw_start cur" "tw_end cur = now"
    "tw_end cur - tw_start cur = tw_end prev - tw_start prev" "tw_start cur < tw_end cur"
  using assms(2) day_nanos_pos unfolding windows_at_eq [OF assms(1)] by auto

lemma count_split:
  assumes "a \<le> b" "b \<le> c"
  shows "length (filter (message_counted a c) rows) =
    length (filter (message_counted a b) rows) + length (filter (message_counted b c) rows)"
  using assms by (induction rows) (auto simp: message_counted_def)

section \<open>The margin\<close>

definition margin :: "f64 \<Rightarrow> f64 \<Rightarrow> f64 option" where
  "margin current previous =
     (if \<not> f64_eq current previous \<and> f64_val current \<noteq> 0 \<and> f64_val previous \<noteq> 0
      then Some (f64_div
             (f64_round (f64_mul (f64_mul (f64_div (f64_sub current previous) previous)
                (f64_of_int 100)) (f64_of_int 100)))
             (f64_of_int 100))
      else None)"

lemma f64_of_int_100 [simp]: "\<not> f64_neg (f64_of_int 100)" "f64_ok (f64_of_int 100)"
  by (simp_all add: f64_of_int_def) (simp add: f64_of_rat_def)

text \<open>
  The sign of the margin is the sign of the change relative to the previous value, even when
  the rounded magnitude is zero.
\<close>

lemma margin_neg:
  assumes "margin c p = Some m" "f64_ok c" "f64_ok p" "0 < f64_val p"
  shows "f64_neg m \<longleftrightarrow> f64_val c < f64_val p"
proof -
  have ne: "f64_val c \<noteq> f64_val p" using assms(1) by (auto simp: margin_def f64_eq_def split: if_splits)
  have "\<not> f64_neg p" using assms(3,4) by (auto simp: f64_val_def f64_ok_def split: if_splits)
  moreover have "f64_neg (f64_sub c p) \<longleftrightarrow> f64_val c < f64_val p"
    using ne by (simp add: f64_sub_def f64_of_rat_def)
  ultimately show ?thesis using assms(1) by (auto simp: margin_def split: if_splits)
qed

lemma margin_ok: "margin c p = Some m \<Longrightarrow> f64_ok p \<Longrightarrow> f64_ok m"
  by (auto simp: margin_def split: if_splits)

section \<open>The base pair\<close>

definition connected_users_kpi :: "recipient_port \<Rightarrow> kpi_definition" where
  "connected_users_kpi port =
     \<lparr> kd_name = kpi_connected_users, kd_label = ''Connected Users'', kd_fence = CompanyData,
       kd_computer = connected_users_compute port \<rparr>"

definition messages_sent_kpi :: "string + mail_message list \<Rightarrow> kpi_definition" where
  "messages_sent_kpi source =
     \<lparr> kd_name = kpi_messages_sent, kd_label = ''Messages Sent'', kd_fence = SharedData,
       kd_computer = messages_sent_compute source \<rparr>"

text \<open>Both results are discarded (\<^verbatim>\<open>let _ =\<close>); a duplicate name still panics.\<close>

definition register_ignoring :: "kpi_definition \<Rightarrow> kpi_registry option \<Rightarrow> kpi_registry option" where
  "register_ignoring d r =
     (case r of
        None \<Rightarrow> None
      | Some es \<Rightarrow>
          (case registry_register d es of
             Registered es' \<Rightarrow> Some es'
           | Refused _ \<Rightarrow> Some es
           | DuplicatePanic \<Rightarrow> None))"

definition register_base_kpis ::
  "recipient_port \<Rightarrow> string + mail_message list \<Rightarrow> kpi_registry \<Rightarrow> kpi_registry option" where
  "register_base_kpis port source r =
     register_ignoring (messages_sent_kpi source) (register_ignoring (connected_users_kpi port) (Some r))"

lemma register_base_kpis_new:
  "register_base_kpis port source registry_new =
     Some [(kpi_messages_sent, messages_sent_kpi source), (kpi_connected_users, connected_users_kpi port)]"
proof -
  have "kpi_messages_sent < kpi_connected_users"
    by (simp add: kpi_messages_sent_def kpi_connected_users_def less_char_def)
  moreover have "starts_with kpi_name_prefix kpi_messages_sent"
    "starts_with kpi_name_prefix kpi_connected_users"
    by (simp_all add: starts_with_def kpi_name_prefix_def kpi_messages_sent_def kpi_connected_users_def)
  ultimately show ?thesis
    by (simp add: register_base_kpis_def register_ignoring_def registry_register_def registry_new_def
        connected_users_kpi_def messages_sent_kpi_def)
qed

text \<open>A KPI over the port drops, never fails, when the port cannot answer.\<close>

lemma connected_users_unavailable:
  "count_connected port (qc_company_id ctx) (qc_window_start ctx) (qc_window_end ctx) = Inl e \<Longrightarrow>
     connected_users_compute port ctx = Inl (SourceUnavailable (show_port_error e))"
  by (simp add: connected_users_compute_def)

end
