(* ===== verification/Periodicity.thy ===== *)
theory Periodicity
  imports Calendar
begin

text \<open>
  The cadence of a digest (\<^verbatim>\<open>DigestPeriodicity\<close> of \<^verbatim>\<open>application/service/digest_write_service.rs\<close>, its
  twin of \<^verbatim>\<open>domain/entity/digest_periodicity.rs\<close>, and \<^verbatim>\<open>login_window_since\<close> of
  \<^verbatim>\<open>digest_cron_service.rs\<close>): the text whitelist, the calendar advance, the slowdown ladder and its
  login window. A failed \<^verbatim>\<open>expect\<close> (a date outside chrono's range) is \<open>None\<close>.
\<close>

datatype periodicity = Daily | Weekly | Monthly | Quarterly

section \<open>Text\<close>

definition parse_periodicity :: "string \<Rightarrow> periodicity option" where
  "parse_periodicity v =
     (if v = ''daily'' then Some Daily
      else if v = ''weekly'' then Some Weekly
      else if v = ''monthly'' then Some Monthly
      else if v = ''quarterly'' then Some Quarterly
      else None)"

fun periodicity_as_str :: "periodicity \<Rightarrow> string" where
  "periodicity_as_str Daily = ''daily''"
| "periodicity_as_str Weekly = ''weekly''"
| "periodicity_as_str Monthly = ''monthly''"
| "periodicity_as_str Quarterly = ''quarterly''"

text \<open>The entity's \<^verbatim>\<open>FromStr\<close> lower-cases first.\<close>

definition entity_periodicity_from_str :: "string \<Rightarrow> string + periodicity" where
  "entity_periodicity_from_str s =
     (case to_lowercase s of l \<Rightarrow>
        if l = ''daily'' then Inr Daily
        else if l = ''weekly'' then Inr Weekly
        else if l = ''monthly'' then Inr Monthly
        else if l = ''quarterly'' then Inr Quarterly
        else Inl (''Unknown DigestPeriodicity variant: '' @ s))"

lemma parse_periodicity_iff: "parse_periodicity v = Some p \<longleftrightarrow> v = periodicity_as_str p"
  by (cases p) (auto simp: parse_periodicity_def)

lemma parse_as_str [simp]: "parse_periodicity (periodicity_as_str p) = Some p"
  by (simp add: parse_periodicity_iff)

section \<open>Calendar months\<close>

definition days_in_month :: "calendar \<Rightarrow> int \<Rightarrow> int \<Rightarrow> int option" where
  "days_in_month cal year month =
     (let (y, m) = (if month = 12 then (year + 1, 1) else (year, month + 1)) in
      case from_ymd_opt cal y m 1 of
        None \<Rightarrow> None
      | Some first_of_next \<Rightarrow>
          (case ymd_of cal (first_of_next - 1) of (_, _, d) \<Rightarrow> Some d))"

definition add_months :: "calendar \<Rightarrow> date \<Rightarrow> int \<Rightarrow> date option" where
  "add_months cal from_date months =
     (case ymd_of cal from_date of (fy, fm, fd) \<Rightarrow>
        let total = fy * 12 + (fm - 1) + months;
            year = total div 12;
            month0 = total mod 12
        in case days_in_month cal year (month0 + 1) of
             None \<Rightarrow> None
           | Some len \<Rightarrow> from_ymd_opt cal year (month0 + 1) (min fd len))"

text \<open>\<^verbatim>\<open>NaiveDate + Duration::days(n)\<close> panics outside chrono's range.\<close>

definition plus_days :: "calendar \<Rightarrow> date \<Rightarrow> int \<Rightarrow> date option" where
  "plus_days cal d n =
     (if date_min cal \<le> d + n \<and> d + n \<le> date_max cal then Some (d + n) else None)"

fun advance :: "calendar \<Rightarrow> periodicity \<Rightarrow> date \<Rightarrow> date option" where
  "advance cal Daily d = plus_days cal d 1"
| "advance cal Weekly d = plus_days cal d 7"
| "advance cal Monthly d = add_months cal d 1"
| "advance cal Quarterly d = add_months cal d 3"

fun next_rung :: "periodicity \<Rightarrow> periodicity option" where
  "next_rung Daily = Some Weekly"
| "next_rung Weekly = Some Monthly"
| "next_rung Monthly = Some Quarterly"
| "next_rung Quarterly = None"

fun login_window_since :: "calendar \<Rightarrow> periodicity \<Rightarrow> datetime \<Rightarrow> datetime option" where
  "login_window_since cal Daily now = plus_time cal now (- 2 * day_nanos)"
| "login_window_since cal Weekly now = plus_time cal now (- 7 * day_nanos)"
| "login_window_since cal Monthly now = map_option midnight (add_months cal (date_naive now) (- 1))"
| "login_window_since cal Quarterly now = map_option midnight (add_months cal (date_naive now) (- 3))"

section \<open>The ladder\<close>

fun rung :: "periodicity \<Rightarrow> nat" where
  "rung Daily = 0" | "rung Weekly = 1" | "rung Monthly = 2" | "rung Quarterly = 3"

lemma next_rung_Suc: "next_rung p = Some q \<Longrightarrow> rung q = Suc (rung p)"
  by (cases p) auto

lemma rung_inj: "rung p = rung q \<longleftrightarrow> p = q"
  by (cases p; cases q) auto

instantiation periodicity :: linorder
begin

definition less_eq_periodicity :: "periodicity \<Rightarrow> periodicity \<Rightarrow> bool" where
  "less_eq_periodicity p q \<longleftrightarrow> rung p \<le> rung q"

definition less_periodicity :: "periodicity \<Rightarrow> periodicity \<Rightarrow> bool" where
  "less_periodicity p q \<longleftrightarrow> rung p < rung q"

instance
  by standard (auto simp: less_eq_periodicity_def less_periodicity_def rung_inj)

end

lemma next_rung_greater: "next_rung p = Some q \<Longrightarrow> p < q"
  by (simp add: less_periodicity_def next_rung_Suc)

lemma next_rung_cover: "p < r \<Longrightarrow> next_rung p = Some q \<Longrightarrow> q \<le> r"
  by (simp add: less_periodicity_def less_eq_periodicity_def next_rung_Suc)

lemma next_rung_floor: "next_rung p = None \<Longrightarrow> r \<le> p"
  by (cases p; cases r) (simp_all add: less_eq_periodicity_def)

section \<open>What the date arithmetic computes\<close>

lemma month_index_le:
  fixes y y' m m' :: int
  assumes "y * 12 + m \<le> y' * 12 + m'" "1 \<le> m" "m' \<le> 12"
  shows "y \<le> y'"
  using assms by linarith

lemma month_index_inj:
  fixes y y' m m' :: int
  assumes "y * 12 + m = y' * 12 + m'" "1 \<le> m" "m \<le> 12" "1 \<le> m'" "m' \<le> 12"
  shows "y = y' \<and> m = m'"
proof -
  have "y \<le> y'" using assms by (intro month_index_le [of y m y' m']) simp_all
  moreover have "y' \<le> y" using assms by (intro month_index_le [of y' m' y m]) simp_all
  ultimately show ?thesis using assms(1) by simp
qed

context chrono_calendar
begin

lemma days_in_month_eq:
  assumes "year_min cal \<le> y" "1 \<le> m" "m \<le> 12" "y \<le> year_max cal" "m = 12 \<Longrightarrow> y + 1 \<le> year_max cal"
  shows "days_in_month cal y m = Some (month_length y m)"
proof -
  obtain y' m' where n: "next_month y m = (y', m')" by (cases "next_month y m")
  have "year_min cal \<le> y'" "y' \<le> year_max cal" "1 \<le> m'" "m' \<le> 12"
    using n assms by (auto simp: next_month_def split: if_splits)
  then obtain G where G: "from_ymd_opt cal y' m' 1 = Some G"
    using month_length_bounds [of y' m'] by (auto elim: from_ymd_Some [of y' m' 1])
  obtain F where F: "from_ymd_opt cal y m 1 = Some F"
    using assms month_length_bounds [of y m] by (auto elim: from_ymd_Some [of y m 1])
  obtain L where L: "from_ymd_opt cal y m (month_length y m) = Some L"
    using assms month_length_bounds [of y m] by (auto elim: from_ymd_Some [of y m "month_length y m"])
  have "G - 1 = L" using month_succ [OF F n G] day_of_month [OF F L] by simp
  with ymd_of_from_ymd [OF L] G n show ?thesis
    by (auto simp: days_in_month_def next_month_def split: if_splits)
qed

text \<open>The month index orders dates.\<close>

lemma month_order:
  assumes "from_ymd_opt cal y m d = Some D" "from_ymd_opt cal y' m' d' = Some D'"
    and "y * 12 + m < y' * 12 + m'"
  shows "D < D'"
  using assms
proof (induction "nat (y' * 12 + m' - (y * 12 + m))" arbitrary: y m d D)
  case 0
  then show ?case by simp
next
  case (Suc k)
  obtain y1 m1 where n: "next_month y m = (y1, m1)" by (cases "next_month y m")
  note v = from_ymd_valid [OF Suc.prems(1)] from_ymd_valid [OF Suc.prems(2)]
  have idx: "y1 * 12 + m1 = y * 12 + m + 1" "1 \<le> m1" "m1 \<le> 12"
    using n v by (auto simp: next_month_def split: if_splits)
  show ?case
  proof (cases "y1 * 12 + m1 = y' * 12 + m'")
    case True
    with idx v have "y1 = y'" "m1 = m'" using month_index_inj [of y1 m1 y' m'] by simp_all
    with n Suc.prems show ?thesis by (auto intro: later_month_less)
  next
    case False
    with idx Suc.prems(3) have less: "y1 * 12 + m1 < y' * 12 + m'" by simp
    with idx v have "y1 \<le> y'" "y \<le> y1"
      using month_index_le [of y1 m1 y' m'] month_index_le [of y m y1 m1] by simp_all
    with v have "year_min cal \<le> y1" "y1 \<le> year_max cal" by linarith+
    moreover have "1 \<le> month_length y1 m1" using month_length_bounds [of y1 m1] by linarith
    ultimately obtain G where G: "from_ymd_opt cal y1 m1 1 = Some G"
      using idx by (auto elim: from_ymd_Some [of y1 m1 1])
    have "D < G" using Suc.prems(1) n G by (rule later_month_less)
    moreover have "G < D'" using Suc.hyps(2) idx(1) by (intro Suc.hyps(1) [OF _ G Suc.prems(2) less]) simp
    ultimately show ?thesis by simp
  qed
qed

lemma add_months_spec:
  assumes D: "date_min cal \<le> D" "D \<le> date_max cal" "ymd_of cal D = (y, m, d)"
    and t: "y' * 12 + (m' - 1) = y * 12 + (m - 1) + k" "1 \<le> m'" "m' \<le> 12"
    and rng: "year_min cal \<le> y'" "y' < year_max cal"
  obtains D' where "add_months cal D k = Some D'"
    and "from_ymd_opt cal y' m' (min d (month_length y' m')) = Some D'"
proof -
  have v: "1 \<le> d" using from_ymd_valid [OF from_ymd_ymd_of [OF D]] by simp
  have "(y' * 12 + (m' - 1)) div 12 = y'" "(y' * 12 + (m' - 1)) mod 12 = m' - 1"
    using t(2,3) by simp_all
  moreover have "days_in_month cal y' m' = Some (month_length y' m')"
    using t rng by (intro days_in_month_eq) auto
  moreover obtain D' where "from_ymd_opt cal y' m' (min d (month_length y' m')) = Some D'"
    using v t rng month_length_bounds [of y' m']
    by (auto elim: from_ymd_Some [of y' m' "min d (month_length y' m')"])
  ultimately show ?thesis
    using that t(1) D(3) by (simp add: add_months_def)
qed

lemma ymd_of_valid:
  assumes "date_min cal \<le> D" "D \<le> date_max cal" "ymd_of cal D = (y, m, d)"
  shows "year_min cal \<le> y \<and> y \<le> year_max cal \<and> 1 \<le> m \<and> m \<le> 12 \<and> 1 \<le> d \<and> d \<le> month_length y m"
  using from_ymd_valid [OF from_ymd_ymd_of [OF assms]] by simp

text \<open>Moving by \<open>k\<close> months inside the range succeeds and moves the date the way \<open>k\<close> points.\<close>

lemma add_months_order:
  assumes D: "date_min cal \<le> D" "D \<le> date_max cal" "ymd_of cal D = (y, m, d)"
    and k: "year_min cal \<le> (y * 12 + (m - 1) + k) div 12" "(y * 12 + (m - 1) + k) div 12 < year_max cal"
  obtains D' where "add_months cal D k = Some D'" "date_min cal \<le> D'" "D' \<le> date_max cal"
    and "0 < k \<Longrightarrow> D < D'" "k < 0 \<Longrightarrow> D' < D"
proof -
  let ?t = "y * 12 + (m - 1) + k"
  obtain D' where a: "add_months cal D k = Some D'"
    and f: "from_ymd_opt cal (?t div 12) (?t mod 12 + 1) (min d (month_length (?t div 12) (?t mod 12 + 1)))
      = Some D'"
    using k by (auto intro: add_months_spec [OF D, of "?t div 12" "?t mod 12 + 1" k])
  note f0 = from_ymd_ymd_of [OF D]
  have idx: "(?t div 12) * 12 + (?t mod 12 + 1) = y * 12 + m + k" by simp
  show ?thesis
  proof (rule that [OF a])
    show "date_min cal \<le> D'" "D' \<le> date_max cal" using from_ymd_range [OF f] by auto
    show "0 < k \<Longrightarrow> D < D'" using month_order [OF f0 f] idx by simp
    show "k < 0 \<Longrightarrow> D' < D" using month_order [OF f f0] idx by simp
  qed
qed

text \<open>One calendar month is at least 28 days.\<close>

lemma add_one_month_28:
  assumes D: "date_min cal \<le> D" "D \<le> date_max cal" "ymd_of cal D = (y, m, d)"
    and y: "y + 1 < year_max cal"
  obtains D' where "add_months cal D 1 = Some D'" "D + 28 \<le> D'" "date_min cal \<le> D'" "D' \<le> date_max cal"
proof -
  note v = ymd_of_valid [OF D]
  obtain y' m' where n: "next_month y m = (y', m')" by (cases "next_month y m")
  have t: "y' * 12 + (m' - 1) = y * 12 + (m - 1) + 1" "1 \<le> m'" "m' \<le> 12"
    using n v by (auto simp: next_month_def split: if_splits)
  have r: "year_min cal \<le> y'" "y' < year_max cal"
    using n v y by (auto simp: next_month_def split: if_splits)
  obtain D' where a: "add_months cal D 1 = Some D'"
    and f: "from_ymd_opt cal y' m' (min d (month_length y' m')) = Some D'"
    by (rule add_months_spec [OF D t r])
  obtain F where F: "from_ymd_opt cal y m 1 = Some F" "D = F + (d - 1)"
    by (rule first_of_month [OF from_ymd_ymd_of [OF D]])
  obtain G where G: "from_ymd_opt cal y' m' 1 = Some G" "D' = G + (min d (month_length y' m') - 1)"
    by (rule first_of_month [OF f])
  have "G = F + month_length y m" by (rule month_succ [OF F(1) n G(1)])
  then have "D + 28 \<le> D'" using F G v month_length_bounds [of y m] month_length_bounds [of y' m'] by linarith
  with that a from_ymd_range [OF f] show ?thesis by blast
qed

text \<open>Whatever date the advance returns lies after the one it started from.\<close>

lemma add_months_forward:
  assumes D: "date_min cal \<le> D" "D \<le> date_max cal" and a: "add_months cal D k = Some D'" "0 < k"
  shows "D < D'"
proof -
  obtain y m d where y: "ymd_of cal D = (y, m, d)" by (cases "ymd_of cal D") auto
  let ?t = "y * 12 + (m - 1) + k"
  obtain e where f: "from_ymd_opt cal (?t div 12) (?t mod 12 + 1) e = Some D'"
    using a(1) y by (auto simp: add_months_def Let_def split: option.splits)
  have "(?t div 12) * 12 + (?t mod 12 + 1) = y * 12 + m + k" by simp
  with month_order [OF from_ymd_ymd_of [OF D y] f] a(2) show ?thesis by simp
qed

lemma advance_forward:
  assumes "date_min cal \<le> D" "D \<le> date_max cal" "advance cal p D = Some D'"
  shows "D < D'"
  using assms add_months_forward [of D 1 D'] add_months_forward [of D 3 D']
  by (cases p) (auto simp: plus_days_def split: if_splits)

lemma add_months_less:
  assumes "add_months cal D k = Some A" "add_months cal D l = Some B" "k < l"
  shows "A < B"
proof -
  obtain y m d where y: "ymd_of cal D = (y, m, d)" by (cases "ymd_of cal D") auto
  have form: "\<exists>e. from_ymd_opt cal ((y * 12 + (m - 1) + j) div 12) ((y * 12 + (m - 1) + j) mod 12 + 1) e = Some E"
    if "add_months cal D j = Some E" for j E
    using that y by (auto simp: add_months_def Let_def split: option.splits)
  let ?t = "\<lambda>j. y * 12 + (m - 1) + j"
  obtain e where "from_ymd_opt cal (?t k div 12) (?t k mod 12 + 1) e = Some A" using form [OF assms(1)] by blast
  moreover obtain e' where "from_ymd_opt cal (?t l div 12) (?t l mod 12 + 1) e' = Some B" using form [OF assms(2)] by blast
  ultimately show ?thesis by (rule month_order) (use assms(3) in simp)
qed

text \<open>Away from the end of the calendar every cadence advances, and a slower one further.\<close>

lemma advance_total:
  assumes D: "date_min cal \<le> D" "D \<le> date_max cal" "ymd_of cal D = (y, m, d)" and y: "y + 1 < year_max cal"
  obtains A B where "advance cal Daily D = Some (D + 1)" "advance cal Weekly D = Some (D + 7)"
    "advance cal Monthly D = Some A" "advance cal Quarterly D = Some B" "D + 28 \<le> A" "A < B"
proof -
  obtain A where A: "add_months cal D 1 = Some A" "D + 28 \<le> A" "A \<le> date_max cal"
    by (rule add_one_month_28 [OF D y])
  note v = ymd_of_valid [OF D]
  have "year_min cal \<le> (y * 12 + (m - 1) + 3) div 12" "(y * 12 + (m - 1) + 3) div 12 < year_max cal"
    using v y by linarith+
  then obtain B where B: "add_months cal D 3 = Some B" by (rule add_months_order [OF D, of 3])
  have "A < B" by (rule add_months_less [OF A(1) B]) simp
  with that [of A B] A B D(1,2) show ?thesis by (simp add: plus_days_def)
qed

end

end
