(* ===== verification/Digest_Error.thy ===== *)
theory Digest_Error
  imports Prelude
begin

text \<open>
  The typed error surface of the module (\<^verbatim>\<open>application/service/digest_error.rs\<close>): the error
  constructors, the HTTP status and the wire code of each, and the result type of the effectful
  services. A Rust \<^verbatim>\<open>Result\<close> that may also panic (a failed \<^verbatim>\<open>expect\<close>, a duplicate registration) is
  a \<open>res\<close>: \<open>Ok\<close>, \<open>Err\<close> or \<open>Panic\<close>.
\<close>

datatype digest_error =
    Db string
  | MailDelivery string
  | SendFailed string
  | NotFound uuid
  | Invalid string
  | UnsubscribeRefused string
  | SecretNotConfigured
  | PublicBaseUrlNotConfigured

datatype 'a res = Ok 'a | Err digest_error | Panic

fun http_status :: "digest_error \<Rightarrow> nat" where
  "http_status (NotFound _) = 404"
| "http_status (Invalid _) = 400"
| "http_status (UnsubscribeRefused _) = 403"
| "http_status _ = 500"

fun error_code :: "digest_error \<Rightarrow> string" where
  "error_code (Db _) = ''internal_error''"
| "error_code SecretNotConfigured = ''internal_error''"
| "error_code PublicBaseUrlNotConfigured = ''internal_error''"
| "error_code (MailDelivery _) = ''digest_mail_delivery''"
| "error_code (SendFailed _) = ''digest_send_failed''"
| "error_code (NotFound _) = ''digest_not_found''"
| "error_code (Invalid _) = ''digest_invalid''"
| "error_code (UnsubscribeRefused _) = ''digest_unsubscribe_refused''"

text \<open>\<^verbatim>\<open>to_string()\<close> on an error, from its \<^verbatim>\<open>#[error(..)]\<close> attributes; a \<^verbatim>\<open>Uuid\<close> prints through \<open>sh\<close>.\<close>

fun show_error :: "(uuid \<Rightarrow> string) \<Rightarrow> digest_error \<Rightarrow> string" where
  "show_error sh (Db e) = ''db: '' @ e"
| "show_error sh (MailDelivery e) = ''mail delivery: '' @ e"
| "show_error sh (SendFailed e) = ''digest send failed: '' @ e"
| "show_error sh (NotFound d) = ''digest '' @ sh d @ '' not found''"
| "show_error sh (Invalid e) = ''invalid: '' @ e"
| "show_error sh (UnsubscribeRefused e) = ''unsubscribe refused: '' @ e"
| "show_error sh SecretNotConfigured = ''token secret not configured''"
| "show_error sh PublicBaseUrlNotConfigured = ''public base url not configured''"

lemma http_status_client_error_iff:
  "http_status e < 500 \<longleftrightarrow> (\<exists>d. e = NotFound d) \<or> (\<exists>m. e = Invalid m) \<or> (\<exists>m. e = UnsubscribeRefused m)"
  by (cases e) auto

text \<open>Every internal failure (500) that is not a send failure hides behind \<^verbatim>\<open>internal_error\<close>.\<close>

lemma error_code_internal_iff:
  "error_code e = ''internal_error'' \<longleftrightarrow>
     http_status e = 500 \<and> (\<forall>m. e \<noteq> MailDelivery m) \<and> (\<forall>m. e \<noteq> SendFailed m)"
  by (cases e) auto

end
