(* ===== verification/World.thy ===== *)
theory World
  imports Periodicity Digest_Error
begin

text \<open>
  The state the services share: the five tables of the \<^verbatim>\<open>digest\<close> schema (rows as lists in insertion
  order, their unique keys as an invariant), the mails accepted by the outbound seam, and the
  \<^verbatim>\<open>digest::audit\<close> events. A service method is a state transformer into \<open>res\<close>. Every SQL statement
  of the sources is one application of \<open>sql\<close>: it takes the next entry of \<open>sql_faults\<close>, which says
  whether the statement fails (with the text of the \<^verbatim>\<open>sqlx\<close> error) or runs, so that every \<^verbatim>\<open>?\<close> on a
  query is a branch of the model; the list is arbitrary in the theorems, and when it is used up
  statements succeed. Rows carry neither the surrogate id the database generates on insert nor
  the timestamps its triggers write into \<^verbatim>\<open>metadata\<close>.
\<close>

section \<open>The enums of the entities\<close>

datatype digest_state = Activated | Deactivated

datatype subscription_state = Subscribed | Unsubscribed

fun show_digest_state :: "digest_state \<Rightarrow> string" where
  "show_digest_state Activated = ''activated''"
| "show_digest_state Deactivated = ''deactivated''"

definition digest_state_from_str :: "string \<Rightarrow> string + digest_state" where
  "digest_state_from_str s =
     (let l = to_lowercase s in
      if l = ''activated'' then Inr Activated
      else if l = ''deactivated'' then Inr Deactivated
      else Inl (''Unknown DigestState variant: '' @ s))"

fun show_subscription_state :: "subscription_state \<Rightarrow> string" where
  "show_subscription_state Subscribed = ''subscribed''"
| "show_subscription_state Unsubscribed = ''unsubscribed''"

definition subscription_state_from_str :: "string \<Rightarrow> string + subscription_state" where
  "subscription_state_from_str s =
     (let l = to_lowercase s in
      if l = ''subscribed'' then Inr Subscribed
      else if l = ''unsubscribed'' then Inr Unsubscribed
      else Inl (''Unknown DigestSubscriptionState variant: '' @ s))"

lemma digest_state_roundtrip: "digest_state_from_str (show_digest_state s) = Inr s"
  by (cases s) (simp_all add: digest_state_from_str_def lower_char_def Let_def)

lemma subscription_state_roundtrip:
  "subscription_state_from_str (show_subscription_state s) = Inr s"
  by (cases s) (simp_all add: subscription_state_from_str_def lower_char_def Let_def)

section \<open>Tables\<close>

record digest_rec =
  dg_id :: uuid
  dg_name :: string
  dg_periodicity :: periodicity
  dg_next_run_date :: "date option"
  dg_state :: digest_state
  dg_metadata :: metadata

record subscription_rec =
  su_digest_id :: uuid
  su_user_id :: uuid
  su_state :: subscription_state
  su_unsubscribed_at :: "datetime option"
  su_metadata :: metadata

record kpi_rec =
  kp_digest_id :: uuid
  kp_key :: string
  kp_metadata :: metadata

record tip_rec =
  ti_id :: uuid
  ti_sequence :: int
  ti_name :: string
  ti_description :: "string option"
  ti_group_key :: "string option"
  ti_metadata :: metadata

record tip_user_rec =
  tu_tip_id :: uuid
  tu_user_id :: uuid
  tu_metadata :: metadata

definition sub_key :: "subscription_rec \<Rightarrow> uuid \<times> uuid" where
  "sub_key r = (su_digest_id r, su_user_id r)"

definition kpi_key :: "kpi_rec \<Rightarrow> uuid \<times> string" where
  "kpi_key r = (kp_digest_id r, kp_key r)"

definition tip_user_key :: "tip_user_rec \<Rightarrow> uuid \<times> uuid" where
  "tip_user_key r = (tu_tip_id r, tu_user_id r)"

interpretation dgt: keyed_table dg_id .
interpretation sut: keyed_table sub_key .
interpretation kpt: keyed_table kpi_key .
interpretation tut: keyed_table tip_user_key .

section \<open>Mails and audit events\<close>

record outgoing_mail =
  om_digest_id :: uuid
  om_recipient_user_id :: uuid
  om_email_to :: string
  om_subject :: string
  om_body_html :: string
  om_headers :: "(string \<times> string) list"
  om_model :: string
  om_queued_at :: datetime

datatype audit_event =
    DigestEmailSent uuid uuid uuid
  | DigestSendIsolated uuid
  | SlowdownSignalUnavailable uuid
  | DigestSlowdownDegraded uuid periodicity periodicity nat
  | DigestUnsubscribedEvent uuid uuid
  | AutoSubscribeRefused string uuid
  | DigestUserAutoSubscribed uuid uuid

record world =
  digests :: "digest_rec list"
  subscriptions :: "subscription_rec list"
  digest_kpis :: "kpi_rec list"
  tips :: "tip_rec list"
  tip_users :: "tip_user_rec list"
  mails :: "outgoing_mail list"
  audit :: "audit_event list"
  row_locks :: "uuid list"
  sql_faults :: "string option list"

definition world_ok :: "world \<Rightarrow> bool" where
  "world_ok w \<longleftrightarrow>
     unique_key dg_id (digests w) \<and> unique_key sub_key (subscriptions w) \<and>
     unique_key kpi_key (digest_kpis w) \<and> unique_key tip_user_key (tip_users w)"

lemma world_ok_audit [simp]: "world_ok (w\<lparr>audit := a\<rparr>) = world_ok w"
  and world_ok_mails [simp]: "world_ok (w\<lparr>mails := m\<rparr>) = world_ok w"
  and world_ok_faults [simp]: "world_ok (w\<lparr>sql_faults := f\<rparr>) = world_ok w"
  by (simp_all add: world_ok_def)

section \<open>Statements\<close>

type_synonym 'a io = "world \<Rightarrow> 'a res \<times> world"

definition return :: "'a \<Rightarrow> 'a io" where
  "return a w = (Ok a, w)"

definition throw :: "digest_error \<Rightarrow> 'a io" where
  "throw e w = (Err e, w)"

definition panic :: "'a io" where
  "panic w = (Panic, w)"

text \<open>\<^verbatim>\<open>Option::expect\<close>, and a library call that panics (\<open>None\<close>); a result already at hand.\<close>

definition expect :: "'a option \<Rightarrow> 'a io" where
  "expect x = (case x of None \<Rightarrow> panic | Some a \<Rightarrow> return a)"

definition from_res :: "'a res \<Rightarrow> 'a io" where
  "from_res r w = (r, w)"

definition and_then :: "'a io \<Rightarrow> ('a \<Rightarrow> 'b io) \<Rightarrow> 'b io" where
  "and_then m f w =
     (case m w of
        (Ok a, w') \<Rightarrow> f a w'
      | (Err e, w') \<Rightarrow> (Err e, w')
      | (Panic, w') \<Rightarrow> (Panic, w'))"

definition sql :: "(world \<Rightarrow> 'a \<times> world) \<Rightarrow> 'a io" where
  "sql stmt w =
     (case sql_faults w of
        Some e # fs \<Rightarrow> (Err (Db e), w\<lparr>sql_faults := fs\<rparr>)
      | None # fs \<Rightarrow> (case stmt (w\<lparr>sql_faults := fs\<rparr>) of (a, w') \<Rightarrow> (Ok a, w'))
      | [] \<Rightarrow> (case stmt w of (a, w') \<Rightarrow> (Ok a, w')))"

text \<open>A query reads the world and leaves it as it is.\<close>

definition select :: "(world \<Rightarrow> 'a) \<Rightarrow> 'a io" where
  "select q = sql (\<lambda>w. (q w, w))"

definition write_audit :: "audit_event \<Rightarrow> world \<Rightarrow> world" where
  "write_audit ev w = w\<lparr>audit := audit w @ [ev]\<rparr>"

lemma and_then_simps [io_simps]:
  "and_then (return a) f = f a"
  "and_then (throw e) f = throw e"
  "and_then (from_res (Ok a)) f = f a"
  "and_then (from_res (Err e)) f = throw e"
  "and_then (expect (Some a)) f = f a"
  by (simp_all add: and_then_def return_def throw_def from_res_def expect_def fun_eq_iff)

lemma expect_Ok: "expect x w = (Ok a, w') \<longleftrightarrow> x = Some a \<and> w' = w"
  by (auto simp: expect_def panic_def return_def split: option.splits)

lemma from_res_Ok: "from_res r w = (Ok a, w') \<longleftrightarrow> r = Ok a \<and> w' = w"
  by (auto simp: from_res_def)

lemma and_then_assoc: "and_then (and_then m f) g = and_then m (\<lambda>a. and_then (f a) g)"
  by (auto simp: and_then_def fun_eq_iff split: prod.splits res.splits)

lemma write_audit_frame [simp]:
  "digests (write_audit ev w) = digests w" "subscriptions (write_audit ev w) = subscriptions w"
  "digest_kpis (write_audit ev w) = digest_kpis w" "tips (write_audit ev w) = tips w"
  "tip_users (write_audit ev w) = tip_users w" "mails (write_audit ev w) = mails w"
  "row_locks (write_audit ev w) = row_locks w" "sql_faults (write_audit ev w) = sql_faults w"
  "audit (write_audit ev w) = audit w @ [ev]"
  by (simp_all add: write_audit_def)

lemma world_ok_write_audit [simp]: "world_ok (write_audit ev w) = world_ok w"
  by (simp add: write_audit_def)

text \<open>
  The two outcomes of a statement: it fails and consumes its fault, or it runs on a world that
  differs from the given one in \<open>sql_faults\<close> only.
\<close>

lemma sql_cases:
  obtains (fault) e fs where "sql stmt w = (Err (Db e), w\<lparr>sql_faults := fs\<rparr>)"
  | (run) a w' fs where "stmt (w\<lparr>sql_faults := fs\<rparr>) = (a, w')" "sql stmt w = (Ok a, w')"
proof (cases "sql_faults w")
  case Nil
  then have "w\<lparr>sql_faults := []\<rparr> = w" by simp
  with Nil run [of "[]"] show ?thesis by (cases "stmt w") (simp add: sql_def)
next
  case (Cons f fs)
  show ?thesis
  proof (cases f)
    case None
    with Cons run [of fs] show ?thesis
      by (cases "stmt (w\<lparr>sql_faults := fs\<rparr>)") (simp add: sql_def)
  next
    case (Some e)
    with Cons fault show ?thesis by (simp add: sql_def)
  qed
qed

lemma sql_no_faults: "sql_faults w = [] \<Longrightarrow> sql stmt w = (case stmt w of (a, w') \<Rightarrow> (Ok a, w'))"
  by (simp add: sql_def)

lemma select_no_faults: "sql_faults w = [] \<Longrightarrow> select q w = (Ok (q w), w)"
  by (simp add: select_def sql_no_faults)

lemma sql_next:
  "sql stmt w = (case sql_faults w of
      Some e # fs \<Rightarrow> (Err (Db e), w\<lparr>sql_faults := fs\<rparr>)
    | _ \<Rightarrow> (case stmt (w\<lparr>sql_faults := tl (sql_faults w)\<rparr>) of (a, w') \<Rightarrow> (Ok a, w')))"
proof (cases "sql_faults w")
  case Nil
  then have e: "w\<lparr>sql_faults := []\<rparr> = w" by simp
  show ?thesis by (simp add: sql_def Nil e)
qed (auto simp: sql_def split: option.split)

text \<open>A statement never panics, and fails with a database error only.\<close>

lemma sql_not_panic: "sql stmt w \<noteq> (Panic, w')"
  by (rule sql_cases [of stmt w]) auto

lemma sql_Err_Db: "sql stmt w = (Err e, w') \<Longrightarrow> \<exists>m fs. e = Db m \<and> w' = w\<lparr>sql_faults := fs\<rparr>"
  by (rule sql_cases [of stmt w]) auto

lemma sql_Ok: "sql stmt w = (Ok a, w') \<Longrightarrow> \<exists>fs. stmt (w\<lparr>sql_faults := fs\<rparr>) = (a, w')"
  by (rule sql_cases [of stmt w]) auto

lemma select_cases:
  obtains (fault) e fs where "select q w = (Err (Db e), w\<lparr>sql_faults := fs\<rparr>)"
  | (run) fs where "select q w = (Ok (q (w\<lparr>sql_faults := fs\<rparr>)), w\<lparr>sql_faults := fs\<rparr>)"
  by (rule sql_cases [of "\<lambda>w. (q w, w)" w]) (auto simp: select_def)

text \<open>An invariant that each statement keeps is kept by the composition.\<close>

definition preserves :: "(world \<Rightarrow> bool) \<Rightarrow> 'a io \<Rightarrow> bool" where
  "preserves P m \<longleftrightarrow> (\<forall>w. P w \<longrightarrow> P (snd (m w)))"

lemma preserves_return [intro]: "preserves P (return a)"
  and preserves_throw [intro]: "preserves P (throw e)"
  and preserves_panic [intro]: "preserves P panic"
  by (simp_all add: preserves_def return_def throw_def panic_def)

lemma preserves_and_then [intro]:
  assumes "preserves P m" "\<And>a. preserves P (f a)"
  shows "preserves P (and_then m f)"
  using assms by (fastforce simp: preserves_def and_then_def split: prod.splits res.splits)

lemma preserves_sql:
  assumes "\<And>w fs. P w \<Longrightarrow> P (w\<lparr>sql_faults := fs\<rparr>)"
    and "\<And>w. P w \<Longrightarrow> P (snd (stmt w))"
  shows "preserves P (sql stmt)"
  unfolding preserves_def
proof (intro allI impI)
  fix w
  assume P: "P w"
  show "P (snd (sql stmt w))"
  proof (cases rule: sql_cases [of stmt w])
    case (fault e fs)
    with assms(1) [OF P] show ?thesis by simp
  next
    case (run a w' fs)
    with assms(2) [OF assms(1) [OF P, of fs]] show ?thesis by simp
  qed
qed

lemma preserves_select:
  assumes "\<And>w fs. P w \<Longrightarrow> P (w\<lparr>sql_faults := fs\<rparr>)"
  shows "preserves P (select q)"
  unfolding select_def by (rule preserves_sql) (use assms in auto)

lemma preservesD: "preserves P m \<Longrightarrow> P w \<Longrightarrow> m w = (r, w') \<Longrightarrow> P w'"
  unfolding preserves_def by (metis snd_conv)

text \<open>A computation that only reads consumes fault entries and changes nothing else.\<close>

definition reads_only :: "'a io \<Rightarrow> bool" where
  "reads_only m \<longleftrightarrow> (\<forall>w. \<exists>fs. snd (m w) = w\<lparr>sql_faults := fs\<rparr>)"

lemma faults_self: "\<exists>fs. w = w\<lparr>sql_faults := fs\<rparr>"
  by (rule exI [of _ "sql_faults w"]) simp

lemma reads_only_return [intro]: "reads_only (return a)"
  and reads_only_throw [intro]: "reads_only (throw e)"
  by (simp_all add: reads_only_def return_def throw_def faults_self)

lemma reads_only_expect [intro]: "reads_only (expect x)"
  and reads_only_from_res [intro]: "reads_only (from_res r)"
  by (auto simp: expect_def from_res_def reads_only_def panic_def return_def faults_self split: option.splits)

lemma reads_only_select [intro]: "reads_only (select q)"
  unfolding reads_only_def
proof
  fix w
  show "\<exists>fs. snd (select q w) = w\<lparr>sql_faults := fs\<rparr>"
    by (cases rule: select_cases [of q w]) auto
qed

lemma reads_only_and_then [intro]:
  assumes "reads_only m" "\<And>a. reads_only (f a)"
  shows "reads_only (and_then m f)"
  unfolding reads_only_def
proof
  fix w
  obtain r w1 where m: "m w = (r, w1)" by (cases "m w") auto
  with assms(1) obtain fs where w1: "w1 = w\<lparr>sql_faults := fs\<rparr>"
    unfolding reads_only_def by (metis snd_conv)
  show "\<exists>fs. snd (and_then m f w) = w\<lparr>sql_faults := fs\<rparr>"
  proof (cases r)
    case (Ok a)
    obtain fs' where "snd (f a w1) = w1\<lparr>sql_faults := fs'\<rparr>"
      using assms(2) [of a] unfolding reads_only_def by blast
    with m w1 Ok show ?thesis by (auto simp: and_then_def)
  qed (use m w1 in \<open>auto simp: and_then_def\<close>)
qed

lemma reads_onlyD: "reads_only m \<Longrightarrow> m w = (r, w') \<Longrightarrow> \<exists>fs. w' = w\<lparr>sql_faults := fs\<rparr>"
  unfolding reads_only_def by (metis snd_conv)

lemma reads_only_preserves:
  assumes "reads_only m" "\<And>w fs. P w \<Longrightarrow> P (w\<lparr>sql_faults := fs\<rparr>)"
  shows "preserves P m"
  using assms unfolding reads_only_def preserves_def by metis

lemma and_then_Ok:
  assumes "and_then m f w = (Ok b, w')"
  obtains a w1 where "m w = (Ok a, w1)" "f a w1 = (Ok b, w')"
  using assms by (auto simp: and_then_def split: prod.splits res.splits)

end
