(* ===== verification/Externals.thy ===== *)
theory Externals
  imports Calendar
begin

text \<open>
  The packages the crate calls and does not contain, as one record of functions: chrono's
  calendar, its two date printers and its two readers, the text form of a \<^verbatim>\<open>Uuid\<close>, HMAC-SHA256 and the ammonia
  sanitizer. \<open>text_ok\<close> and \<open>mac_ok\<close> are the documented facts some theorems need: a printed \<^verbatim>\<open>Uuid\<close>
  parses back and holds no dot, and a MAC has 32 bytes. \<open>demo_externals\<close> is a concrete record
  for the witnesses (hyphenated hexadecimal uuids; its MAC is a 32-byte checksum, its
  sanitizer drops angle brackets).
\<close>

record externals =
  cal :: calendar
  uuid_show :: "uuid \<Rightarrow> string"
  uuid_parse_str :: "string \<Rightarrow> uuid option"
  hmac_sha256 :: "byte list \<Rightarrow> byte list \<Rightarrow> byte list"
  ammonia_clean :: "string \<Rightarrow> string"
  show_date :: "date \<Rightarrow> string"
  to_rfc3339 :: "datetime \<Rightarrow> string"
  parse_date :: "string \<Rightarrow> date option"
  parse_datetime :: "string \<Rightarrow> datetime option"

definition text_ok :: "externals \<Rightarrow> bool" where
  "text_ok X \<longleftrightarrow>
     (\<forall>u. uuid_parse_str X (uuid_show X u) = Some u) \<and> (\<forall>u. CHR ''.'' \<notin> set (uuid_show X u))"

definition mac_ok :: "externals \<Rightarrow> bool" where
  "mac_ok X \<longleftrightarrow> (\<forall>k m. length (hmac_sha256 X k m) = 32)"

definition string_bytes :: "string \<Rightarrow> byte list" where
  "string_bytes s = map of_char s"

section \<open>Reading JSON values\<close>

text \<open>\<^verbatim>\<open>serde_json::from_value\<close> at the types the sources read; \<open>None\<close> is a refusal.\<close>

definition read_string :: "json \<Rightarrow> string option" where
  "read_string v = (case v of JStr s \<Rightarrow> Some s | _ \<Rightarrow> None)"

definition read_uuid :: "externals \<Rightarrow> json \<Rightarrow> uuid option" where
  "read_uuid X v = (case v of JStr s \<Rightarrow> uuid_parse_str X s | _ \<Rightarrow> None)"

definition read_date :: "externals \<Rightarrow> json \<Rightarrow> date option" where
  "read_date X v = (case v of JStr s \<Rightarrow> parse_date X s | _ \<Rightarrow> None)"

definition read_datetime :: "externals \<Rightarrow> json \<Rightarrow> datetime option" where
  "read_datetime X v = (case v of JStr s \<Rightarrow> parse_datetime X s | _ \<Rightarrow> None)"

definition read_i32 :: "json \<Rightarrow> int option" where
  "read_i32 v = (case v of JNum n \<Rightarrow> if - (2 ^ 31) \<le> n \<and> n < 2 ^ 31 then Some n else None | _ \<Rightarrow> None)"

text \<open>A unit variant is its name, or an object with that one member and \<^verbatim>\<open>null\<close>.\<close>

definition read_variant :: "(string \<Rightarrow> 'a option) \<Rightarrow> json \<Rightarrow> 'a option" where
  "read_variant f v = (case v of JStr s \<Rightarrow> f s | JObj [(k, JNull)] \<Rightarrow> f k | _ \<Rightarrow> None)"

definition read_option :: "(json \<Rightarrow> 'a option) \<Rightarrow> json \<Rightarrow> 'a option option" where
  "read_option f v = (case v of JNull \<Rightarrow> Some None | _ \<Rightarrow> map_option Some (f v))"

section \<open>A concrete record\<close>

text \<open>\<open>n\<close> hexadecimal digits of a number, most significant first, and back.\<close>

fun hex_digits :: "nat \<Rightarrow> nat \<Rightarrow> string" where
  "hex_digits 0 x = []"
| "hex_digits (Suc n) x = hex_digits n (x div 16) @ [hex_char (x mod 16)]"

fun read_hex :: "nat \<Rightarrow> string \<Rightarrow> nat option" where
  "read_hex acc [] = Some acc"
| "read_hex acc (c # cs) =
     (case hex_digit c of None \<Rightarrow> None | Some d \<Rightarrow> read_hex (acc * 16 + d) cs)"

lemma length_hex_digits [simp]: "length (hex_digits n x) = n"
  by (induction n x rule: hex_digits.induct) auto

lemma read_hex_append:
  "read_hex a (xs @ ys) = (case read_hex a xs of None \<Rightarrow> None | Some b \<Rightarrow> read_hex b ys)"
  by (induction a xs rule: read_hex.induct) (auto split: option.splits)

lemma read_hex_digits: "x < 16 ^ n \<Longrightarrow> read_hex a (hex_digits n x) = Some (a * 16 ^ n + x)"
proof (induction n x rule: hex_digits.induct)
  case (2 n x)
  then have "read_hex a (hex_digits n (x div 16)) = Some (a * 16 ^ n + x div 16)" by simp
  then show ?case by (simp add: read_hex_append algebra_simps)
qed simp

lemma hex_digits_chars: "c \<in> set (hex_digits n x) \<Longrightarrow> is_ascii_hexdigit c"
  by (induction n x rule: hex_digits.induct) (auto simp: is_ascii_hexdigit_def)

definition demo_uuid_show :: "uuid \<Rightarrow> string" where
  "demo_uuid_show u =
     (let s = hex_digits 32 (unat u) in
      take 8 s @ ''-'' @ take 4 (drop 8 s) @ ''-'' @ take 4 (drop 12 s) @ ''-'' @
      take 4 (drop 16 s) @ ''-'' @ drop 20 s)"

definition demo_uuid_parse :: "string \<Rightarrow> uuid option" where
  "demo_uuid_parse s =
     (let h = filter (\<lambda>c. c \<noteq> CHR ''-'') s in
      if length s = 36 \<and> length h = 32 then map_option word_of_nat (read_hex 0 h) else None)"

lemma demo_uuid_digits:
  "filter (\<lambda>c. c \<noteq> CHR ''-'') (demo_uuid_show u) = hex_digits 32 (unat u)"
proof -
  let ?s = "hex_digits 32 (unat u)"
  have h: "\<And>c. c \<in> set ?s \<Longrightarrow> c \<noteq> CHR ''-''"
    by (drule hex_digits_chars) (auto simp: is_ascii_hexdigit_def hex_digit_def)
  have id: "\<And>xs. set xs \<subseteq> set ?s \<Longrightarrow> filter (\<lambda>c. c \<noteq> CHR ''-'') xs = xs"
    using h by (auto simp: filter_id_conv)
  have parts: "take 8 ?s @ take 4 (drop 8 ?s) @ take 4 (drop 12 ?s) @ take 4 (drop 16 ?s) @ drop 20 ?s = ?s"
  proof -
    have "take 4 (drop 8 ?s) @ drop 12 ?s = drop 8 ?s" "take 4 (drop 12 ?s) @ drop 16 ?s = drop 12 ?s"
      and "take 4 (drop 16 ?s) @ drop 20 ?s = drop 16 ?s"
      using append_take_drop_id [of 4 "drop 8 ?s"] append_take_drop_id [of 4 "drop 12 ?s"]
        append_take_drop_id [of 4 "drop 16 ?s"] by simp_all
    then show ?thesis by (metis append_take_drop_id)
  qed
  have sub: "set (take n (drop m ?s)) \<subseteq> set ?s" "set (drop m ?s) \<subseteq> set ?s" "set (take n ?s) \<subseteq> set ?s" for n m
    by (meson order_trans set_drop_subset set_take_subset)+
  show ?thesis
    using parts by (simp add: demo_uuid_show_def Let_def id [OF sub(1)] id [OF sub(2)] id [OF sub(3)])
qed

lemma demo_uuid_roundtrip: "demo_uuid_parse (demo_uuid_show u) = Some u"
proof -
  have "unat u < 16 ^ 32" using unsigned_less [of u] by simp
  then have "read_hex 0 (hex_digits 32 (unat u)) = Some (unat u)"
    using read_hex_digits [of "unat u" 32 0] by simp
  moreover have "length (demo_uuid_show u) = 36" by (simp add: demo_uuid_show_def Let_def)
  ultimately show ?thesis
    unfolding demo_uuid_parse_def Let_def demo_uuid_digits by simp
qed

lemma demo_uuid_no_dot: "CHR ''.'' \<notin> set (demo_uuid_show u)"
proof
  assume "CHR ''.'' \<in> set (demo_uuid_show u)"
  then have "CHR ''.'' \<in> set (filter (\<lambda>c. c \<noteq> CHR ''-'') (demo_uuid_show u))" by simp
  then show False using hex_digits_chars dot_not_hexdigit unfolding demo_uuid_digits by blast
qed

definition demo_mac :: "byte list \<Rightarrow> byte list \<Rightarrow> byte list" where
  "demo_mac k m = map (\<lambda>i. word_of_nat i + sum_list k + sum_list m) [0..<32]"

definition demo_externals :: externals where
  "demo_externals =
     \<lparr> cal = gregorian, uuid_show = demo_uuid_show, uuid_parse_str = demo_uuid_parse,
       hmac_sha256 = demo_mac, ammonia_clean = filter (\<lambda>c. c \<noteq> CHR ''<'' \<and> c \<noteq> CHR ''>''),
       show_date = show_int, to_rfc3339 = show_int, parse_date = parse_i64, parse_datetime = parse_i64 \<rparr>"

lemma demo_text_ok: "text_ok demo_externals"
  by (simp add: text_ok_def demo_externals_def demo_uuid_roundtrip demo_uuid_no_dot)

lemma demo_mac_ok: "mac_ok demo_externals"
  by (simp add: mac_ok_def demo_externals_def demo_mac_def)

lemma demo_calendar: "chrono_calendar (cal demo_externals)"
  by (simp add: demo_externals_def greg.chrono_calendar_axioms)

end
