(* ===== verification/Write_Service.thy ===== *)
theory Write_Service
  imports World
begin

text \<open>
  The digest-row verbs (\<^verbatim>\<open>DigestWriteService\<close> of \<^verbatim>\<open>application/service/digest_write_service.rs\<close>):
  create, cadence change, KPI enablement, the two subscribe verbs, the state switch, the digest
  read and the metadata stamp. \<^verbatim>\<open>org_scope::execute_scoped\<close> only selects the connection, so a
  scoped statement is a statement. The composed registry enters through the one question
  the verbs ask of it, whether a key is registered.
\<close>

section \<open>Reading a digest\<close>

record digest_row =
  dr_id :: uuid
  dr_name :: string
  dr_periodicity :: periodicity
  dr_next_run_date :: "date option"
  dr_state :: string

definition is_activated :: "digest_row \<Rightarrow> bool" where
  "is_activated d \<longleftrightarrow> dr_state d = ''activated''"

text \<open>A row as the engines read it: the enums cross as text, an unknown cadence reads as daily.\<close>

definition read_row :: "digest_rec \<Rightarrow> digest_row" where
  "read_row r =
     \<lparr> dr_id = dg_id r, dr_name = dg_name r,
       dr_periodicity = (case parse_periodicity (periodicity_as_str (dg_periodicity r)) of
                        None \<Rightarrow> Daily | Some p \<Rightarrow> p),
       dr_next_run_date = dg_next_run_date r,
       dr_state = show_digest_state (dg_state r) \<rparr>"

lemma read_row_simps [simp]:
  "dr_id (read_row r) = dg_id r" "dr_name (read_row r) = dg_name r"
  "dr_periodicity (read_row r) = dg_periodicity r" "dr_next_run_date (read_row r) = dg_next_run_date r"
  by (simp_all add: read_row_def)

lemma is_activated_read_row: "is_activated (read_row r) \<longleftrightarrow> dg_state r = Activated"
  by (cases "dg_state r") (simp_all add: is_activated_def read_row_def)

definition find_row :: "uuid \<Rightarrow> digest_rec list \<Rightarrow> digest_row option" where
  "find_row i rows = map_option read_row (find (\<lambda>r. dg_id r = i) rows)"

definition get_digest :: "uuid \<Rightarrow> digest_row option io" where
  "get_digest digest_id = select (\<lambda>w. find_row digest_id (digests w))"

section \<open>The verbs\<close>

text \<open>\<^verbatim>\<open>UPDATE digest.digest_digests SET .. WHERE id = $1\<close>\<close>

definition update_digest :: "uuid \<Rightarrow> (digest_rec \<Rightarrow> digest_rec) \<Rightarrow> world \<Rightarrow> nat \<times> world" where
  "update_digest i f w =
     (case update_where (\<lambda>r. dg_id r = i) f (digests w) of (n, rows) \<Rightarrow> (n, w\<lparr>digests := rows\<rparr>))"

definition create_digest ::
  "calendar \<Rightarrow> uuid \<Rightarrow> string \<Rightarrow> periodicity \<Rightarrow> date \<Rightarrow> uuid io" where
  "create_digest cal new_id nm p today =
     (case advance cal p today of
        None \<Rightarrow> panic
      | Some nxt \<Rightarrow>
          and_then (sql (\<lambda>w. ((), w\<lparr>digests := digests w @
              [\<lparr> dg_id = new_id, dg_name = nm, dg_periodicity = p, dg_next_run_date = Some nxt,
                 dg_state = Activated, dg_metadata = Map.empty \<rparr>]\<rparr>)))
            (\<lambda>_. return new_id))"

definition set_periodicity :: "calendar \<Rightarrow> uuid \<Rightarrow> string \<Rightarrow> date \<Rightarrow> unit io" where
  "set_periodicity cal digest_id value today =
     (case parse_periodicity value of
        None \<Rightarrow> throw (Invalid (''periodicity '' @ quote @ value @ quote @ '' refused '' @ em_dash @
          '' the whitelist is daily|weekly|monthly|quarterly (error code: periodicity_value_refused)''))
      | Some p \<Rightarrow>
          (case advance cal p today of
             None \<Rightarrow> panic
           | Some nxt \<Rightarrow>
               and_then (sql (update_digest digest_id
                   (\<lambda>r. r\<lparr>dg_periodicity := p, dg_next_run_date := Some nxt\<rparr>)))
                 (\<lambda>n. if n = 0 then throw (NotFound digest_id) else return ())))"

definition enable_kpi :: "(string \<Rightarrow> bool) \<Rightarrow> uuid \<Rightarrow> string \<Rightarrow> unit io" where
  "enable_kpi registered digest_id key =
     (if \<not> registered key
      then throw (Invalid (''KPI '' @ quote @ key @ quote @
        '' is not in the composed registry (error code: kpi_not_registered)''))
      else sql (\<lambda>w. ((), w\<lparr>digest_kpis := snd (insert_or_ignore kpi_key
             \<lparr> kp_digest_id = digest_id, kp_key = key, kp_metadata = Map.empty \<rparr> (digest_kpis w))\<rparr>)))"

definition disable_kpi :: "uuid \<Rightarrow> string \<Rightarrow> unit io" where
  "disable_kpi digest_id key =
     sql (\<lambda>w. ((), w\<lparr>digest_kpis :=
       filter (\<lambda>r. \<not> (kp_digest_id r = digest_id \<and> kp_key r = key)) (digest_kpis w)\<rparr>))"

text \<open>
  \<^verbatim>\<open>INSERT .. ON CONFLICT (digest_id, user_id) DO UPDATE\<close>: an existing row flips to subscribed,
  loses its tombstone and merges the new metadata over its own.
\<close>

definition resubscribe_row :: "metadata \<Rightarrow> subscription_rec \<Rightarrow> subscription_rec" where
  "resubscribe_row meta r =
     r\<lparr> su_state := Subscribed, su_unsubscribed_at := None,
        su_metadata := (su_metadata r)(''deleted_at'' := None) ++ meta \<rparr>"

definition subscribe_user :: "uuid \<Rightarrow> uuid \<Rightarrow> metadata option \<Rightarrow> bool io" where
  "subscribe_user digest_id user_id extra =
     (let meta = (case extra of None \<Rightarrow> Map.empty | Some m \<Rightarrow> m) in
      sql (\<lambda>w.
        if (digest_id, user_id) \<in> sub_key ` set (subscriptions w)
        then (False, w\<lparr>subscriptions := snd (update_where (\<lambda>r. sub_key r = (digest_id, user_id))
               (resubscribe_row meta) (subscriptions w))\<rparr>)
        else (True, w\<lparr>subscriptions := subscriptions w @
               [\<lparr> su_digest_id = digest_id, su_user_id = user_id, su_state = Subscribed,
                  su_unsubscribed_at = None, su_metadata = meta \<rparr>]\<rparr>)))"

definition auto_subscribe_user :: "uuid \<Rightarrow> uuid \<Rightarrow> metadata \<Rightarrow> bool io" where
  "auto_subscribe_user digest_id user_id meta =
     and_then
       (sql (\<lambda>w. case insert_or_ignore sub_key
            \<lparr> su_digest_id = digest_id, su_user_id = user_id, su_state = Subscribed,
              su_unsubscribed_at = None, su_metadata = meta \<rparr> (subscriptions w) of
          (n, rows) \<Rightarrow> (n, w\<lparr>subscriptions := rows\<rparr>)))
       (\<lambda>inserted. return (inserted = 1))"

definition set_state :: "uuid \<Rightarrow> bool \<Rightarrow> unit io" where
  "set_state digest_id activated =
     and_then (sql (update_digest digest_id
         (\<lambda>r. r\<lparr>dg_state := (if activated then Activated else Deactivated)\<rparr>)))
       (\<lambda>n. if n = 0 then throw (NotFound digest_id) else return ())"

text \<open>\<^verbatim>\<open>SET metadata = metadata || patch WHERE digest_id = $1 AND user_id = $2\<close>\<close>

definition stamp_subscription_metadata :: "uuid \<Rightarrow> uuid \<Rightarrow> metadata \<Rightarrow> unit io" where
  "stamp_subscription_metadata digest_id user_id patch =
     sql (\<lambda>w. ((), w\<lparr>subscriptions := snd (update_where
         (\<lambda>r. su_digest_id r = digest_id \<and> su_user_id r = user_id)
         (\<lambda>r. r\<lparr>su_metadata := su_metadata r ++ patch\<rparr>) (subscriptions w))\<rparr>))"

definition utc_today :: "datetime \<Rightarrow> date" where
  "utc_today now = date_naive now"

section \<open>The table invariant\<close>

lemma update_digest_keys [simp]:
  "(\<And>r. dg_id (f r) = dg_id r) \<Longrightarrow>
     map dg_id (digests (snd (update_digest i f w))) = map dg_id (digests w)"
  using dgt.update_keys [of f "\<lambda>r. dg_id r = i" "digests w"]
  by (auto simp: update_digest_def split: prod.splits)

lemma update_digest_frame [simp]:
  "subscriptions (snd (update_digest i f w)) = subscriptions w"
  "digest_kpis (snd (update_digest i f w)) = digest_kpis w"
  "tips (snd (update_digest i f w)) = tips w"
  "tip_users (snd (update_digest i f w)) = tip_users w"
  "mails (snd (update_digest i f w)) = mails w"
  "audit (snd (update_digest i f w)) = audit w"
  "row_locks (snd (update_digest i f w)) = row_locks w"
  "sql_faults (snd (update_digest i f w)) = sql_faults w"
  by (simp_all add: update_digest_def split: prod.splits)

lemma world_ok_update_digest:
  "(\<And>r. dg_id (f r) = dg_id r) \<Longrightarrow> world_ok w \<Longrightarrow> world_ok (snd (update_digest i f w))"
  by (simp add: world_ok_def unique_key_def)

lemma preserves_update_or_not_found:
  assumes "\<And>r. dg_id (f r) = dg_id r"
  shows "preserves world_ok
    (and_then (sql (update_digest i f)) (\<lambda>n. if n = 0 then throw e else return ()))"
  by (intro preserves_and_then preserves_sql) (auto intro: world_ok_update_digest assms)

lemma sub_key_simps [simp]:
  "sub_key (r\<lparr>su_state := s\<rparr>) = sub_key r" "sub_key (r\<lparr>su_unsubscribed_at := u\<rparr>) = sub_key r"
  "sub_key (r\<lparr>su_metadata := m\<rparr>) = sub_key r" "sub_key (resubscribe_row m r) = sub_key r"
  by (simp_all add: sub_key_def resubscribe_row_def)

lemma world_ok_subscriptions:
  "world_ok w \<Longrightarrow> unique_key sub_key rows \<Longrightarrow> world_ok (w\<lparr>subscriptions := rows\<rparr>)"
  by (simp add: world_ok_def)

lemma create_digest_ok:
  assumes "world_ok w" "new_id \<notin> dg_id ` set (digests w)"
  shows "world_ok (snd (create_digest cal new_id nm p today w))"
proof (cases "advance cal p today")
  case None
  with assms show ?thesis by (simp add: create_digest_def panic_def)
next
  case (Some nxt)
  with assms show ?thesis
    by (auto simp: create_digest_def and_then_def return_def world_ok_def unique_key_def sql_def
        split: list.splits option.splits)
qed

lemma set_periodicity_ok: "preserves world_ok (set_periodicity cal i v today)"
  unfolding set_periodicity_def
  by (auto split: option.splits intro!: preserves_update_or_not_found)

lemma enable_kpi_ok: "preserves world_ok (enable_kpi reg i k)"
  unfolding enable_kpi_def
  by (auto intro!: preserves_sql simp: world_ok_def kpt.insert_unique)

lemma disable_kpi_ok: "preserves world_ok (disable_kpi i k)"
  unfolding disable_kpi_def by (rule preserves_sql) (auto simp: world_ok_def kpt.filter_unique)

lemma subscribe_user_ok: "preserves world_ok (subscribe_user i u m)"
  unfolding subscribe_user_def Let_def
proof (rule preserves_sql, simp)
  fix w
  assume ok: "world_ok w"
  then have "unique_key sub_key (subscriptions w)" by (simp add: world_ok_def)
  with ok show "world_ok (snd (if (i, u) \<in> sub_key ` set (subscriptions w)
      then (False, w\<lparr>subscriptions := snd (update_where (\<lambda>r. sub_key r = (i, u))
             (resubscribe_row (case m of None \<Rightarrow> Map.empty | Some m \<Rightarrow> m)) (subscriptions w))\<rparr>)
      else (True, w\<lparr>subscriptions := subscriptions w @
             [\<lparr> su_digest_id = i, su_user_id = u, su_state = Subscribed,
                su_unsubscribed_at = None,
                su_metadata = (case m of None \<Rightarrow> Map.empty | Some m \<Rightarrow> m) \<rparr>]\<rparr>)))"
    by (auto intro!: world_ok_subscriptions sut.update_unique)
      (auto simp: unique_key_def sub_key_def)
qed

lemma auto_subscribe_user_ok: "preserves world_ok (auto_subscribe_user i u m)"
  unfolding auto_subscribe_user_def
  by (intro preserves_and_then preserves_sql preserves_return)
    (auto intro!: world_ok_subscriptions split: prod.splits
      dest: sut.insert_unique simp: world_ok_def, metis snd_conv sut.insert_unique)

lemma set_state_ok: "preserves world_ok (set_state i b)"
  unfolding set_state_def by (rule preserves_update_or_not_found) simp

lemma stamp_ok: "preserves world_ok (stamp_subscription_metadata i u p)"
  unfolding stamp_subscription_metadata_def
  by (rule preserves_sql) (auto intro!: world_ok_subscriptions sut.update_unique simp: world_ok_def)

section \<open>What the verbs do\<close>

lemma update_digest_count:
  "fst (update_digest i f w) = 0 \<longleftrightarrow> i \<notin> dg_id ` set (digests w)"
  by (auto simp: update_digest_def update_where_def filter_empty_conv)

lemma update_digest_find:
  assumes "\<And>r. dg_id (f r) = dg_id r"
  shows "find (\<lambda>r. dg_id r = j) (digests (snd (update_digest i f w))) =
    map_option (if j = i then f else (\<lambda>r. r)) (find (\<lambda>r. dg_id r = j) (digests w))"
proof -
  have "find (\<lambda>r. dg_id r = j) (map (\<lambda>r. if dg_id r = i then f r else r) rows) =
      map_option (if j = i then f else (\<lambda>r. r)) (find (\<lambda>r. dg_id r = j) rows)" for rows
    by (induction rows) (auto simp: assms)
  then show ?thesis by (simp add: update_digest_def update_where_def)
qed

lemma find_row_None_iff: "find_row i rows = None \<longleftrightarrow> i \<notin> dg_id ` set rows"
  by (auto simp: find_row_def find_None_iff)

text \<open>A verb that updates one digest, statement by statement.\<close>

lemma update_or_not_found:
  assumes "sql_faults w = []"
  shows "and_then (sql (update_digest i f)) (\<lambda>n. if n = 0 then throw (NotFound i) else return ()) w =
    (if find_row i (digests w) = None then (Err (NotFound i), snd (update_digest i f w))
     else (Ok (), snd (update_digest i f w)))"
  using update_digest_count [of i f w] assms
  by (auto simp: and_then_def sql_no_faults throw_def return_def find_row_None_iff split: prod.splits)

text \<open>Where no row matches, the update changes nothing.\<close>

lemma update_digest_absent:
  "i \<notin> dg_id ` set (digests w) \<Longrightarrow> snd (update_digest i f w) = w"
  by (auto simp: update_digest_def update_where_def intro!: map_idI world.equality)

definition find_sub :: "uuid \<Rightarrow> uuid \<Rightarrow> world \<Rightarrow> subscription_rec option" where
  "find_sub d u w = find (\<lambda>r. sub_key r = (d, u)) (subscriptions w)"

lemma find_sub_None_iff: "find_sub d u w = None \<longleftrightarrow> (d, u) \<notin> sub_key ` set (subscriptions w)"
  by (force simp: find_sub_def find_None_iff)

lemma find_map_key:
  assumes "\<And>r. key (f r) = key r"
  shows "find (\<lambda>r. key r = k) (map (\<lambda>r. if key r = j then f r else r) rows) =
    map_option (if k = j then f else (\<lambda>r. r)) (find (\<lambda>r. key r = k) rows)"
  by (induction rows) (auto simp: assms)

lemma find_append_new:
  "find p (rows @ [r]) = (case find p rows of None \<Rightarrow> (if p r then Some r else None) | Some x \<Rightarrow> Some x)"
  by (induction rows) auto

lemma subscribe_user_result:
  assumes "sql_faults w = []"
  shows "fst (subscribe_user d u m w) = Ok (find_sub d u w = None)"
  using assms by (auto simp: subscribe_user_def sql_no_faults find_sub_None_iff Let_def)

lemma subscribe_user_row:
  assumes "sql_faults w = []"
  shows "find_sub d' u' (snd (subscribe_user d u m w)) =
    (if (d', u') \<noteq> (d, u) then find_sub d' u' w
     else Some (case find_sub d u w of
       None \<Rightarrow> \<lparr> su_digest_id = d, su_user_id = u, su_state = Subscribed, su_unsubscribed_at = None,
                 su_metadata = (case m of None \<Rightarrow> Map.empty | Some x \<Rightarrow> x) \<rparr>
     | Some r \<Rightarrow> resubscribe_row (case m of None \<Rightarrow> Map.empty | Some x \<Rightarrow> x) r))"
proof (cases "(d, u) \<in> sub_key ` set (subscriptions w)")
  case True
  then have f: "find_sub d u w \<noteq> None" by (simp add: find_sub_None_iff)
  have "snd (subscribe_user d u m w) = w\<lparr>subscriptions := map (\<lambda>r. if sub_key r = (d, u)
      then resubscribe_row (case m of None \<Rightarrow> Map.empty | Some x \<Rightarrow> x) r else r) (subscriptions w)\<rparr>"
    using True assms by (simp add: subscribe_user_def sql_no_faults Let_def update_where_def)
  then have "find_sub d' u' (snd (subscribe_user d u m w)) =
      map_option (if (d', u') = (d, u)
        then resubscribe_row (case m of None \<Rightarrow> Map.empty | Some x \<Rightarrow> x) else (\<lambda>r. r)) (find_sub d' u' w)"
    using find_map_key [of sub_key "resubscribe_row (case m of None \<Rightarrow> Map.empty | Some x \<Rightarrow> x)"
        "(d', u')" "(d, u)" "subscriptions w"]
    by (simp add: find_sub_def)
  with f show ?thesis by (auto simp: option.map_ident split: option.splits)
next
  case False
  then have f: "find_sub d u w = None" by (simp add: find_sub_None_iff)
  with False assms show ?thesis
    by (auto simp: subscribe_user_def sql_no_faults Let_def find_sub_def find_append_new sub_key_def
        split: option.splits)
qed

lemma auto_subscribe_user_eq:
  assumes "sql_faults w = []"
  shows "auto_subscribe_user d u m w =
    (if find_sub d u w = None
     then (Ok True, w\<lparr>subscriptions := subscriptions w @
            [\<lparr> su_digest_id = d, su_user_id = u, su_state = Subscribed,
               su_unsubscribed_at = None, su_metadata = m \<rparr>]\<rparr>)
     else (Ok False, w))"
  using assms
  by (auto simp: auto_subscribe_user_def and_then_def return_def sql_no_faults find_sub_None_iff
      insert_or_ignore_def sub_key_def)

end
