(* ===== verification/Unsubscribe.thy ===== *)
theory Unsubscribe
  imports World Externals Write_Service
begin

text \<open>
  The RFC 8058 one-click unsubscribe engine (\<^verbatim>\<open>application/service/unsubscribe_service.rs\<close>): tokens and
  their text, the MAC check, the verify-failure book, and the idempotent apply. The failure book
  is the map under the service's mutex; \<^verbatim>\<open>Instant::now()\<close> is an argument in nanoseconds.
\<close>

definition token_ttl_days :: int where
  "token_ttl_days = 180"

definition token_domain :: string where
  "token_domain = ''digest-unsubscribe''"

record unsubscribe_token =
  tk_digest_id :: uuid
  tk_user_id :: uuid
  tk_exp :: int
  tk_mac :: string

datatype token_verdict = Valid | Expired | RefusedToken

datatype unsubscribe_outcome =
    UnsubscribedNow
  | AlreadyUnsubscribed
  | ExpiredLink
  | RefusedLink

section \<open>The failure book\<close>

definition verify_max_failures :: int where
  "verify_max_failures = 5"

definition verify_lock_seconds :: int where
  "verify_lock_seconds = 60"

type_synonym failure_book = "string \<rightharpoonup> int \<times> int"

definition book_new :: failure_book where
  "book_new = Map.empty"

definition book_key :: "externals \<Rightarrow> uuid \<Rightarrow> uuid \<Rightarrow> string" where
  "book_key X d u = ''digest-unsub|'' @ uuid_show X d @ ''|'' @ uuid_show X u"

definition book_window :: int where
  "book_window = verify_lock_seconds * nanos"

definition book_locked :: "externals \<Rightarrow> uuid \<Rightarrow> uuid \<Rightarrow> int \<Rightarrow> failure_book \<Rightarrow> bool \<times> failure_book" where
  "book_locked X d u inst b =
     (let k = book_key X d u in
      case b k of
        Some (n, since) \<Rightarrow>
          if book_window \<le> inst - since then (False, b(k := None))
          else (verify_max_failures \<le> n, b)
      | None \<Rightarrow> (False, b))"

text \<open>The counter is an \<^verbatim>\<open>i32\<close>; \<^verbatim>\<open>+= 1\<close> wraps in a release build.\<close>

definition i32_succ :: "int \<Rightarrow> int" where
  "i32_succ n = (n + 1 + 2 ^ 31) mod 2 ^ 32 - 2 ^ 31"

definition book_register_failure ::
  "externals \<Rightarrow> uuid \<Rightarrow> uuid \<Rightarrow> int \<Rightarrow> failure_book \<Rightarrow> failure_book" where
  "book_register_failure X d u inst b =
     (let k = book_key X d u;
          (n, since) = (case b k of None \<Rightarrow> (0, inst) | Some e \<Rightarrow> e);
          n' = (if book_window \<le> inst - since then 0 else n)
      in b(k \<mapsto> (i32_succ n', inst)))"

definition book_reset :: "externals \<Rightarrow> uuid \<Rightarrow> uuid \<Rightarrow> failure_book \<Rightarrow> failure_book" where
  "book_reset X d u b = b(book_key X d u := None)"

section \<open>MACs\<close>

record unsubscribe_service = secret :: "byte list"

definition mac_message :: "externals \<Rightarrow> uuid \<Rightarrow> uuid \<Rightarrow> int \<Rightarrow> byte list" where
  "mac_message X d u expiry =
     string_bytes (token_domain @ ''|'' @ uuid_show X d @ ''|'' @ uuid_show X u @ ''|'' @ show_int expiry)"

definition compute_mac :: "externals \<Rightarrow> byte list \<Rightarrow> uuid \<Rightarrow> uuid \<Rightarrow> int \<Rightarrow> string" where
  "compute_mac X sec d u expiry = concat (map show_byte (hmac_sha256 X sec (mac_message X d u expiry)))"

definition hex_bytes :: "string \<Rightarrow> byte list option" where
  "hex_bytes s =
     (if length s \<noteq> 64 \<or> \<not> list_all is_ascii_hexdigit s then None else read_bytes s)"

definition verify_mac :: "externals \<Rightarrow> byte list \<Rightarrow> unsubscribe_token \<Rightarrow> bool" where
  "verify_mac X sec t =
     (case hex_bytes (tk_mac t) of
        None \<Rightarrow> False
      | Some bytes \<Rightarrow>
          hmac_sha256 X sec (mac_message X (tk_digest_id t) (tk_user_id t) (tk_exp t)) = bytes)"

section \<open>Tokens\<close>

definition with_secret :: "byte list \<Rightarrow> unsubscribe_service" where
  "with_secret sec = \<lparr> secret = sec \<rparr>"

text \<open>The variable's value, if set: an unset or blank secret is refused.\<close>

definition service_from_env :: "string option \<Rightarrow> digest_error + unsubscribe_service" where
  "service_from_env var =
     (case var of
        None \<Rightarrow> Inl SecretNotConfigured
      | Some s \<Rightarrow> if trim s = [] then Inl SecretNotConfigured else Inr (with_secret (string_bytes s)))"

definition signed_token :: "externals \<Rightarrow> unsubscribe_service \<Rightarrow> uuid \<Rightarrow> uuid \<Rightarrow> int \<Rightarrow> unsubscribe_token" where
  "signed_token X svc d u exp_ts =
     \<lparr> tk_digest_id = d, tk_user_id = u, tk_exp = exp_ts, tk_mac = compute_mac X (secret svc) d u exp_ts \<rparr>"

text \<open>Minting panics (\<open>None\<close>) when the expiry leaves the calendar.\<close>

definition mint ::
  "externals \<Rightarrow> unsubscribe_service \<Rightarrow> uuid \<Rightarrow> uuid \<Rightarrow> datetime \<Rightarrow> unsubscribe_token option" where
  "mint X svc d u now =
     map_option (\<lambda>expiry. signed_token X svc d u (timestamp expiry))
       (plus_time (cal X) now (token_ttl_days * day_nanos))"

definition token_text :: "externals \<Rightarrow> unsubscribe_token \<Rightarrow> string" where
  "token_text X t =
     uuid_show X (tk_digest_id t) @ ''.'' @ uuid_show X (tk_user_id t) @ ''.'' @
     show_int (tk_exp t) @ ''.'' @ tk_mac t"

definition mint_link_token ::
  "externals \<Rightarrow> unsubscribe_service \<Rightarrow> uuid \<Rightarrow> uuid \<Rightarrow> datetime \<Rightarrow> string option" where
  "mint_link_token X svc d u wall = map_option (token_text X) (mint X svc d u wall)"

definition parse_token :: "externals \<Rightarrow> string \<Rightarrow> unsubscribe_token option" where
  "parse_token X token =
     (case split_on (CHR ''.'') token of
        [a, b, c, mac] \<Rightarrow>
          (case (uuid_parse_str X a, uuid_parse_str X b, parse_i64 c) of
             (Some d, Some u, Some e) \<Rightarrow>
               if length mac \<noteq> 64 \<or> \<not> list_all is_ascii_hexdigit mac then None
               else Some \<lparr> tk_digest_id = d, tk_user_id = u, tk_exp = e, tk_mac = mac \<rparr>
           | _ \<Rightarrow> None)
      | _ \<Rightarrow> None)"

definition verify ::
  "externals \<Rightarrow> unsubscribe_service \<Rightarrow> unsubscribe_token \<Rightarrow> int \<Rightarrow> int \<Rightarrow> failure_book \<Rightarrow>
     token_verdict \<times> failure_book" where
  "verify X svc t now inst b =
     (if secret svc = [] then (RefusedToken, b)
      else if verify_mac X (secret svc) t then
        (if now \<le> tk_exp t then (Valid, book_reset X (tk_digest_id t) (tk_user_id t) b)
         else (Expired, b))
      else (RefusedToken, book_register_failure X (tk_digest_id t) (tk_user_id t) inst b))"

definition check_token ::
  "externals \<Rightarrow> unsubscribe_service \<Rightarrow> string \<Rightarrow> int \<Rightarrow> int \<Rightarrow> failure_book \<Rightarrow>
     token_verdict \<times> failure_book" where
  "check_token X svc s now inst b =
     (case parse_token X s of
        Some t \<Rightarrow> verify X svc t now inst b
      | None \<Rightarrow> (RefusedToken, book_register_failure X 0 0 inst b))"

section \<open>Applying\<close>

definition unsubscribable :: "uuid \<Rightarrow> uuid \<Rightarrow> subscription_rec \<Rightarrow> bool" where
  "unsubscribable d u r \<longleftrightarrow>
     su_digest_id r = d \<and> su_user_id r = u \<and> su_state r = Subscribed \<and> not_deleted (su_metadata r)"

definition apply_unsubscribe :: "datetime \<Rightarrow> uuid \<Rightarrow> uuid \<Rightarrow> bool io" where
  "apply_unsubscribe wall d u =
     and_then
       (sql (\<lambda>w. case update_where (unsubscribable d u)
            (\<lambda>r. r\<lparr>su_state := Unsubscribed, su_unsubscribed_at := Some wall\<rparr>) (subscriptions w) of
          (n, rows) \<Rightarrow> (n, w\<lparr>subscriptions := rows\<rparr>)))
       (\<lambda>n w. if n = 1 then (Ok True, write_audit (DigestUnsubscribedEvent d u) w) else (Ok False, w))"

definition resubscribe :: "uuid \<Rightarrow> uuid \<Rightarrow> bool io" where
  "resubscribe d u =
     and_then
       (sql (\<lambda>w. case update_where
            (\<lambda>r. su_digest_id r = d \<and> su_user_id r = u \<and> su_state r = Unsubscribed \<and>
                 not_deleted (su_metadata r))
            (\<lambda>r. r\<lparr>su_state := Subscribed, su_unsubscribed_at := None\<rparr>) (subscriptions w) of
          (n, rows) \<Rightarrow> (n, w\<lparr>subscriptions := rows\<rparr>)))
       (\<lambda>n. return (n = 1))"

definition unsubscribe_by_token ::
  "externals \<Rightarrow> unsubscribe_service \<Rightarrow> string \<Rightarrow> int \<Rightarrow> int \<Rightarrow> datetime \<Rightarrow> failure_book \<Rightarrow> world \<Rightarrow>
     unsubscribe_outcome res \<times> failure_book \<times> world" where
  "unsubscribe_by_token X svc s now inst wall b w =
     (case parse_token X s of
        None \<Rightarrow> (Ok RefusedLink, book_register_failure X 0 0 inst b, w)
      | Some t \<Rightarrow>
          (case verify X svc t now inst b of
             (Valid, b') \<Rightarrow>
               (case apply_unsubscribe wall (tk_digest_id t) (tk_user_id t) w of
                  (Ok True, w') \<Rightarrow> (Ok UnsubscribedNow, b', w')
                | (Ok False, w') \<Rightarrow> (Ok AlreadyUnsubscribed, b', w')
                | (Err e, w') \<Rightarrow> (Err e, b', w')
                | (Panic, w') \<Rightarrow> (Panic, b', w'))
           | (Expired, b') \<Rightarrow> (Ok ExpiredLink, b', w)
           | (RefusedToken, b') \<Rightarrow> (Ok RefusedLink, b', w)))"

section \<open>Lemmas on tokens\<close>

lemma compute_mac_hex:
  assumes "mac_ok X"
  shows "length (compute_mac X sec d u e) = 64" "list_all is_ascii_hexdigit (compute_mac X sec d u e)"
    "CHR ''.'' \<notin> set (compute_mac X sec d u e)"
proof -
  show "length (compute_mac X sec d u e) = 64"
    using assms by (simp add: compute_mac_def mac_ok_def length_show_bytes)
  show "list_all is_ascii_hexdigit (compute_mac X sec d u e)"
    unfolding compute_mac_def list_all_iff using show_bytes_hexdigits by blast
  show "CHR ''.'' \<notin> set (compute_mac X sec d u e)"
    unfolding compute_mac_def using show_bytes_hexdigits dot_not_hexdigit by blast
qed

lemma hex_bytes_compute_mac:
  "mac_ok X \<Longrightarrow> hex_bytes (compute_mac X sec d u e) = Some (hmac_sha256 X sec (mac_message X d u e))"
  using compute_mac_hex [of X sec d u e]
  by (simp add: hex_bytes_def) (simp add: compute_mac_def read_bytes_show_bytes)

text \<open>The last second of a link minted at an instant.\<close>

definition link_expiry :: "datetime \<Rightarrow> int" where
  "link_expiry minted = timestamp (minted + token_ttl_days * day_nanos)"

lemma mint_Some: "mint X svc d u minted = Some t \<Longrightarrow> t = signed_token X svc d u (link_expiry minted)"
  by (auto simp: mint_def link_expiry_def dest: plus_time_Some)

lemma mint_link_token_Some:
  "mint_link_token X svc d u minted = Some tok \<Longrightarrow>
     tok = token_text X (signed_token X svc d u (link_expiry minted))"
  by (auto simp: mint_link_token_def dest!: mint_Some)

lemma signed_token_simps [simp]:
  "tk_digest_id (signed_token X svc d u e) = d" "tk_user_id (signed_token X svc d u e) = u"
  "tk_exp (signed_token X svc d u e) = e" "tk_mac (signed_token X svc d u e) = compute_mac X (secret svc) d u e"
  by (simp_all add: signed_token_def)

lemma verify_mac_signed: "mac_ok X \<Longrightarrow> verify_mac X (secret svc) (signed_token X svc d u e)"
  by (simp add: verify_mac_def hex_bytes_compute_mac)

lemma parse_token_text:
  assumes "text_ok X" "- (2 ^ 63) \<le> tk_exp t" "tk_exp t < 2 ^ 63"
    and "length (tk_mac t) = 64" "list_all is_ascii_hexdigit (tk_mac t)"
  shows "parse_token X (token_text X t) = Some t"
proof -
  have "CHR ''.'' \<notin> set (tk_mac t)"
    using assms(5) dot_not_hexdigit by (auto simp: list_all_iff)
  moreover have "CHR ''.'' \<notin> set (uuid_show X d)" for d using assms(1) by (simp add: text_ok_def)
  ultimately have "split_on (CHR ''.'') (token_text X t) =
      [uuid_show X (tk_digest_id t), uuid_show X (tk_user_id t), show_int (tk_exp t), tk_mac t]"
    by (simp add: token_text_def split_on_sep split_on_no_sep show_int_no_dot)
  with assms show ?thesis
    by (simp add: parse_token_def text_ok_def parse_i64_show_int)
qed

lemma verify_verdict:
  "fst (verify X svc t now inst b) =
     (if secret svc = [] \<or> \<not> verify_mac X (secret svc) t then RefusedToken
      else if now \<le> tk_exp t then Valid else Expired)"
  by (simp add: verify_def)

lemma i32_succ_small: "0 \<le> n \<Longrightarrow> n < 2 ^ 31 - 1 \<Longrightarrow> i32_succ n = n + 1"
  by (simp add: i32_succ_def)

lemma register_failure_entry:
  "book_register_failure X d u inst b (book_key X d u) =
     Some (i32_succ (case b (book_key X d u) of
        None \<Rightarrow> 0 | Some (n, since) \<Rightarrow> if book_window \<le> inst - since then 0 else n), inst)"
  by (auto simp: book_register_failure_def Let_def book_window_def verify_lock_seconds_def nanos_def
      split: option.splits prod.splits)

lemma register_failure_other:
  "k \<noteq> book_key X d u \<Longrightarrow> book_register_failure X d u inst b k = b k"
  by (auto simp: book_register_failure_def Let_def split: prod.splits)

section \<open>Lemmas on applying\<close>

text \<open>The abstract view: the pairs that receive mail.\<close>

definition active_pairs :: "world \<Rightarrow> (uuid \<times> uuid) set" where
  "active_pairs w =
     sub_key ` {r \<in> set (subscriptions w). su_state r = Subscribed \<and> not_deleted (su_metadata r)}"

lemma active_pairs_cong: "subscriptions w' = subscriptions w \<Longrightarrow> active_pairs w' = active_pairs w"
  by (simp add: active_pairs_def)

lemma active_pairs_frame [simp]:
  "active_pairs (w\<lparr>sql_faults := fs\<rparr>) = active_pairs w"
  "active_pairs (w\<lparr>tip_users := ts\<rparr>) = active_pairs w"
  "active_pairs (w\<lparr>digests := ds\<rparr>) = active_pairs w"
  "active_pairs (write_audit ev w) = active_pairs w"
  by (rule active_pairs_cong, simp)+

lemma unsubscribable_key: "unsubscribable d u r \<Longrightarrow> sub_key r = (d, u)"
  by (simp add: unsubscribable_def sub_key_def)

lemma active_pairs_iff: "(d, u) \<in> active_pairs w \<longleftrightarrow> (\<exists>r \<in> set (subscriptions w). unsubscribable d u r)"
  by (force simp: active_pairs_def unsubscribable_def sub_key_def)

lemma count_unsubscribable:
  assumes "world_ok w"
  shows "length (filter (unsubscribable d u) (subscriptions w)) = (if (d, u) \<in> active_pairs w then 1 else 0)"
proof -
  let ?n = "length (filter (unsubscribable d u) (subscriptions w))"
  have le: "?n \<le> 1"
    by (rule sut.at_most_one [of _ _ "(d, u)"])
      (use assms in \<open>auto simp: world_ok_def unsubscribable_key\<close>)
  have zero: "?n = 0 \<longleftrightarrow> (d, u) \<notin> active_pairs w"
    by (auto simp: active_pairs_iff filter_empty_conv)
  show ?thesis
  proof (cases "(d, u) \<in> active_pairs w")
    case True
    with zero have "?n \<noteq> 0" by blast
    with le have "?n = 1" by linarith
    with True show ?thesis by simp
  qed (use zero in simp)
qed

lemma bex_map: "(\<exists>x \<in> set (map f xs). P x) \<longleftrightarrow> (\<exists>x \<in> set xs. P (f x))"
  by simp

lemma active_pairs_unsubscribe:
  "active_pairs (w\<lparr>subscriptions := snd (update_where (unsubscribable d u)
     (\<lambda>r. r\<lparr>su_state := Unsubscribed, su_unsubscribed_at := Some t\<rparr>) (subscriptions w))\<rparr>)
   = active_pairs w - {(d, u)}"
proof -
  let ?f = "\<lambda>r. r\<lparr>su_state := Unsubscribed, su_unsubscribed_at := Some t\<rparr>"
  have u: "unsubscribable d' u' (if unsubscribable d u r then ?f r else r) \<longleftrightarrow>
      unsubscribable d' u' r \<and> (d', u') \<noteq> (d, u)" for r d' u'
    by (auto simp: unsubscribable_def)
  have "(d', u') \<in> active_pairs (w\<lparr>subscriptions := snd (update_where (unsubscribable d u) ?f
      (subscriptions w))\<rparr>) \<longleftrightarrow> (d', u') \<in> active_pairs w - {(d, u)}" for d' u'
    by (simp del: set_map add: active_pairs_iff update_where_def bex_map u)
  then show ?thesis by auto
qed

lemma apply_unsubscribe_eq:
  assumes "world_ok w" "sql_faults w = []"
  shows "apply_unsubscribe wall d u w =
    (let w' = w\<lparr>subscriptions := snd (update_where (unsubscribable d u)
          (\<lambda>r. r\<lparr>su_state := Unsubscribed, su_unsubscribed_at := Some wall\<rparr>) (subscriptions w))\<rparr>
     in if (d, u) \<in> active_pairs w then (Ok True, write_audit (DigestUnsubscribedEvent d u) w')
        else (Ok False, w))"
proof (cases "(d, u) \<in> active_pairs w")
  case True
  with count_unsubscribable [OF assms(1), of d u] show ?thesis
    using assms(2) by (simp add: apply_unsubscribe_def and_then_def sql_no_faults update_where_def Let_def)
next
  case False
  then have none: "\<forall>r \<in> set (subscriptions w). \<not> unsubscribable d u r" by (simp add: active_pairs_iff)
  then have same: "snd (update_where (unsubscribable d u) f (subscriptions w)) = subscriptions w" for f
    by (auto simp: update_where_def intro: map_idI)
  from none have "filter (unsubscribable d u) (subscriptions w) = []" by (simp add: filter_empty_conv)
  with False same show ?thesis
    using assms(2)
    by (auto simp: apply_unsubscribe_def and_then_def sql_no_faults update_where_def Let_def)
qed

lemma world_ok_update_subs:
  assumes "world_ok w" "\<And>r. sub_key (f r) = sub_key r"
  shows "world_ok (w\<lparr>subscriptions := snd (update_where p f (subscriptions w))\<rparr>)"
  using assms sut.update_unique [of f "subscriptions w" p]
  by (intro world_ok_subscriptions) (auto simp: world_ok_def)

lemma apply_unsubscribe_ok: "preserves world_ok (apply_unsubscribe wall d u)"
  unfolding apply_unsubscribe_def
proof (intro preserves_and_then preserves_sql)
  fix w assume "world_ok w"
  then have "world_ok (w\<lparr>subscriptions := snd (update_where (unsubscribable d u)
      (\<lambda>r. r\<lparr>su_state := Unsubscribed, su_unsubscribed_at := Some wall\<rparr>) (subscriptions w))\<rparr>)"
    by (rule world_ok_update_subs) simp
  then show "world_ok (snd (case update_where (unsubscribable d u)
      (\<lambda>r. r\<lparr>su_state := Unsubscribed, su_unsubscribed_at := Some wall\<rparr>) (subscriptions w) of
      (n, rows) \<Rightarrow> (n, w\<lparr>subscriptions := rows\<rparr>)))"
    by (simp add: update_where_def)
qed (auto simp: preserves_def)

lemma resubscribe_ok: "preserves world_ok (resubscribe d u)"
  unfolding resubscribe_def
proof (intro preserves_and_then preserves_sql preserves_return)
  fix w assume "world_ok w"
  then show "world_ok (snd (case update_where
      (\<lambda>r. su_digest_id r = d \<and> su_user_id r = u \<and> su_state r = Unsubscribed \<and> not_deleted (su_metadata r))
      (\<lambda>r. r\<lparr>su_state := Subscribed, su_unsubscribed_at := None\<rparr>) (subscriptions w) of
      (n, rows) \<Rightarrow> (n, w\<lparr>subscriptions := rows\<rparr>)))"
    using world_ok_update_subs [of w "\<lambda>r. r\<lparr>su_state := Subscribed, su_unsubscribed_at := None\<rparr>"
        "\<lambda>r. su_digest_id r = d \<and> su_user_id r = u \<and> su_state r = Unsubscribed \<and> not_deleted (su_metadata r)"]
    by (simp add: update_where_def)
qed simp

text \<open>A statement leaves the table alone or runs the update: the view shrinks by the pair or not.\<close>

lemma apply_unsubscribe_active:
  "active_pairs (snd (apply_unsubscribe wall d u w)) \<in> {active_pairs w, active_pairs w - {(d, u)}}"
proof (cases rule: sql_cases [of "\<lambda>w. case update_where (unsubscribable d u)
    (\<lambda>r. r\<lparr>su_state := Unsubscribed, su_unsubscribed_at := Some wall\<rparr>) (subscriptions w) of
    (n, rows) \<Rightarrow> (n, w\<lparr>subscriptions := rows\<rparr>)" w])
  case (fault e fs)
  then show ?thesis by (simp add: apply_unsubscribe_def and_then_def active_pairs_def)
next
  case (run n w' fs)
  then have "active_pairs w' = active_pairs (w\<lparr>subscriptions := snd (update_where (unsubscribable d u)
     (\<lambda>r. r\<lparr>su_state := Unsubscribed, su_unsubscribed_at := Some wall\<rparr>) (subscriptions w))\<rparr>)"
    by (auto simp: active_pairs_def update_where_def)
  with run show ?thesis
    by (simp add: apply_unsubscribe_def and_then_def active_pairs_unsubscribe)
qed

end
