(* ===== verification/Mail_Seam.thy ===== *)
theory Mail_Seam
  imports World
begin

text \<open>
  The outbound mail seam (\<^verbatim>\<open>application/service/digest_mail_seam.rs\<close>). The trait is a function from a
  mail to a state transformer; the locale \<open>mail_seam\<close> states what its documentation promises: a
  call is atomic for the caller (a refusal is a \<^verbatim>\<open>MailDelivery\<close> error and queues nothing), and it
  writes no table of this module. The two services of \<^verbatim>\<open>backbone-mail\<close> that the real seam calls
  are functions of the model; \<open>mails\<close> holds what was queued.
\<close>

section \<open>The contract\<close>

definition only_mails_differ :: "world \<Rightarrow> world \<Rightarrow> bool" where
  "only_mails_differ w w' \<longleftrightarrow>
     digests w' = digests w \<and> subscriptions w' = subscriptions w \<and> digest_kpis w' = digest_kpis w \<and>
     tips w' = tips w \<and> tip_users w' = tip_users w \<and> audit w' = audit w \<and>
     row_locks w' = row_locks w \<and> sql_faults w' = sql_faults w"

locale mail_seam =
  fixes send :: "outgoing_mail \<Rightarrow> uuid io"
  assumes send_no_panic: "send m w \<noteq> (Panic, w')"
    and send_error: "send m w = (Err e, w') \<Longrightarrow> (\<exists>why. e = MailDelivery why) \<and> w' = w"
    and send_ok: "send m w = (Ok i, w') \<Longrightarrow> only_mails_differ w w' \<and> mails w' = mails w @ [m]"
begin

lemma send_frame: "only_mails_differ w (snd (send m w))"
proof -
  obtain r w' where "send m w = (r, w')" by (cases "send m w") auto
  with send_error [of m w _ w'] send_ok [of m w _ w'] send_no_panic [of m w w'] show ?thesis
    by (cases r) (auto simp: only_mails_differ_def)
qed

lemma send_keeps_world_ok: "preserves world_ok (send m)"
  using send_frame by (auto simp: preserves_def only_mails_differ_def world_ok_def)

text \<open>A send either queues this one mail or queues nothing and says so.\<close>

lemma send_mails:
  "mails (snd (send m w)) = (case fst (send m w) of Ok _ \<Rightarrow> mails w @ [m] | _ \<Rightarrow> mails w)"
proof -
  obtain r w' where "send m w = (r, w')" by (cases "send m w") auto
  with send_error [of m w _ w'] send_ok [of m w _ w'] send_no_panic [of m w w'] show ?thesis
    by (cases r) auto
qed

end

section \<open>The real seam\<close>

record message_post_command =
  mp_body :: string
  mp_subject :: "string option"
  mp_message_type :: string
  mp_subtype_id :: "uuid option"
  mp_subtype_name :: "string option"
  mp_is_internal :: bool
  mp_author_id :: "uuid option"
  mp_author_guest_id :: "uuid option"
  mp_email_from :: "string option"
  mp_reply_to :: "string option"
  mp_model :: "string option"
  mp_res_id :: "uuid option"
  mp_record_name :: "string option"
  mp_recipients :: "uuid list"

record enqueue_command =
  eq_message_id :: uuid
  eq_email_to :: string
  eq_headers :: "(string \<times> string) list option"
  eq_model :: "string option"
  eq_res_id :: "uuid option"

text \<open>
  The services of the mail package: posting a message gives its id, enqueueing gives the id of
  the queue row; either may refuse with a text (the header guard runs inside \<open>enqueue\<close>).
\<close>

record mail_backend =
  message_post :: "message_post_command \<Rightarrow> string + uuid"
  enqueue :: "enqueue_command \<Rightarrow> string + uuid"

record default_mail_seam =
  ms_backend :: mail_backend
  ms_email_from :: "string option"

definition default_seam_new :: "mail_backend \<Rightarrow> default_mail_seam" where
  "default_seam_new b = \<lparr> ms_backend = b, ms_email_from = None \<rparr>"

definition post_command :: "string option \<Rightarrow> outgoing_mail \<Rightarrow> message_post_command" where
  "post_command from_addr m =
     \<lparr> mp_body = om_body_html m, mp_subject = Some (om_subject m), mp_message_type = ''email'',
       mp_subtype_id = None, mp_subtype_name = None, mp_is_internal = False,
       mp_author_id = None, mp_author_guest_id = None, mp_email_from = from_addr,
       mp_reply_to = None, mp_model = Some (om_model m), mp_res_id = Some (om_digest_id m),
       mp_record_name = Some (om_subject m), mp_recipients = [] \<rparr>"

definition default_send :: "default_mail_seam \<Rightarrow> outgoing_mail \<Rightarrow> uuid io" where
  "default_send s m w =
     (case message_post (ms_backend s) (post_command (ms_email_from s) m) of
        Inl e \<Rightarrow> (Err (MailDelivery e), w)
      | Inr message_id \<Rightarrow>
          (case enqueue (ms_backend s)
                  \<lparr> eq_message_id = message_id, eq_email_to = om_email_to m,
                    eq_headers = Some (om_headers m), eq_model = Some (om_model m),
                    eq_res_id = Some (om_digest_id m) \<rparr> of
             Inl e \<Rightarrow> (Err (MailDelivery e), w)
           | Inr i \<Rightarrow> (Ok i, w\<lparr>mails := mails w @ [m]\<rparr>)))"

interpretation default_seam: mail_seam "default_send s" for s
  by unfold_locales (auto simp: default_send_def only_mails_differ_def split: sum.splits)

section \<open>The recording double\<close>

text \<open>Its \<^verbatim>\<open>sent\<close> vector is \<open>mails\<close>; a set failure text makes every send fail until cleared.\<close>

record recording_seam = fail_with :: "string option"

definition recording_new :: recording_seam where
  "recording_new = \<lparr> fail_with = None \<rparr>"

definition fail_next :: "string \<Rightarrow> recording_seam \<Rightarrow> recording_seam" where
  "fail_next reason s = s\<lparr>fail_with := Some reason\<rparr>"

definition clear_failure :: "recording_seam \<Rightarrow> recording_seam" where
  "clear_failure s = s\<lparr>fail_with := None\<rparr>"

definition recording_send :: "recording_seam \<Rightarrow> uuid \<Rightarrow> outgoing_mail \<Rightarrow> uuid io" where
  "recording_send s new_id m w =
     (case fail_with s of
        Some reason \<Rightarrow> (Err (MailDelivery reason), w)
      | None \<Rightarrow> (Ok new_id, w\<lparr>mails := mails w @ [m]\<rparr>))"

interpretation recording: mail_seam "recording_send s new_id" for s new_id
  by unfold_locales (auto simp: recording_send_def only_mails_differ_def split: option.splits)

text \<open>The real seam queues a mail with exactly its own headers, address and host edge, or fails.\<close>

lemma default_send_Ok_iff:
  "(\<exists>w'. default_send s m w = (Ok i, w')) \<longleftrightarrow>
     (\<exists>mid. message_post (ms_backend s) (post_command (ms_email_from s) m) = Inr mid \<and>
       enqueue (ms_backend s)
         \<lparr> eq_message_id = mid, eq_email_to = om_email_to m, eq_headers = Some (om_headers m),
           eq_model = Some (om_model m), eq_res_id = Some (om_digest_id m) \<rparr> = Inr i)"
  by (auto simp: default_send_def split: sum.splits)

end
