(* ===== verification/Render.thy ===== *)
theory Render
  imports Base_Kpis Unsubscribe Mail_Seam
begin

text \<open>
  The per-recipient render and delivery engine (\<^verbatim>\<open>application/service/digest_render_service.rs\<close>):
  the recipients of a digest, the fence decision, the KPI cells, the carousel tip, the mail body
  and headers, and the delivery with its markers. The calls of \<^verbatim>\<open>Utc::now()\<close> within one send
  are one argument, \<open>wall\<close>; the sweep's own \<open>now\<close> is another.
\<close>

section \<open>Recipients\<close>

definition window_labels :: "string list" where
  "window_labels = [''Last 24 hours'', ''Last 7 days'', ''Last 30 days'']"

record recipient_row =
  rr_user_id :: uuid
  rr_metadata :: metadata

definition auto_subscribed :: "recipient_row \<Rightarrow> bool" where
  "auto_subscribed r = (case rr_metadata r ''auto_subscribed'' of Some (JBool b) \<Rightarrow> b | _ \<Rightarrow> False)"

definition first_digest_sent_at :: "recipient_row \<Rightarrow> string option" where
  "first_digest_sent_at r =
     (case rr_metadata r ''first_digest_sent_at'' of Some (JStr s) \<Rightarrow> Some s | _ \<Rightarrow> None)"

definition active_recipients :: "uuid \<Rightarrow> recipient_row list io" where
  "active_recipients digest_id = select (\<lambda>w.
     map (\<lambda>r. \<lparr> rr_user_id = su_user_id r, rr_metadata = su_metadata r \<rparr>)
       (sort_key su_user_id
         (filter (\<lambda>r. su_digest_id r = digest_id \<and> su_state r = Subscribed \<and> not_deleted (su_metadata r))
           (subscriptions w))))"

section \<open>The engine and its plan\<close>

record rendered_kpi =
  rk_key :: string
  rk_label :: string
  rk_cells :: "(kpi_value \<times> f64 option) list"

record tip_pick =
  tp_tip_id :: uuid
  tp_name :: string
  tp_sanitized_html :: string

record render_plan =
  rp_digest_id :: uuid
  rp_digest_name :: string
  rp_user_id :: uuid
  rp_email_to :: string
  rp_subject :: string
  rp_body_html :: string
  rp_headers :: "(string \<times> string) list"
  rp_rendered :: "string list"
  rp_dropped_out_of_fence :: "string list"
  rp_dropped_unavailable :: "string list"
  rp_tip :: "tip_pick option"
  rp_is_first_digest :: bool

record engine =
  en_registry :: kpi_registry
  en_port :: slot
  en_mail_seam :: "outgoing_mail \<Rightarrow> uuid io"
  en_unsub :: "unsubscribe_service option"
  en_public_base_url :: string

definition unsubscribe_url :: "externals \<Rightarrow> engine \<Rightarrow> datetime \<Rightarrow> uuid \<Rightarrow> uuid \<Rightarrow> string res" where
  "unsubscribe_url X eng wall digest_id user_id =
     (case en_unsub eng of
        None \<Rightarrow> Err SecretNotConfigured
      | Some svc \<Rightarrow>
          if trim (en_public_base_url eng) = [] then Err PublicBaseUrlNotConfigured
          else (case mint_link_token X svc digest_id user_id wall of
                  None \<Rightarrow> Panic
                | Some token \<Rightarrow>
                    Ok (trim_end_matches (CHR ''/'') (en_public_base_url eng) @ ''/digest/unsubscribe?t='' @ token)))"

section \<open>The KPI loop\<close>

datatype compute_result = Value kpi_value | Missing string | Broken digest_error

definition compute_one :: "kpi_computer \<Rightarrow> uuid \<Rightarrow> uuid option \<Rightarrow> time_window \<Rightarrow> compute_result" where
  "compute_one computer user_id company win =
     (case computer \<lparr> qc_recipient_user_id = user_id, qc_company_id = company,
                      qc_window_start = tw_start win, qc_window_end = tw_end win \<rparr> of
        Inr v \<Rightarrow> Value v
      | Inl (SourceUnavailable why) \<Rightarrow> Missing why
      | Inl e \<Rightarrow> Broken (SendFailed (show_kpi_error e)))"

datatype cells_result = Cells "(kpi_value \<times> f64 option) list" | NoSource | Fatal digest_error

text \<open>One pass over the windows: a missing source on either side wins over a broken one.\<close>

fun render_cells ::
  "(time_window \<Rightarrow> compute_result) \<Rightarrow> (time_window \<times> time_window) list \<Rightarrow>
     (kpi_value \<times> f64 option) list \<Rightarrow> cells_result" where
  "render_cells compute [] cells = Cells cells"
| "render_cells compute ((cur_w, prev_w) # ws) cells =
     (case (compute cur_w, compute prev_w) of
        (Value cur, Value prev) \<Rightarrow>
          render_cells compute ws (cells @ [(cur, margin (kpi_display cur) (kpi_display prev))])
      | (Missing why, _) \<Rightarrow> NoSource
      | (_, Missing why) \<Rightarrow> NoSource
      | (Broken e, _) \<Rightarrow> Fatal e
      | (_, Broken e) \<Rightarrow> Fatal e)"

datatype key_outcome = Rendered rendered_kpi | OutOfFence | SourceMissing | Failed digest_error

definition render_key ::
  "kpi_registry \<Rightarrow> recipient_context \<Rightarrow> uuid \<Rightarrow> (time_window \<times> time_window) list \<Rightarrow> string \<Rightarrow> key_outcome" where
  "render_key registry ctx user_id windows key =
     (case registry_get registry key of
        None \<Rightarrow> SourceMissing
      | Some def \<Rightarrow>
          if \<not> renders_for (kd_fence def) (rc_company_id ctx) then OutOfFence
          else (case render_cells (compute_one (kd_computer def) user_id (rc_company_id ctx))
                       windows [] of
                  NoSource \<Rightarrow> SourceMissing
                | Fatal e \<Rightarrow> Failed e
                | Cells cells \<Rightarrow>
                    Rendered \<lparr> rk_key = key, rk_label = kd_label def, rk_cells = cells \<rparr>))"

text \<open>The loop over the keys, with the three vectors it pushes to.\<close>

fun render_keys ::
  "(string \<Rightarrow> key_outcome) \<Rightarrow> string list \<Rightarrow> rendered_kpi list \<times> string list \<times> string list \<Rightarrow>
     digest_error + rendered_kpi list \<times> string list \<times> string list" where
  "render_keys outcome [] acc = Inr acc"
| "render_keys outcome (key # keys) (rendered, oof, unavailable) =
     (case outcome key of
        SourceMissing \<Rightarrow> render_keys outcome keys (rendered, oof, unavailable @ [key])
      | OutOfFence \<Rightarrow> render_keys outcome keys (rendered, oof @ [key], unavailable)
      | Failed e \<Rightarrow> Inl e
      | Rendered k \<Rightarrow> render_keys outcome keys (rendered @ [k], oof, unavailable))"

definition enabled_keys :: "uuid \<Rightarrow> world \<Rightarrow> string list" where
  "enabled_keys digest_id w =
     sort (map kp_key (filter (\<lambda>r. kp_digest_id r = digest_id \<and> not_deleted (kp_metadata r)) (digest_kpis w)))"

section \<open>The carousel tip\<close>

definition unconsumed_tips :: "uuid \<Rightarrow> world \<Rightarrow> tip_rec list" where
  "unconsumed_tips user_id w =
     sort_key (\<lambda>t. (ti_sequence t, ti_id t))
       (filter (\<lambda>t. not_deleted (ti_metadata t) \<and>
            \<not> (\<exists>tu \<in> set (tip_users w). tu_tip_id tu = ti_id t \<and> tu_user_id tu = user_id \<and>
                 not_deleted (tu_metadata tu)))
         (tips w))"

fun walk_tips :: "externals \<Rightarrow> string set option \<Rightarrow> tip_rec list \<Rightarrow> tip_pick option" where
  "walk_tips X keys [] = None"
| "walk_tips X keys (t # ts) =
     (let gated = (case ti_group_key t of None \<Rightarrow> [] | Some g \<Rightarrow> g) in
      if gated \<noteq> [] \<and> \<not> (case keys of Some ks \<Rightarrow> gated \<in> ks | None \<Rightarrow> False)
      then walk_tips X keys ts
      else Some \<lparr> tp_tip_id = ti_id t, tp_name = ti_name t,
                  tp_sanitized_html = ammonia_clean X
                    (case ti_description t of None \<Rightarrow> [] | Some s \<Rightarrow> s) \<rparr>)"

definition pick_tip :: "externals \<Rightarrow> engine \<Rightarrow> uuid \<Rightarrow> tip_pick option io" where
  "pick_tip X eng user_id =
     and_then (select (unconsumed_tips user_id))
       (\<lambda>rows. return (walk_tips X
          (case group_keys (slot_port (en_port eng)) user_id of Inr ks \<Rightarrow> Some ks | Inl _ \<Rightarrow> None) rows))"

section \<open>The body\<close>

definition show_cell :: "kpi_value \<times> f64 option \<Rightarrow> string" where
  "show_cell c =
     (case kv_amount (fst c) of Some a \<Rightarrow> show_fixed2 a | None \<Rightarrow> show_int (kv_count (fst c))) @
     (case snd c of None \<Rightarrow> [] | Some pct \<Rightarrow> '' ('' @ show_signed pct @ ''%)'')"

definition show_row :: "externals \<Rightarrow> rendered_kpi \<Rightarrow> string" where
  "show_row X k =
     ''<tr><td>'' @ ammonia_clean X (rk_label k) @ ''</td>'' @
     concat (map (\<lambda>c. ''<td align='' @ dquote @ ''right'' @ dquote @ ''>'' @ show_cell c @ ''</td>'') (rk_cells k)) @
     ''</tr>'' @ newline"

definition build_body ::
  "externals \<Rightarrow> datetime \<Rightarrow> digest_row \<Rightarrow> rendered_kpi list \<Rightarrow> tip_pick option \<Rightarrow> string \<Rightarrow> bool \<Rightarrow> string" where
  "build_body X wall digest rendered tip url first_digest_notice =
     ''<html><body><h2>'' @ ammonia_clean X (dr_name digest) @ ''</h2><p>Periodic KPI digest for '' @
     show_date X (date_naive wall) @ ''.</p>'' @ newline @
     (if first_digest_notice
      then ''<p>You are receiving this digest because an account was created for you. '' @
        ''You can unsubscribe at any time using the link at the bottom of this email.</p>'' @ newline
      else []) @
     (if rendered = [] then ''<p>No metrics to show this period.</p>'' @ newline
      else ''<table border='' @ dquote @ ''0'' @ dquote @ '' cellpadding='' @ dquote @ ''4'' @ dquote @
        '' cellspacing='' @ dquote @ ''0'' @ dquote @ ''><tr><th align='' @ dquote @ ''left'' @ dquote @
        ''>Metric</th>'' @ newline @
        concat (map (\<lambda>label. ''<th align='' @ dquote @ ''right'' @ dquote @ ''>'' @ label @ ''</th>'') window_labels) @
        ''</tr>'' @ newline @ concat (map (show_row X) rendered) @ ''</table>'' @ newline) @
     (case tip of
        None \<Rightarrow> []
      | Some t \<Rightarrow> ''<div class='' @ dquote @ ''digest-tip'' @ dquote @ ''><strong>Tip: '' @
          ammonia_clean X (tp_name t) @ ''</strong><p>'' @ tp_sanitized_html t @ ''</p></div>'' @ newline) @
     ''<hr><p><a href='' @ dquote @ url @ dquote @
     ''>Unsubscribe from this digest in one click</a></p></body></html>'' @ newline"

definition mail_headers :: "string \<Rightarrow> (string \<times> string) list" where
  "mail_headers url =
     [(''List-Unsubscribe'', ''<'' @ url @ ''>''),
      (''List-Unsubscribe-Post'', ''List-Unsubscribe=One-Click''),
      (''X-Auto-Response-Suppress'', ''OOF'')]"

section \<open>Rendering\<close>

definition plan_of ::
  "externals \<Rightarrow> datetime \<Rightarrow> digest_row \<Rightarrow> recipient_row \<Rightarrow> datetime \<Rightarrow> recipient_context \<Rightarrow> string \<Rightarrow>
     rendered_kpi list \<times> string list \<times> string list \<Rightarrow> tip_pick option \<Rightarrow> render_plan" where
  "plan_of X wall digest recipient now ctx url outs tip =
     (case outs of (rendered, oof, unavailable) \<Rightarrow>
        let first = auto_subscribed recipient \<and> first_digest_sent_at recipient = None in
        \<lparr> rp_digest_id = dr_id digest, rp_digest_name = dr_name digest,
          rp_user_id = rr_user_id recipient, rp_email_to = rc_email ctx,
          rp_subject = dr_name digest @ '' '' @ em_dash @ '' '' @ show_date X (date_naive now),
          rp_body_html = build_body X wall digest rendered tip url first,
          rp_headers = mail_headers url, rp_rendered = map rk_key rendered,
          rp_dropped_out_of_fence = oof, rp_dropped_unavailable = unavailable,
          rp_tip = tip, rp_is_first_digest = first \<rparr>)"

definition from_sum :: "digest_error + 'a \<Rightarrow> 'a io" where
  "from_sum s = (case s of Inl e \<Rightarrow> throw e | Inr a \<Rightarrow> return a)"

definition resolve_recipient :: "externals \<Rightarrow> engine \<Rightarrow> uuid \<Rightarrow> digest_error + recipient_context" where
  "resolve_recipient X eng user_id =
     (case resolve (slot_port (en_port eng)) user_id of
        Inl e \<Rightarrow> Inl (SendFailed (''recipient '' @ uuid_show X user_id @
          '' unresolved through the engagement port (fail-closed): '' @ show_port_error e))
      | Inr ctx \<Rightarrow> Inr ctx)"

definition render ::
  "externals \<Rightarrow> engine \<Rightarrow> datetime \<Rightarrow> digest_row \<Rightarrow> recipient_row \<Rightarrow> datetime \<Rightarrow> render_plan io" where
  "render X eng wall digest recipient now =
     and_then (from_sum (resolve_recipient X eng (rr_user_id recipient))) (\<lambda>ctx.
     and_then (from_res (unsubscribe_url X eng wall (dr_id digest) (rr_user_id recipient))) (\<lambda>url.
     and_then (select (enabled_keys (dr_id digest))) (\<lambda>keys.
     and_then (expect (windows_at (cal X) now)) (\<lambda>windows.
     and_then (from_sum (render_keys
         (render_key (en_registry eng) ctx (rr_user_id recipient) windows) keys ([], [], []))) (\<lambda>outs.
     and_then (pick_tip X eng (rr_user_id recipient)) (\<lambda>tip.
     return (plan_of X wall digest recipient now ctx url outs tip)))))))"

section \<open>Delivery\<close>

definition outgoing :: "datetime \<Rightarrow> render_plan \<Rightarrow> outgoing_mail" where
  "outgoing wall plan =
     \<lparr> om_digest_id = rp_digest_id plan, om_recipient_user_id = rp_user_id plan,
       om_email_to = rp_email_to plan, om_subject = rp_subject plan,
       om_body_html = rp_body_html plan, om_headers = rp_headers plan,
       om_model = ''digest'', om_queued_at = wall \<rparr>"

definition consume_tip :: "uuid \<Rightarrow> uuid \<Rightarrow> unit io" where
  "consume_tip tip_id user_id =
     sql (\<lambda>w. ((), w\<lparr>tip_users := snd (insert_or_ignore tip_user_key
        \<lparr> tu_tip_id = tip_id, tu_user_id = user_id, tu_metadata = Map.empty \<rparr> (tip_users w))\<rparr>))"

definition deliver :: "externals \<Rightarrow> engine \<Rightarrow> datetime \<Rightarrow> render_plan \<Rightarrow> uuid io" where
  "deliver X eng wall plan =
     and_then (en_mail_seam eng (outgoing wall plan)) (\<lambda>mail_id.
     and_then (case rp_tip plan of
         None \<Rightarrow> return () | Some t \<Rightarrow> consume_tip (tp_tip_id t) (rp_user_id plan)) (\<lambda>_.
     and_then (if rp_is_first_digest plan
         then stamp_subscription_metadata (rp_digest_id plan) (rp_user_id plan)
           [''first_digest_sent_at'' \<mapsto> JStr (to_rfc3339 X wall)]
         else return ()) (\<lambda>_ w.
     (Ok mail_id, write_audit (DigestEmailSent (rp_digest_id plan) (rp_user_id plan) mail_id) w))))"

definition send_to_recipient ::
  "externals \<Rightarrow> engine \<Rightarrow> datetime \<Rightarrow> digest_row \<Rightarrow> recipient_row \<Rightarrow> datetime \<Rightarrow> (render_plan \<times> uuid) io" where
  "send_to_recipient X eng wall digest recipient now =
     and_then (render X eng wall digest recipient now) (\<lambda>plan.
     and_then (deliver X eng wall plan) (\<lambda>mail_id. return (plan, mail_id)))"

section \<open>The fence decision\<close>

text \<open>
  Two registries that agree on every declaration, and on the compute functions of the entries
  whose fence the recipient passes, are one registry for this recipient.
\<close>

definition same_for :: "uuid option \<Rightarrow> kpi_registry \<Rightarrow> kpi_registry \<Rightarrow> bool" where
  "same_for company r r' \<longleftrightarrow>
     (\<forall>k. case (registry_get r k, registry_get r' k) of
        (None, None) \<Rightarrow> True
      | (Some d, Some d') \<Rightarrow>
          kd_fence d = kd_fence d' \<and>
          (renders_for (kd_fence d) company \<longrightarrow> kd_label d = kd_label d' \<and> kd_computer d = kd_computer d')
      | _ \<Rightarrow> False)"

lemma render_key_same_for:
  assumes "same_for (rc_company_id ctx) r r'"
  shows "render_key r ctx u ws = render_key r' ctx u ws"
proof
  fix k
  have "case (registry_get r k, registry_get r' k) of
        (None, None) \<Rightarrow> True
      | (Some d, Some d') \<Rightarrow>
          kd_fence d = kd_fence d' \<and> (renders_for (kd_fence d) (rc_company_id ctx) \<longrightarrow>
            kd_label d = kd_label d' \<and> kd_computer d = kd_computer d')
      | _ \<Rightarrow> False"
    using assms unfolding same_for_def by blast
  then show "render_key r ctx u ws k = render_key r' ctx u ws k"
    by (auto simp: render_key_def split: option.splits cells_result.split)
qed

lemma render_key_Rendered: "render_key r ctx u ws k = Rendered x \<Longrightarrow> rk_key x = k"
  by (auto simp: render_key_def split: option.splits if_splits cells_result.splits)

text \<open>The decision is the declaration's alone.\<close>

lemma render_key_out_of_fence_iff:
  "render_key r ctx u ws k = OutOfFence \<longleftrightarrow>
     (\<exists>d. registry_get r k = Some d \<and> \<not> renders_for (kd_fence d) (rc_company_id ctx))"
  by (auto simp: render_key_def split: option.splits cells_result.splits)

section \<open>The cells\<close>

lemma render_cells_values:
  assumes "\<forall>(c, p) \<in> set ws. compute c = Value (v c) \<and> compute p = Value (v p)"
  shows "render_cells compute ws acc =
    Cells (acc @ map (\<lambda>(c, p). (v c, margin (kpi_display (v c)) (kpi_display (v p)))) ws)"
  using assms by (induction compute ws acc rule: render_cells.induct) auto

lemma render_cells_length:
  "render_cells compute ws acc = Cells cs \<Longrightarrow> length cs = length acc + length ws"
proof (induction compute ws acc rule: render_cells.induct)
  case (2 compute cw pw ws acc)
  show ?case
  proof (cases "compute cw")
    case (Value a)
    note a = this
    show ?thesis
    proof (cases "compute pw")
      case (Value b)
      with a 2(2) have "render_cells compute ws (acc @ [(a, margin (kpi_display a) (kpi_display b))]) = Cells cs"
        by simp
      with a Value 2(1) [OF _ a Value] show ?thesis by simp
    qed (use 2(2) a in auto)
  qed (use 2(2) in \<open>auto split: compute_result.splits\<close>)
qed simp

text \<open>The \<^verbatim>\<open>try_into().expect("exactly three windows")\<close> never fails.\<close>

lemma render_key_three_cells:
  "windows_at cl now = Some ws \<Longrightarrow> render_key r ctx u ws k = Rendered x \<Longrightarrow> length (rk_cells x) = 3"
  by (auto simp: render_key_def split: option.splits if_splits cells_result.splits
      dest!: render_cells_length length_windows_at)

lemma margin_same [simp]: "margin a a = None"
  by (simp add: margin_def f64_eq_def)

lemma render_key_zero:
  assumes "registry_get r k = Some d" "renders_for (kd_fence d) (rc_company_id ctx)"
    and "\<And>q. kd_computer d q = Inr kpi_zero" "windows_at cl now = Some ws"
  shows "render_key r ctx u ws k =
    Rendered \<lparr> rk_key = k, rk_label = kd_label d, rk_cells = replicate 3 (kpi_zero, None) \<rparr>"
proof -
  have "compute_one (kd_computer d) u c t = Value kpi_zero" for c t
    by (simp add: compute_one_def assms(3))
  then have "render_cells (compute_one (kd_computer d) u (rc_company_id ctx)) ws [] =
      Cells (map (\<lambda>(c, p). (kpi_zero, None)) ws)"
    using render_cells_values [of ws "compute_one (kd_computer d) u (rc_company_id ctx)"
        "\<lambda>_. kpi_zero" "[]"] by simp
  moreover have "map (\<lambda>(c, p). (kpi_zero, None)) ws = replicate 3 (kpi_zero, None)"
    unfolding windows_at_eq [OF assms(4)] by (simp add: numeral_3_eq_3)
  ultimately show ?thesis using assms by (simp add: render_key_def)
qed

lemma show_cell_zero: "show_cell (kpi_zero, None) = ''0''"
  by (simp add: show_cell_def kpi_zero_def show_int_def) code_simp

section \<open>The key loop\<close>

definition rendered_of :: "(string \<Rightarrow> key_outcome) \<Rightarrow> string list \<Rightarrow> rendered_kpi list" where
  "rendered_of f ks = concat (map (\<lambda>k. case f k of Rendered x \<Rightarrow> [x] | _ \<Rightarrow> []) ks)"

lemma render_keys_ok:
  "(\<forall>k \<in> set ks. \<forall>e. f k \<noteq> Failed e) \<Longrightarrow>
     render_keys f ks (a, b, c) =
       Inr (a @ rendered_of f ks, b @ filter (\<lambda>k. f k = OutOfFence) ks,
            c @ filter (\<lambda>k. f k = SourceMissing) ks)"
proof (induction ks arbitrary: a b c)
  case (Cons k ks)
  then show ?case by (cases "f k") (simp_all add: rendered_of_def)
qed (simp add: rendered_of_def)

lemma render_keys_fails:
  "k \<in> set ks \<Longrightarrow> f k = Failed e \<Longrightarrow> \<exists>e'. render_keys f ks acc = Inl e'"
proof (induction ks arbitrary: acc)
  case (Cons k' ks)
  obtain a b c where "acc = (a, b, c)" by (cases acc) auto
  with Cons show ?case by (cases "f k'") auto
qed simp

lemma render_keys_Inr:
  assumes "render_keys f ks ([], [], []) = Inr (a, b, c)"
  shows "a = rendered_of f ks" "b = filter (\<lambda>k. f k = OutOfFence) ks"
    "c = filter (\<lambda>k. f k = SourceMissing) ks" "\<forall>k \<in> set ks. \<forall>e. f k \<noteq> Failed e"
proof -
  show "\<forall>k \<in> set ks. \<forall>e. f k \<noteq> Failed e" 
  proof (intro ballI allI notI)
    fix k e
    assume "k \<in> set ks" "f k = Failed e"
    from render_keys_fails [of k ks f e "([], [], [])", OF this] assms show False by auto
  qed
  then show "a = rendered_of f ks" "b = filter (\<lambda>k. f k = OutOfFence) ks"
    "c = filter (\<lambda>k. f k = SourceMissing) ks"
    using assms by (simp_all add: render_keys_ok)
qed

lemma rendered_of_keys:
  assumes "\<And>k x. f k = Rendered x \<Longrightarrow> rk_key x = k"
  shows "map rk_key (rendered_of f ks) = filter (\<lambda>k. \<exists>x. f k = Rendered x) ks"
  by (induction ks) (auto simp: rendered_of_def assms split: key_outcome.split)

section \<open>The carousel\<close>

definition gate_passes :: "string set option \<Rightarrow> tip_rec \<Rightarrow> bool" where
  "gate_passes keys t \<longleftrightarrow>
     (case ti_group_key t of
        None \<Rightarrow> True
      | Some g \<Rightarrow> g = [] \<or> (case keys of Some ks \<Rightarrow> g \<in> ks | None \<Rightarrow> False))"

definition tip_pick_of :: "externals \<Rightarrow> tip_rec \<Rightarrow> tip_pick" where
  "tip_pick_of X t =
     \<lparr> tp_tip_id = ti_id t, tp_name = ti_name t,
       tp_sanitized_html = ammonia_clean X (case ti_description t of None \<Rightarrow> [] | Some s \<Rightarrow> s) \<rparr>"

lemma walk_tips_find: "walk_tips X keys ts = map_option (tip_pick_of X) (find (gate_passes keys) ts)"
  by (induction ts) (auto simp: Let_def gate_passes_def tip_pick_of_def split: option.splits)

lemma find_sorted:
  assumes "find P (sort_key f xs) = Some x"
  shows "x \<in> set xs" "P x" "\<And>y. y \<in> set xs \<Longrightarrow> P y \<Longrightarrow> f x \<le> f y"
proof -
  obtain i where i: "i < length (sort_key f xs)" "P (sort_key f xs ! i)" "x = sort_key f xs ! i"
    "\<forall>j<i. \<not> P (sort_key f xs ! j)"
    using assms by (auto simp: find_Some_iff)
  then show "P x" by simp
  have "x \<in> set (sort_key f xs)" using i(1,3) nth_mem by blast
  then show "x \<in> set xs" by simp
  fix y
  assume "y \<in> set xs" "P y"
  then have "y \<in> set (sort_key f xs)" by simp
  then obtain j where j: "j < length (sort_key f xs)" "y = sort_key f xs ! j"
    by (metis in_set_conv_nth)
  with i(4) \<open>P y\<close> have "i \<le> j" by (metis not_le)
  then have "map f (sort_key f xs) ! i \<le> map f (sort_key f xs) ! j"
    using sorted_nth_mono [of "map f (sort_key f xs)" i j] j(1) by simp
  with i j show "f x \<le> f y" by simp
qed

lemma find_None_sorted: "find P (sort_key f xs) = None \<longleftrightarrow> (\<forall>x \<in> set xs. \<not> P x)"
  by (auto simp: find_None_iff)

section \<open>Rendering reads, delivery writes after the enqueue\<close>

lemma from_sum_simps [simp]: "from_sum (Inl e) = throw e" "from_sum (Inr a) = return a"
  by (simp_all add: from_sum_def)

lemma reads_only_from_sum [intro]: "reads_only (from_sum s)"
  by (cases s) auto

lemma reads_only_pick_tip [intro]: "reads_only (pick_tip X eng u)"
  unfolding pick_tip_def by (intro reads_only_and_then reads_only_select reads_only_return)

lemma reads_only_render: "reads_only (render X eng wall d r now)"
  unfolding render_def
  by (intro reads_only_and_then reads_only_from_sum reads_only_from_res reads_only_expect reads_only_select
      reads_only_pick_tip reads_only_return)

lemma from_sum_Ok: "from_sum s w = (Ok a, w') \<longleftrightarrow> s = Inr a \<and> w' = w"
  by (cases s) (auto simp: throw_def return_def)

lemma select_Ok:
  assumes "select q w = (Ok a, w')"
  obtains fs where "a = q (w\<lparr>sql_faults := fs\<rparr>)" "w' = w\<lparr>sql_faults := fs\<rparr>"
  using assms by (cases rule: select_cases [of q w]) auto

lemma enabled_keys_faults [simp]: "enabled_keys d (w\<lparr>sql_faults := fs\<rparr>) = enabled_keys d w"
  and unconsumed_tips_faults [simp]: "unconsumed_tips u (w\<lparr>sql_faults := fs\<rparr>) = unconsumed_tips u w"
  by (simp_all add: enabled_keys_def unconsumed_tips_def)

text \<open>What a finished plan is made of.\<close>

lemma render_Ok:
  assumes "render X eng wall d r now w = (Ok plan, w')"
  obtains ctx url ws rendered oof unav tip where
    "resolve (slot_port (en_port eng)) (rr_user_id r) = Inr ctx"
    "unsubscribe_url X eng wall (dr_id d) (rr_user_id r) = Ok url" "windows_at (cal X) now = Some ws"
    "render_keys (render_key (en_registry eng) ctx (rr_user_id r) ws) (enabled_keys (dr_id d) w)
       ([], [], []) = Inr (rendered, oof, unav)"
    "tip = walk_tips X (case group_keys (slot_port (en_port eng)) (rr_user_id r) of
         Inr ks \<Rightarrow> Some ks | Inl _ \<Rightarrow> None) (unconsumed_tips (rr_user_id r) w)"
    "plan = plan_of X wall d r now ctx url (rendered, oof, unav) tip"
proof -
  obtain ctx where ctx: "resolve_recipient X eng (rr_user_id r) = Inr ctx"
    using assms unfolding render_def by (elim and_then_Ok) (simp add: from_sum_Ok)
  obtain url where url: "unsubscribe_url X eng wall (dr_id d) (rr_user_id r) = Ok url"
    using assms unfolding render_def by (elim and_then_Ok) (simp add: from_res_Ok)
  obtain ws where ws: "windows_at (cal X) now = Some ws"
    using assms unfolding render_def by (elim and_then_Ok) (simp add: expect_Ok)
  let ?f = "render_key (en_registry eng) ctx (rr_user_id r) ws"
  from assms ctx url ws have "and_then (select (enabled_keys (dr_id d))) (\<lambda>keys.
     and_then (from_sum (render_keys ?f keys ([], [], []))) (\<lambda>outs.
     and_then (pick_tip X eng (rr_user_id r)) (\<lambda>tip.
     return (plan_of X wall d r now ctx url outs tip)))) w = (Ok plan, w')"
    by (simp add: render_def and_then_simps)
  then obtain outs tip w1 w2 fs where k: "render_keys ?f (enabled_keys (dr_id d) w) ([], [], []) = Inr outs"
    and w1: "w1 = w\<lparr>sql_faults := fs\<rparr>" and t: "pick_tip X eng (rr_user_id r) w1 = (Ok tip, w2)"
    and plan: "plan = plan_of X wall d r now ctx url outs tip"
    by (elim and_then_Ok select_Ok) (auto simp: from_sum_Ok return_def)
  from t have tip: "tip = walk_tips X (case group_keys (slot_port (en_port eng)) (rr_user_id r) of
         Inr ks \<Rightarrow> Some ks | Inl _ \<Rightarrow> None) (unconsumed_tips (rr_user_id r) w)"
    unfolding pick_tip_def w1 by (elim and_then_Ok select_Ok) (simp add: return_def)
  have "resolve (slot_port (en_port eng)) (rr_user_id r) = Inr ctx"
    using ctx by (auto simp: resolve_recipient_def split: sum.splits)
  moreover obtain rendered oof unav where "outs = (rendered, oof, unav)" by (cases outs) auto
  ultimately show ?thesis using that [of ctx url ws rendered oof unav tip] url ws k tip plan by simp
qed

lemma unsubscribe_url_Ok:
  "unsubscribe_url X eng wall d u = Ok url \<Longrightarrow>
     \<exists>svc tok. en_unsub eng = Some svc \<and> trim (en_public_base_url eng) \<noteq> [] \<and>
       mint_link_token X svc d u wall = Some tok \<and>
       url = trim_end_matches (CHR ''/'') (en_public_base_url eng) @ ''/digest/unsubscribe?t='' @ tok"
  by (auto simp: unsubscribe_url_def split: option.splits if_splits)

lemma plan_of_simps [simp]:
  "rp_digest_id (plan_of X wall d r now ctx url (a, b, c) tip) = dr_id d"
  "rp_user_id (plan_of X wall d r now ctx url (a, b, c) tip) = rr_user_id r"
  "rp_email_to (plan_of X wall d r now ctx url (a, b, c) tip) = rc_email ctx"
  "rp_headers (plan_of X wall d r now ctx url (a, b, c) tip) = mail_headers url"
  "rp_rendered (plan_of X wall d r now ctx url (a, b, c) tip) = map rk_key a"
  "rp_dropped_out_of_fence (plan_of X wall d r now ctx url (a, b, c) tip) = b"
  "rp_dropped_unavailable (plan_of X wall d r now ctx url (a, b, c) tip) = c"
  "rp_tip (plan_of X wall d r now ctx url (a, b, c) tip) = tip"
  by (simp_all add: plan_of_def Let_def)

lemma deliver_refused:
  "en_mail_seam eng (outgoing wall plan) w = (Err e, w') \<Longrightarrow> deliver X eng wall plan w = (Err e, w')"
  by (simp add: deliver_def and_then_def)

text \<open>With every statement succeeding, rendering and delivery are their pure parts.\<close>

lemma render_no_faults:
  assumes "sql_faults w = []" "resolve (slot_port (en_port eng)) (rr_user_id r) = Inr ctx"
    and "unsubscribe_url X eng wall (dr_id d) (rr_user_id r) = Ok url" "windows_at (cal X) now = Some ws"
    and "render_keys (render_key (en_registry eng) ctx (rr_user_id r) ws) (enabled_keys (dr_id d) w)
       ([], [], []) = Inr outs"
  shows "render X eng wall d r now w =
    (Ok (plan_of X wall d r now ctx url outs
      (walk_tips X (case group_keys (slot_port (en_port eng)) (rr_user_id r) of
         Inr ks \<Rightarrow> Some ks | Inl _ \<Rightarrow> None) (unconsumed_tips (rr_user_id r) w))), w)"
  using assms
  by (simp add: render_def resolve_recipient_def and_then_simps)
    (simp add: and_then_def select_no_faults pick_tip_def return_def)

lemma consume_tip_no_faults:
  "sql_faults w = [] \<Longrightarrow> consume_tip t u w = (Ok (), w\<lparr>tip_users := snd (insert_or_ignore tip_user_key
     \<lparr> tu_tip_id = t, tu_user_id = u, tu_metadata = Map.empty \<rparr> (tip_users w))\<rparr>)"
  by (simp add: consume_tip_def sql_no_faults)

lemma stamp_no_faults:
  "sql_faults w = [] \<Longrightarrow> stamp_subscription_metadata d u p w = (Ok (), w\<lparr>subscriptions := snd (update_where
     (\<lambda>r. su_digest_id r = d \<and> su_user_id r = u)
     (\<lambda>r. r\<lparr>su_metadata := su_metadata r ++ p\<rparr>) (subscriptions w))\<rparr>)"
  by (simp add: stamp_subscription_metadata_def sql_no_faults)

lemma deliver_no_faults:
  assumes "en_mail_seam eng (outgoing wall plan) w = (Ok i, w1)" "sql_faults w1 = []"
  shows "\<exists>w'. deliver X eng wall plan w = (Ok i, w') \<and> sql_faults w' = [] \<and> mails w' = mails w1 \<and>
    tip_users w' = (case rp_tip plan of None \<Rightarrow> tip_users w1
      | Some t \<Rightarrow> snd (insert_or_ignore tip_user_key
          \<lparr> tu_tip_id = tp_tip_id t, tu_user_id = rp_user_id plan, tu_metadata = Map.empty \<rparr> (tip_users w1)))"
  using assms
  by (cases "rp_tip plan"; cases "rp_is_first_digest plan")
    (simp_all add: deliver_def and_then_def return_def consume_tip_no_faults stamp_no_faults)

section \<open>Frames\<close>

text \<open>A predicate on the world that none of the writes of a delivery can falsify.\<close>

definition delivery_stable :: "(world \<Rightarrow> bool) \<Rightarrow> bool" where
  "delivery_stable P \<longleftrightarrow>
     (\<forall>w fs. P w \<longrightarrow> P (w\<lparr>sql_faults := fs\<rparr>)) \<and>
     (\<forall>w w'. P w \<longrightarrow> only_mails_differ w w' \<longrightarrow> P w') \<and>
     (\<forall>w ev. P w \<longrightarrow> P (write_audit ev w)) \<and>
     (\<forall>w r. P w \<longrightarrow> P (w\<lparr>tip_users := snd (insert_or_ignore tip_user_key r (tip_users w))\<rparr>)) \<and>
     (\<forall>w d u s. P w \<longrightarrow> P (w\<lparr>subscriptions := snd (update_where
         (\<lambda>r. su_digest_id r = d \<and> su_user_id r = u)
         (\<lambda>r. r\<lparr>su_metadata := (su_metadata r)(''first_digest_sent_at'' \<mapsto> s)\<rparr>) (subscriptions w))\<rparr>))"

lemma deliver_preserves:
  assumes "mail_seam (en_mail_seam eng)" "delivery_stable P"
  shows "preserves P (deliver X eng wall plan)"
proof -
  have send: "preserves P (en_mail_seam eng m)" for m
    using assms(2) mail_seam.send_frame [OF assms(1)] by (auto simp: preserves_def delivery_stable_def)
  have tip: "preserves P (consume_tip t u)" for t u
    unfolding consume_tip_def by (rule preserves_sql) (use assms(2) in \<open>auto simp: delivery_stable_def\<close>)
  have stamp: "preserves P (stamp_subscription_metadata d u [''first_digest_sent_at'' \<mapsto> s])" for d u s
    unfolding stamp_subscription_metadata_def
    by (rule preserves_sql) (use assms(2) in \<open>auto simp: delivery_stable_def\<close>)
  have "preserves P (\<lambda>w. (Ok i, write_audit ev w))" for i :: uuid and ev
    using assms(2) by (auto simp: preserves_def delivery_stable_def)
  with send tip stamp show ?thesis
    unfolding deliver_def
    by (intro preserves_and_then) (auto split: option.split)
qed

lemma send_to_recipient_preserves:
  assumes "mail_seam (en_mail_seam eng)" "delivery_stable P"
  shows "preserves P (send_to_recipient X eng wall d r now)"
  unfolding send_to_recipient_def
  by (intro preserves_and_then deliver_preserves assms preserves_return
      reads_only_preserves [OF reads_only_render])
    (use assms(2) in \<open>auto simp: delivery_stable_def\<close>)

text \<open>What an email run never changes: the digest rows, the KPI rows, the tips, who receives mail.\<close>

definition schedule_view :: "world \<Rightarrow> digest_rec list \<times> kpi_rec list \<times> tip_rec list \<times> (uuid \<times> uuid) set \<times> uuid list" where
  "schedule_view w = (digests w, digest_kpis w, tips w, active_pairs w, row_locks w)"

lemma active_pairs_stamp:
  "active_pairs (w\<lparr>subscriptions := snd (update_where p
     (\<lambda>r. r\<lparr>su_metadata := (su_metadata r)(''first_digest_sent_at'' \<mapsto> s)\<rparr>) (subscriptions w))\<rparr>) = active_pairs w"
proof -
  have u: "unsubscribable d u (if p r then r\<lparr>su_metadata := (su_metadata r)(''first_digest_sent_at'' \<mapsto> s)\<rparr> else r) =
    unsubscribable d u r" for d u r
    by (simp add: unsubscribable_def)
  have "(d, u) \<in> active_pairs (w\<lparr>subscriptions := snd (update_where p
     (\<lambda>r. r\<lparr>su_metadata := (su_metadata r)(''first_digest_sent_at'' \<mapsto> s)\<rparr>) (subscriptions w))\<rparr>) \<longleftrightarrow>
    (d, u) \<in> active_pairs w" for d u
    unfolding active_pairs_iff
    by (simp split del: if_split del: set_map add: update_where_def bex_map u)
  then show ?thesis by auto
qed

lemma delivery_stable_view:
  assumes "\<And>w fs. f (w\<lparr>sql_faults := fs\<rparr>) = f w"
    and "\<And>w w'. only_mails_differ w w' \<Longrightarrow> f w' = f w"
    and "\<And>w ev. f (write_audit ev w) = f w"
    and "\<And>w ts. f (w\<lparr>tip_users := ts\<rparr>) = f w"
    and "\<And>w p s. f (w\<lparr>subscriptions := snd (update_where p
         (\<lambda>r. r\<lparr>su_metadata := (su_metadata r)(''first_digest_sent_at'' \<mapsto> s)\<rparr>) (subscriptions w))\<rparr>) = f w"
  shows "delivery_stable (\<lambda>w. f w = v)"
  unfolding delivery_stable_def
proof (intro conjI allI impI)
  fix w w'
  assume "f w = v" "only_mails_differ w w'"
  with assms(2) [of w w'] show "f w' = v" by simp
qed (simp_all add: assms(1,3-))

lemma schedule_view_stable: "delivery_stable (\<lambda>w. schedule_view w = v)"
proof (rule delivery_stable_view)
  fix w w'
  assume o: "only_mails_differ w w'"
  then have "active_pairs w' = active_pairs w"
    by (intro active_pairs_cong) (simp add: only_mails_differ_def)
  with o show "schedule_view w' = schedule_view w"
    by (simp add: schedule_view_def only_mails_differ_def)
qed (simp_all add: schedule_view_def active_pairs_stamp)

lemma world_ok_stable: "delivery_stable world_ok"
proof -
  have "world_ok (w\<lparr>tip_users := snd (insert_or_ignore tip_user_key r (tip_users w))\<rparr>)"
    if "world_ok w" for w r
    using that by (simp add: world_ok_def tut.insert_unique)
  moreover have "world_ok w'" if "world_ok w" "only_mails_differ w w'" for w w'
    using that by (simp add: world_ok_def only_mails_differ_def)
  ultimately show ?thesis
    by (auto simp: delivery_stable_def intro!: world_ok_update_subs)
qed

end
