(* ===== verification/Cron.thy ===== *)
theory Cron
  imports Render
begin

text \<open>
  The daily pull sweep, the slowdown ladder it drives and the manual send
  (\<^verbatim>\<open>application/service/digest_cron_service.rs\<close>). The sweep threads its tally beside the world, so
  its computations are \<open>'a sweep\<close>: the tally survives an error. A claim transaction is explicit:
  what it wrote to the digest rows is undone by a rollback, a failed commit, or a panic; the
  sends inside it go through the pool and stay. \<open>row_locks\<close> are the rows other sessions hold.
  The clock read during a send is a function of digest and recipient.
\<close>

section \<open>The tally\<close>

record sweep_outcome =
  so_claimed :: nat
  so_sent_mails :: nat
  so_degraded :: "uuid list"
  so_mail_delivery_failures :: "uuid list"
  so_isolated_failures :: "uuid list"

definition empty_outcome :: sweep_outcome where
  "empty_outcome =
     \<lparr> so_claimed = 0, so_sent_mails = 0, so_degraded = [], so_mail_delivery_failures = [],
       so_isolated_failures = [] \<rparr>"

type_synonym 'a sweep = "sweep_outcome \<Rightarrow> world \<Rightarrow> 'a res \<times> sweep_outcome \<times> world"

definition run_io :: "'a io \<Rightarrow> 'a sweep" where
  "run_io m oc w = (case m w of (r, w') \<Rightarrow> (r, oc, w'))"

definition tally :: "(sweep_outcome \<Rightarrow> sweep_outcome) \<Rightarrow> unit sweep" where
  "tally f oc w = (Ok (), f oc, w)"

definition bind_sweep :: "'a sweep \<Rightarrow> ('a \<Rightarrow> 'b sweep) \<Rightarrow> 'b sweep" where
  "bind_sweep m f oc w =
     (case m oc w of
        (Ok a, oc', w') \<Rightarrow> f a oc' w'
      | (Err e, oc', w') \<Rightarrow> (Err e, oc', w')
      | (Panic, oc', w') \<Rightarrow> (Panic, oc', w'))"

definition log_event :: "audit_event \<Rightarrow> unit io" where
  "log_event ev w = (Ok (), write_audit ev w)"

section \<open>One digest\<close>

text \<open>
  The slowdown decision: a digest without recipients counts as engaged; a port that cannot
  answer holds the cadence.
\<close>

definition slowdown_check :: "engine \<Rightarrow> digest_row \<Rightarrow> uuid list \<Rightarrow> datetime \<Rightarrow> periodicity option io" where
  "slowdown_check eng digest user_ids since =
     (case (if user_ids = [] then Inr True
            else any_logged_in_since (slot_port (en_port eng)) user_ids since) of
        Inr False \<Rightarrow> return (next_rung (dr_periodicity digest))
      | Inr True \<Rightarrow> return None
      | Inl e \<Rightarrow> and_then (log_event (SlowdownSignalUnavailable (dr_id digest))) (\<lambda>_. return None))"

text \<open>The recipient loop; its state is the two failure flags. A panic of a send is not caught.\<close>

fun send_all ::
  "externals \<Rightarrow> engine \<Rightarrow> (uuid \<Rightarrow> uuid \<Rightarrow> datetime) \<Rightarrow> digest_row \<Rightarrow> datetime \<Rightarrow> recipient_row list \<Rightarrow>
     bool \<Rightarrow> string option \<Rightarrow> (bool \<times> string option) sweep" where
  "send_all X eng clock digest now [] mail_failure digest_failure oc w =
     (Ok (mail_failure, digest_failure), oc, w)"
| "send_all X eng clock digest now (r # rs) mail_failure digest_failure oc w =
     (case send_to_recipient X eng (clock (dr_id digest) (rr_user_id r)) digest r now w of
        (Ok (plan, mail_id), w') \<Rightarrow>
          send_all X eng clock digest now rs mail_failure digest_failure
            (oc\<lparr>so_sent_mails := so_sent_mails oc + 1\<rparr>) w'
      | (Err (MailDelivery why), w') \<Rightarrow>
          send_all X eng clock digest now rs True digest_failure oc w'
      | (Err e, w') \<Rightarrow>
          send_all X eng clock digest now rs mail_failure (Some (show_error (uuid_show X) e)) oc w'
      | (Panic, w') \<Rightarrow> (Panic, oc, w'))"

definition retry_tomorrow :: "externals \<Rightarrow> digest_row \<Rightarrow> datetime \<Rightarrow> bool \<Rightarrow> unit sweep" where
  "retry_tomorrow X digest now mail_failure =
     bind_sweep
       (tally (\<lambda>oc. if mail_failure
          then oc\<lparr>so_mail_delivery_failures := so_mail_delivery_failures oc @ [dr_id digest]\<rparr>
          else oc\<lparr>so_isolated_failures := so_isolated_failures oc @ [dr_id digest]\<rparr>)) (\<lambda>_.
     bind_sweep (run_io (expect (plus_days (cal X) (date_naive now) 1))) (\<lambda>tomorrow.
     bind_sweep (run_io (sql (update_digest (dr_id digest) (\<lambda>r. r\<lparr>dg_next_run_date := Some tomorrow\<rparr>)))) (\<lambda>_.
     run_io (return ()))))"

definition degrade :: "digest_row \<Rightarrow> periodicity option \<Rightarrow> nat \<Rightarrow> periodicity sweep" where
  "degrade digest degrade_to recipients =
     (case degrade_to of
        None \<Rightarrow> run_io (return (dr_periodicity digest))
      | Some nxt \<Rightarrow>
          bind_sweep (run_io (sql (update_digest (dr_id digest) (\<lambda>r. r\<lparr>dg_periodicity := nxt\<rparr>)))) (\<lambda>_.
          bind_sweep (run_io (log_event
            (DigestSlowdownDegraded (dr_id digest) (dr_periodicity digest) nxt recipients))) (\<lambda>_.
          bind_sweep (tally (\<lambda>oc. oc\<lparr>so_degraded := so_degraded oc @ [dr_id digest]\<rparr>)) (\<lambda>_.
          run_io (return nxt)))))"

definition vanished :: "externals \<Rightarrow> uuid \<Rightarrow> digest_error" where
  "vanished X i = SendFailed (''digest '' @ uuid_show X i @ '' vanished mid-batch (advance matched 0 rows)'')"

definition advance_digest ::
  "externals \<Rightarrow> digest_row \<Rightarrow> periodicity option \<Rightarrow> nat \<Rightarrow> datetime \<Rightarrow> unit sweep" where
  "advance_digest X digest degrade_to recipients now =
     bind_sweep (degrade digest degrade_to recipients) (\<lambda>cadence.
     bind_sweep (run_io (expect (advance (cal X) cadence (date_naive now)))) (\<lambda>advanced_to.
     bind_sweep (run_io (sql (update_digest (dr_id digest) (\<lambda>r. r\<lparr>dg_next_run_date := Some advanced_to\<rparr>)))) (\<lambda>n.
     run_io (if n = 0 then throw (vanished X (dr_id digest)) else return ()))))"

definition process_digest ::
  "externals \<Rightarrow> engine \<Rightarrow> (uuid \<Rightarrow> uuid \<Rightarrow> datetime) \<Rightarrow> digest_row \<Rightarrow> datetime \<Rightarrow> unit sweep" where
  "process_digest X eng clock digest now =
     bind_sweep (run_io (active_recipients (dr_id digest))) (\<lambda>recipients.
     let user_ids = map rr_user_id recipients in
     bind_sweep (run_io (expect (login_window_since (cal X) (dr_periodicity digest) now))) (\<lambda>since.
     bind_sweep (run_io (slowdown_check eng digest user_ids since)) (\<lambda>degrade_to.
     bind_sweep (send_all X eng clock digest now recipients False None) (\<lambda>(mail_failure, digest_failure).
     if mail_failure \<or> digest_failure \<noteq> None then retry_tomorrow X digest now mail_failure
     else advance_digest X digest degrade_to (length user_ids) now))))"

section \<open>The sweep\<close>

text \<open>\<^verbatim>\<open>FOR UPDATE SKIP LOCKED LIMIT 1\<close> over the due rows not processed in this run.\<close>

definition is_due :: "date \<Rightarrow> digest_rec \<Rightarrow> bool" where
  "is_due today r \<longleftrightarrow>
     dg_state r = Activated \<and> (case dg_next_run_date r of None \<Rightarrow> False | Some n \<Rightarrow> n \<le> today)"

definition due_queue :: "date \<Rightarrow> uuid list \<Rightarrow> world \<Rightarrow> digest_rec list" where
  "due_queue today processed w =
     sort_key (\<lambda>r. (case dg_next_run_date r of None \<Rightarrow> 0 | Some n \<Rightarrow> n, dg_id r))
       (filter (\<lambda>r. is_due today r \<and> dg_id r \<notin> set processed \<and> dg_id r \<notin> set (row_locks w)) (digests w))"

definition claim :: "date \<Rightarrow> uuid list \<Rightarrow> digest_row option io" where
  "claim today processed =
     select (\<lambda>w. case due_queue today processed w of [] \<Rightarrow> None | r # _ \<Rightarrow> Some (read_row r))"

text \<open>\<^verbatim>\<open>BEGIN\<close>, \<^verbatim>\<open>COMMIT\<close> and \<^verbatim>\<open>ROLLBACK\<close> are statements too, and may fail.\<close>

definition tx_statement :: "unit io" where
  "tx_statement = select (\<lambda>_. ())"

definition rollback_to :: "digest_rec list \<Rightarrow> world \<Rightarrow> world" where
  "rollback_to saved w = w\<lparr>digests := saved\<rparr>"

datatype iteration =
    Halt "unit res" sweep_outcome world
  | Continue "uuid list" sweep_outcome world

text \<open>The batch of a claimed digest, from the claim to the end of its transaction.\<close>

definition run_batch ::
  "externals \<Rightarrow> engine \<Rightarrow> (uuid \<Rightarrow> uuid \<Rightarrow> datetime) \<Rightarrow> datetime \<Rightarrow> uuid list \<Rightarrow> digest_row \<Rightarrow>
     sweep_outcome \<Rightarrow> world \<Rightarrow> iteration" where
  "run_batch X eng clock now processed digest oc w =
     (let saved = digests w in
      case process_digest X eng clock digest now oc w of
        (Ok _, oc', w') \<Rightarrow>
          (case tx_statement w' of
             (Ok _, w'') \<Rightarrow> Continue processed oc' w''
           | (r, w'') \<Rightarrow> Halt r oc' (rollback_to saved w''))
      | (Err e, oc', w') \<Rightarrow>
          (case tx_statement (rollback_to saved w') of
             (Ok _, w'') \<Rightarrow>
               Continue processed
                 (oc'\<lparr>so_isolated_failures := so_isolated_failures oc' @ [dr_id digest]\<rparr>)
                 (write_audit (DigestSendIsolated (dr_id digest)) w'')
           | (r, w'') \<Rightarrow> Halt r oc' w'')
      | (Panic, oc', w') \<Rightarrow> Halt Panic oc' (rollback_to saved w'))"

definition sweep_iteration ::
  "externals \<Rightarrow> engine \<Rightarrow> (uuid \<Rightarrow> uuid \<Rightarrow> datetime) \<Rightarrow> datetime \<Rightarrow> uuid list \<Rightarrow> sweep_outcome \<Rightarrow> world \<Rightarrow>
     iteration" where
  "sweep_iteration X eng clock now processed oc w =
     (case and_then tx_statement (\<lambda>_. claim (date_naive now) processed) w of
        (Ok None, w') \<Rightarrow> Halt (Ok ()) oc w'
      | (Ok (Some digest), w') \<Rightarrow>
          run_batch X eng clock now (processed @ [dr_id digest]) digest
            (oc\<lparr>so_claimed := so_claimed oc + 1\<rparr>) w'
      | (Err e, w') \<Rightarrow> Halt (Err e) oc w'
      | (Panic, w') \<Rightarrow> Halt Panic oc w')"

text \<open>The \<^verbatim>\<open>loop\<close>; \<open>None\<close> is a run that never ends.\<close>

partial_function (option) sweep_loop ::
  "externals \<Rightarrow> engine \<Rightarrow> (uuid \<Rightarrow> uuid \<Rightarrow> datetime) \<Rightarrow> datetime \<Rightarrow> uuid list \<Rightarrow> sweep_outcome \<Rightarrow> world \<Rightarrow>
     (unit res \<times> sweep_outcome \<times> world) option" where
  "sweep_loop X eng clock now processed oc w =
     (case sweep_iteration X eng clock now processed oc w of
        Halt r oc' w' \<Rightarrow> Some (r, oc', w')
      | Continue processed' oc' w' \<Rightarrow> sweep_loop X eng clock now processed' oc' w')"

declare sweep_loop.simps [code]

definition run_daily_pull ::
  "externals \<Rightarrow> engine \<Rightarrow> (uuid \<Rightarrow> uuid \<Rightarrow> datetime) \<Rightarrow> datetime \<Rightarrow> world \<Rightarrow>
     (sweep_outcome res \<times> world) option" where
  "run_daily_pull X eng clock now w =
     map_option (\<lambda>(r, oc, w').
         (case r of Ok _ \<Rightarrow> Ok oc | Err e \<Rightarrow> Err e | Panic \<Rightarrow> Panic, w'))
       (sweep_loop X eng clock now [] empty_outcome w)"

section \<open>The manual send\<close>

fun send_now_all ::
  "externals \<Rightarrow> engine \<Rightarrow> (uuid \<Rightarrow> uuid \<Rightarrow> datetime) \<Rightarrow> digest_row \<Rightarrow> datetime \<Rightarrow> recipient_row list \<Rightarrow>
     nat \<times> nat \<times> nat \<Rightarrow> (nat \<times> nat \<times> nat) io" where
  "send_now_all X eng clock digest now [] acc w = (Ok acc, w)"
| "send_now_all X eng clock digest now (r # rs) (sent, mail_fail, unexpected) w =
     (case send_to_recipient X eng (clock (dr_id digest) (rr_user_id r)) digest r now w of
        (Ok _, w') \<Rightarrow> send_now_all X eng clock digest now rs (sent + 1, mail_fail, unexpected) w'
      | (Err (MailDelivery why), w') \<Rightarrow>
          send_now_all X eng clock digest now rs (sent, mail_fail + 1, unexpected) w'
      | (Err e, w') \<Rightarrow> send_now_all X eng clock digest now rs (sent, mail_fail, unexpected + 1) w'
      | (Panic, w') \<Rightarrow> (Panic, w'))"

definition send_now ::
  "externals \<Rightarrow> engine \<Rightarrow> (uuid \<Rightarrow> uuid \<Rightarrow> datetime) \<Rightarrow> uuid \<Rightarrow> datetime \<Rightarrow> (nat \<times> nat \<times> nat) io" where
  "send_now X eng clock digest_id now =
     and_then (get_digest digest_id) (\<lambda>row.
       case row of
         None \<Rightarrow> throw (NotFound digest_id)
       | Some digest \<Rightarrow>
           and_then (active_recipients (dr_id digest)) (\<lambda>recipients.
             send_now_all X eng clock digest now recipients (0, 0, 0)))"

section \<open>Composition\<close>

lemma bind_sweep_Ok:
  assumes "bind_sweep m f oc w = (Ok b, oc', w')"
  obtains a oc1 w1 where "m oc w = (Ok a, oc1, w1)" "f a oc1 w1 = (Ok b, oc', w')"
  using assms by (auto simp: bind_sweep_def split: prod.splits res.splits)

lemma run_io_Ok: "run_io m oc w = (r, oc', w') \<longleftrightarrow> m w = (r, w') \<and> oc' = oc"
  by (auto simp: run_io_def split: prod.splits)

lemma run_io_bind_Ok:
  assumes "bind_sweep (run_io m) f oc w = (Ok b, oc', w')"
  obtains a w1 where "m w = (Ok a, w1)" "f a oc w1 = (Ok b, oc', w')"
  using assms by (auto simp: bind_sweep_def run_io_def split: prod.splits res.splits)

lemma expect_bind_Ok:
  assumes "bind_sweep (run_io (expect x)) f oc w = (Ok b, oc', w')"
  obtains a where "x = Some a" "f a oc w = (Ok b, oc', w')"
  by (rule run_io_bind_Ok [OF assms]) (use that in \<open>auto simp: expect_Ok\<close>)

definition sweep_preserves :: "(world \<Rightarrow> bool) \<Rightarrow> 'a sweep \<Rightarrow> bool" where
  "sweep_preserves P m \<longleftrightarrow> (\<forall>oc w. P w \<longrightarrow> P (snd (snd (m oc w))))"

lemma sweep_preserves_bind [intro]:
  assumes "sweep_preserves P m" "\<And>a. sweep_preserves P (f a)"
  shows "sweep_preserves P (bind_sweep m f)"
  unfolding sweep_preserves_def
proof (intro allI impI)
  fix oc w
  assume "P w"
  obtain r oc1 w1 where m: "m oc w = (r, oc1, w1)" by (cases "m oc w") auto
  with \<open>P w\<close> assms(1) have "P w1" unfolding sweep_preserves_def by (metis snd_conv)
  with m assms(2) show "P (snd (snd (bind_sweep m f oc w)))"
    by (cases r) (auto simp: bind_sweep_def sweep_preserves_def)
qed

lemma sweep_preserves_run_io [intro]: "preserves P m \<Longrightarrow> sweep_preserves P (run_io m)"
  by (auto simp: sweep_preserves_def preserves_def run_io_def split: prod.splits)

lemma sweep_preserves_tally [intro]: "sweep_preserves P (tally f)"
  by (simp add: sweep_preserves_def tally_def)

lemma sweep_preservesD: "sweep_preserves P m \<Longrightarrow> P w \<Longrightarrow> m oc w = (r, oc', w') \<Longrightarrow> P w'"
  unfolding sweep_preserves_def by (metis snd_conv)

text \<open>
  A predicate that survives updates of digest rows in place and audit events, and one that survives
  deliveries too.
\<close>

definition row_stable :: "(world \<Rightarrow> bool) \<Rightarrow> bool" where
  "row_stable P \<longleftrightarrow>
     (\<forall>w fs. P w \<longrightarrow> P (w\<lparr>sql_faults := fs\<rparr>)) \<and> (\<forall>w ev. P w \<longrightarrow> P (write_audit ev w)) \<and>
     (\<forall>w i f. (\<forall>r. dg_id (f r) = dg_id r) \<longrightarrow> P w \<longrightarrow> P (snd (update_digest i f w)))"

definition batch_stable :: "(world \<Rightarrow> bool) \<Rightarrow> bool" where
  "batch_stable P \<longleftrightarrow> delivery_stable P \<and>
     (\<forall>w i f. (\<forall>r. dg_id (f r) = dg_id r) \<longrightarrow> P w \<longrightarrow> P (snd (update_digest i f w)))"

lemma batch_stable_row: "batch_stable P \<Longrightarrow> row_stable P"
  by (auto simp: batch_stable_def row_stable_def delivery_stable_def)

lemma row_stable_preserves:
  assumes "row_stable P"
  shows "reads_only m \<Longrightarrow> preserves P m"
    and "preserves P (log_event ev)"
    and "(\<And>r. dg_id (f r) = dg_id r) \<Longrightarrow> preserves P (sql (update_digest i f))"
  using assms
  by (auto simp: row_stable_def log_event_def preserves_def [of P "log_event ev"]
      intro: reads_only_preserves preserves_sql)

lemma retry_tomorrow_preserves:
  assumes "row_stable P"
  shows "sweep_preserves P (retry_tomorrow X d now mf)"
  unfolding retry_tomorrow_def
  by (intro sweep_preserves_bind sweep_preserves_tally sweep_preserves_run_io row_stable_preserves [OF assms]
      preserves_return) auto

lemma advance_digest_preserves:
  assumes "row_stable P"
  shows "sweep_preserves P (advance_digest X d deg n now)"
proof -
  note b = row_stable_preserves [OF assms]
  have "sweep_preserves P (degrade d deg n)"
    unfolding degrade_def
    by (auto split: option.split intro!: sweep_preserves_bind sweep_preserves_tally sweep_preserves_run_io b)
  then show ?thesis
    unfolding advance_digest_def
    by (intro sweep_preserves_bind sweep_preserves_run_io) (auto intro!: b)
qed

lemma slowdown_preserves:
  assumes "row_stable P"
  shows "preserves P (slowdown_check eng d us since)"
  using row_stable_preserves(2) [OF assms]
  by (auto simp: slowdown_check_def split: sum.split bool.split if_splits intro!: preserves_and_then)

lemma send_all_preserves:
  assumes "mail_seam (en_mail_seam eng)" "delivery_stable P"
  shows "P w \<Longrightarrow> P (snd (snd (send_all X eng clock d now rs mf df oc w)))"
proof (induction rs arbitrary: mf df oc w)
  case (Cons r rs)
  obtain res w1 where s: "send_to_recipient X eng (clock (dr_id d) (rr_user_id r)) d r now w = (res, w1)"
    by (cases "send_to_recipient X eng (clock (dr_id d) (rr_user_id r)) d r now w") auto
  have "P w1" using preservesD [OF send_to_recipient_preserves [OF assms] Cons.prems s] .
  then show ?case
    using s Cons.IH by (cases res) (auto split: digest_error.split prod.split)
qed simp

lemma send_all_result:
  "send_all X eng clock d now rs mf df oc w = (r, oc', w') \<Longrightarrow>
     (\<exists>n. oc' = oc\<lparr>so_sent_mails := n\<rparr>) \<and> (\<forall>e. r \<noteq> Err e)"
proof (induction rs arbitrary: mf df oc w)
  case Nil
  then show ?case by (auto intro: exI [of _ "so_sent_mails oc"])
next
  case (Cons x rs)
  obtain res w1 where s: "send_to_recipient X eng (clock (dr_id d) (rr_user_id x)) d x now w = (res, w1)"
    by (cases "send_to_recipient X eng (clock (dr_id d) (rr_user_id x)) d x now w") auto
  show ?case
  proof (cases res)
    case (Ok pm)
    with s Cons.prems Cons.IH [of mf df "oc\<lparr>so_sent_mails := so_sent_mails oc + 1\<rparr>" w1] show ?thesis
      by (cases pm) (auto simp: sweep_outcome.update_convs)
  next
    case (Err e)
    with s Cons.prems Cons.IH show ?thesis by (cases e) auto
  next
    case Panic
    with s Cons.prems show ?thesis by (auto intro: exI [of _ "so_sent_mails oc"])
  qed
qed

lemma process_digest_preserves:
  assumes "mail_seam (en_mail_seam eng)" "batch_stable P"
  shows "sweep_preserves P (process_digest X eng clock d now)"
proof -
  note row = batch_stable_row [OF assms(2)]
  have "sweep_preserves P (send_all X eng clock d now rs mf df)" for rs mf df
    using send_all_preserves [OF assms(1), of P] assms(2)
    by (auto simp: sweep_preserves_def batch_stable_def)
  then show ?thesis
    unfolding process_digest_def Let_def active_recipients_def
    by (intro sweep_preserves_bind sweep_preserves_run_io slowdown_preserves row_stable_preserves(1) row)
      (auto intro: retry_tomorrow_preserves advance_digest_preserves row split: prod.split)
qed

section \<open>What a batch does to the digest rows\<close>

definition set_row :: "uuid \<Rightarrow> (digest_rec \<Rightarrow> digest_rec) \<Rightarrow> digest_rec list \<Rightarrow> digest_rec list" where
  "set_row i f rows = map (\<lambda>r. if dg_id r = i then f r else r) rows"

lemma digests_update [simp]: "digests (snd (update_digest i f w)) = set_row i f (digests w)"
  by (simp add: update_digest_def update_where_def set_row_def)

lemma set_row_comp: "(\<And>r. dg_id (f r) = dg_id r) \<Longrightarrow> set_row i g (set_row i f rows) = set_row i (g \<circ> f) rows"
  by (simp add: set_row_def comp_def)

lemma map_ids_set_row: "(\<And>r. dg_id (f r) = dg_id r) \<Longrightarrow> map dg_id (set_row i f rows) = map dg_id rows"
  by (induction rows) (auto simp: set_row_def)

lemma ids_set_row: "(\<And>r. dg_id (f r) = dg_id r) \<Longrightarrow> dg_id ` set (set_row i f rows) = dg_id ` set rows"
  using map_ids_set_row [of f i rows] by (metis set_map)

lemma sql_update_Ok:
  assumes "sql (update_digest i f) w = (Ok n, w')"
  shows "digests w' = set_row i f (digests w)" "n = 0 \<longleftrightarrow> i \<notin> dg_id ` set (digests w)"
proof -
  obtain fs where u: "update_digest i f (w\<lparr>sql_faults := fs\<rparr>) = (n, w')"
    using sql_Ok [OF assms] by blast
  then have "snd (update_digest i f (w\<lparr>sql_faults := fs\<rparr>)) = w'" by simp
  then show "digests w' = set_row i f (digests w)"
    using digests_update [of i f "w\<lparr>sql_faults := fs\<rparr>"] by simp
  show "n = 0 \<longleftrightarrow> i \<notin> dg_id ` set (digests w)"
    using update_digest_count [of i f "w\<lparr>sql_faults := fs\<rparr>"] u by simp
qed

lemma log_event_Ok: "log_event ev w = (r, w') \<Longrightarrow> r = Ok () \<and> w' = write_audit ev w"
  by (simp add: log_event_def)

definition degraded_row :: "periodicity option \<Rightarrow> digest_rec \<Rightarrow> digest_rec" where
  "degraded_row deg r = (case deg of None \<Rightarrow> r | Some q \<Rightarrow> r\<lparr>dg_periodicity := q\<rparr>)"

lemma degraded_row_simps [simp]:
  "dg_id (degraded_row deg r) = dg_id r" "dg_state (degraded_row deg r) = dg_state r"
  "dg_next_run_date (degraded_row deg r) = dg_next_run_date r"
  "dg_periodicity (degraded_row deg r) = (case deg of None \<Rightarrow> dg_periodicity r | Some q \<Rightarrow> q)"
  by (simp_all add: degraded_row_def split: option.split)

lemma degrade_Ok:
  assumes "degrade d deg n oc w = (Ok c, oc', w')"
  shows "c = (case deg of None \<Rightarrow> dr_periodicity d | Some q \<Rightarrow> q)"
    and "digests w' = set_row (dr_id d) (degraded_row deg) (digests w)"
    and "oc' = (case deg of None \<Rightarrow> oc | Some q \<Rightarrow> oc\<lparr>so_degraded := so_degraded oc @ [dr_id d]\<rparr>)"
proof -
  have "c = (case deg of None \<Rightarrow> dr_periodicity d | Some q \<Rightarrow> q) \<and>
    digests w' = set_row (dr_id d) (degraded_row deg) (digests w) \<and>
    oc' = (case deg of None \<Rightarrow> oc | Some q \<Rightarrow> oc\<lparr>so_degraded := so_degraded oc @ [dr_id d]\<rparr>)"
  proof (cases deg)
    case None
    with assms show ?thesis
      by (auto simp: degrade_def run_io_def return_def degraded_row_def set_row_def intro!: map_idI [symmetric])
  next
    case (Some q)
    then have "degraded_row deg = (\<lambda>r. r\<lparr>dg_periodicity := q\<rparr>)" by (simp add: degraded_row_def fun_eq_iff)
    with assms Some show ?thesis
      unfolding degrade_def
      by (auto elim!: bind_sweep_Ok simp: run_io_Ok tally_def return_def
          dest!: log_event_Ok sql_update_Ok(1))
  qed
  then show "c = (case deg of None \<Rightarrow> dr_periodicity d | Some q \<Rightarrow> q)"
    and "digests w' = set_row (dr_id d) (degraded_row deg) (digests w)"
    and "oc' = (case deg of None \<Rightarrow> oc | Some q \<Rightarrow> oc\<lparr>so_degraded := so_degraded oc @ [dr_id d]\<rparr>)"
    by blast+
qed

lemma advance_digest_Ok:
  assumes "advance_digest X d deg k now oc w = (Ok (), oc', w')"
  obtains n where "advance (cal X) (case deg of None \<Rightarrow> dr_periodicity d | Some q \<Rightarrow> q) (date_naive now) = Some n"
    and "digests w' = set_row (dr_id d) (\<lambda>r. (degraded_row deg r)\<lparr>dg_next_run_date := Some n\<rparr>) (digests w)"
    and "dr_id d \<in> dg_id ` set (digests w)"
    and "oc' = (case deg of None \<Rightarrow> oc | Some q \<Rightarrow> oc\<lparr>so_degraded := so_degraded oc @ [dr_id d]\<rparr>)"
proof -
  from assms obtain c oc1 w1 where
    dg: "degrade d deg k oc w = (Ok c, oc1, w1)"
    and r1: "bind_sweep (run_io (expect (advance (cal X) c (date_naive now)))) (\<lambda>n.
     bind_sweep (run_io (sql (update_digest (dr_id d) (\<lambda>r. r\<lparr>dg_next_run_date := Some n\<rparr>)))) (\<lambda>m.
     run_io (if m = 0 then throw (vanished X (dr_id d)) else return ()))) oc1 w1 = (Ok (), oc', w')"
    unfolding advance_digest_def by (rule bind_sweep_Ok)
  from r1 obtain n where adv: "advance (cal X) c (date_naive now) = Some n"
    and r2: "bind_sweep (run_io (sql (update_digest (dr_id d) (\<lambda>r. r\<lparr>dg_next_run_date := Some n\<rparr>)))) (\<lambda>m.
     run_io (if m = 0 then throw (vanished X (dr_id d)) else return ())) oc1 w1 = (Ok (), oc', w')"
    by (rule expect_bind_Ok)
  from r2 obtain m w2 where
    up: "sql (update_digest (dr_id d) (\<lambda>r. r\<lparr>dg_next_run_date := Some n\<rparr>)) w1 = (Ok m, w2)"
    and r3: "run_io (if m = 0 then throw (vanished X (dr_id d)) else return ()) oc1 w2 = (Ok (), oc', w')"
    by (rule run_io_bind_Ok)
  from r3 have fin: "(if m = 0 then throw (vanished X (dr_id d)) else return ()) w2 = (Ok (), w')" "oc' = oc1"
    by (simp_all only: run_io_Ok)
  have m: "m \<noteq> 0" "w' = w2" using fin(1) by (auto simp: throw_def return_def split: if_splits)
  note d = degrade_Ok [OF dg]
  show ?thesis
  proof (rule that)
    show "advance (cal X) (case deg of None \<Rightarrow> dr_periodicity d | Some q \<Rightarrow> q) (date_naive now) = Some n"
      using adv d(1) by simp
    show "digests w' = set_row (dr_id d) (\<lambda>r. (degraded_row deg r)\<lparr>dg_next_run_date := Some n\<rparr>) (digests w)"
      unfolding m(2) sql_update_Ok(1) [OF up] d(2)
      by (subst set_row_comp) (simp_all add: comp_def)
    show "dr_id d \<in> dg_id ` set (digests w)"
      using sql_update_Ok(2) [OF up] m(1) unfolding d(2) ids_set_row [OF degraded_row_simps(1)] by simp
    show "oc' = (case deg of None \<Rightarrow> oc | Some q \<Rightarrow> oc\<lparr>so_degraded := so_degraded oc @ [dr_id d]\<rparr>)"
      using d(3) fin(2) by simp
  qed
qed

lemma retry_tomorrow_Ok:
  assumes "retry_tomorrow X d now mf oc w = (Ok (), oc', w')"
  obtains t where "plus_days (cal X) (date_naive now) 1 = Some t"
    and "digests w' = set_row (dr_id d) (\<lambda>r. r\<lparr>dg_next_run_date := Some t\<rparr>) (digests w)"
    and "oc' = (if mf then oc\<lparr>so_mail_delivery_failures := so_mail_delivery_failures oc @ [dr_id d]\<rparr>
          else oc\<lparr>so_isolated_failures := so_isolated_failures oc @ [dr_id d]\<rparr>)"
proof -
  from assms obtain oc1 where
    oc1: "oc1 = (if mf then oc\<lparr>so_mail_delivery_failures := so_mail_delivery_failures oc @ [dr_id d]\<rparr>
          else oc\<lparr>so_isolated_failures := so_isolated_failures oc @ [dr_id d]\<rparr>)"
    and r1: "bind_sweep (run_io (expect (plus_days (cal X) (date_naive now) 1))) (\<lambda>tomorrow.
     bind_sweep (run_io (sql (update_digest (dr_id d) (\<lambda>r. r\<lparr>dg_next_run_date := Some tomorrow\<rparr>)))) (\<lambda>_.
     run_io (return ()))) oc1 w = (Ok (), oc', w')"
    unfolding retry_tomorrow_def by (rule bind_sweep_Ok) (simp add: tally_def)
  from r1 obtain t where t: "plus_days (cal X) (date_naive now) 1 = Some t"
    and r2: "bind_sweep (run_io (sql (update_digest (dr_id d) (\<lambda>r. r\<lparr>dg_next_run_date := Some t\<rparr>)))) (\<lambda>_.
     run_io (return ())) oc1 w = (Ok (), oc', w')"
    by (rule expect_bind_Ok)
  from r2 obtain n w2 where
    up: "sql (update_digest (dr_id d) (\<lambda>r. r\<lparr>dg_next_run_date := Some t\<rparr>)) w = (Ok n, w2)"
    and r3: "run_io (return ()) oc1 w2 = (Ok (), oc', w')"
    by (rule run_io_bind_Ok)
  from r3 have fin: "w' = w2" and oc: "oc' = oc1" by (simp_all add: run_io_Ok return_def)
  with that [OF t] sql_update_Ok(1) [OF up] oc1 show ?thesis by simp
qed

text \<open>The recipients of a digest, and the rung the slowdown check decides on.\<close>

definition recipients_of :: "uuid \<Rightarrow> world \<Rightarrow> recipient_row list" where
  "recipients_of i w =
     map (\<lambda>r. \<lparr> rr_user_id = su_user_id r, rr_metadata = su_metadata r \<rparr>)
       (sort_key su_user_id
         (filter (\<lambda>r. su_digest_id r = i \<and> su_state r = Subscribed \<and> not_deleted (su_metadata r))
           (subscriptions w)))"

definition degrade_decision :: "engine \<Rightarrow> periodicity \<Rightarrow> uuid list \<Rightarrow> datetime \<Rightarrow> periodicity option" where
  "degrade_decision eng p user_ids since =
     (if user_ids \<noteq> [] \<and> any_logged_in_since (slot_port (en_port eng)) user_ids since = Inr False
      then next_rung p else None)"

lemma recipients_of_faults [simp]: "recipients_of i (w\<lparr>sql_faults := fs\<rparr>) = recipients_of i w"
  by (simp add: recipients_of_def)

lemma active_recipients_Ok: "active_recipients i w = (Ok rs, w') \<Longrightarrow> rs = recipients_of i w"
  unfolding active_recipients_def by (elim select_Ok) (simp add: recipients_of_def)

lemma recipients_of_ids:
  "set (map rr_user_id (recipients_of i w)) = {u. (i, u) \<in> active_pairs w}"
  by (force simp: recipients_of_def active_pairs_iff unsubscribable_def)

lemma slowdown_check_Ok:
  "slowdown_check eng d us since w = (Ok deg, w') \<Longrightarrow> deg = degrade_decision eng (dr_periodicity d) us since"
  by (auto simp: slowdown_check_def degrade_decision_def return_def log_event_def and_then_def
      split: sum.splits bool.splits if_splits)

lemma schedule_view_audit: "schedule_view (write_audit ev w) = schedule_view w"
  by (simp add: schedule_view_def)

lemma slowdown_check_view: "schedule_view (snd (slowdown_check eng d us since w)) = schedule_view w"
  by (simp add: slowdown_check_def return_def log_event_def and_then_def schedule_view_audit
      split: sum.split bool.split)

text \<open>The world in which the batch sends its first mail.\<close>

definition sending_from :: "engine \<Rightarrow> digest_row \<Rightarrow> datetime \<Rightarrow> world \<Rightarrow> world" where
  "sending_from eng d since w =
     snd (slowdown_check eng d (map rr_user_id (recipients_of (dr_id d) w)) since (snd (active_recipients (dr_id d) w)))"

lemma process_digest_Ok:
  assumes "process_digest X eng clock d now oc w = (Ok (), oc', w')" "mail_seam (en_mail_seam eng)"
  obtains since deg mf df oc1 w1 w2 where
    "login_window_since (cal X) (dr_periodicity d) now = Some since"
    "deg = degrade_decision eng (dr_periodicity d) (map rr_user_id (recipients_of (dr_id d) w)) since"
    "send_all X eng clock d now (recipients_of (dr_id d) w) False None oc w1 = (Ok (mf, df), oc1, w2)"
    "schedule_view w1 = schedule_view w" "schedule_view w2 = schedule_view w"
    "(if mf \<or> df \<noteq> None then retry_tomorrow X d now mf
      else advance_digest X d deg (length (recipients_of (dr_id d) w)) now) oc1 w2 = (Ok (), oc', w')"
    "w1 = sending_from eng d since w"
proof -
  let ?rs = "recipients_of (dr_id d) w"
  from assms(1) obtain rs w0 where ar: "active_recipients (dr_id d) w = (Ok rs, w0)"
    and r1: "bind_sweep (run_io (expect (login_window_since (cal X) (dr_periodicity d) now))) (\<lambda>since.
     bind_sweep (run_io (slowdown_check eng d (map rr_user_id rs) since)) (\<lambda>degrade_to.
     bind_sweep (send_all X eng clock d now rs False None) (\<lambda>(mail_failure, digest_failure).
     if mail_failure \<or> digest_failure \<noteq> None then retry_tomorrow X d now mail_failure
     else advance_digest X d degrade_to (length (map rr_user_id rs)) now))) oc w0 = (Ok (), oc', w')"
    unfolding process_digest_def Let_def by (rule run_io_bind_Ok)
  from r1 obtain since where since: "login_window_since (cal X) (dr_periodicity d) now = Some since"
    and r2: "bind_sweep (run_io (slowdown_check eng d (map rr_user_id rs) since)) (\<lambda>degrade_to.
     bind_sweep (send_all X eng clock d now rs False None) (\<lambda>(mail_failure, digest_failure).
     if mail_failure \<or> digest_failure \<noteq> None then retry_tomorrow X d now mail_failure
     else advance_digest X d degrade_to (length (map rr_user_id rs)) now)) oc w0 = (Ok (), oc', w')"
    by (rule expect_bind_Ok)
  from r2 obtain deg w1 where sl: "slowdown_check eng d (map rr_user_id rs) since w0 = (Ok deg, w1)"
    and r3: "bind_sweep (send_all X eng clock d now rs False None) (\<lambda>(mail_failure, digest_failure).
     if mail_failure \<or> digest_failure \<noteq> None then retry_tomorrow X d now mail_failure
     else advance_digest X d deg (length (map rr_user_id rs)) now) oc w1 = (Ok (), oc', w')"
    by (rule run_io_bind_Ok)
  from r3 obtain flags oc1 w2 where se: "send_all X eng clock d now rs False None oc w1 = (Ok flags, oc1, w2)"
    and r4: "(case flags of (mail_failure, digest_failure) \<Rightarrow>
     if mail_failure \<or> digest_failure \<noteq> None then retry_tomorrow X d now mail_failure
     else advance_digest X d deg (length (map rr_user_id rs)) now) oc1 w2 = (Ok (), oc', w')"
    by (rule bind_sweep_Ok)
  obtain mf df where flags: "flags = (mf, df)" by (cases flags) auto
  have rs: "rs = ?rs" by (rule active_recipients_Ok [OF ar])
  have st: "delivery_stable (\<lambda>v. schedule_view v = schedule_view w)" by (rule schedule_view_stable)
  have "schedule_view w0 = schedule_view w"
    using reads_onlyD [OF reads_only_select ar [unfolded active_recipients_def]]
    by (auto simp: schedule_view_def)
  then have v1: "schedule_view w1 = schedule_view w"
    using slowdown_check_view [of eng d "map rr_user_id rs" since w0] unfolding sl by simp
  moreover have "schedule_view w2 = schedule_view w"
    using send_all_preserves [OF assms(2) st v1, of X clock d now rs False None oc] se by simp
  moreover have "w1 = sending_from eng d since w"
    using ar sl by (simp add: sending_from_def rs)
  ultimately show ?thesis
    using that [OF since slowdown_check_Ok [OF sl [unfolded rs]] se [unfolded rs flags]]
      r4 [unfolded rs flags prod.case length_map] by blast
qed

text \<open>The two ways a batch ends well: held until tomorrow, or advanced.\<close>

lemma process_digest_cases [consumes 2]:
  assumes "process_digest X eng clock (read_row r0) now oc w = (Ok (), oc', w')"
    and "mail_seam (en_mail_seam eng)"
  obtains (held) since t flags oc1 w1 w2 where
    "login_window_since (cal X) (dg_periodicity r0) now = Some since"
    "send_all X eng clock (read_row r0) now (recipients_of (dg_id r0) w) False None oc w1 = (Ok flags, oc1, w2)"
    "plus_days (cal X) (date_naive now) 1 = Some t"
    "digests w' = set_row (dg_id r0) (\<lambda>r. r\<lparr>dg_next_run_date := Some t\<rparr>) (digests w)"
    "oc' = (if fst flags then oc1\<lparr>so_mail_delivery_failures := so_mail_delivery_failures oc1 @ [dg_id r0]\<rparr>
          else oc1\<lparr>so_isolated_failures := so_isolated_failures oc1 @ [dg_id r0]\<rparr>)"
    "w1 = sending_from eng (read_row r0) since w" "fst flags \<or> snd flags \<noteq> None"
  | (advanced) since deg n flags oc1 w1 w2 where
    "login_window_since (cal X) (dg_periodicity r0) now = Some since"
    "send_all X eng clock (read_row r0) now (recipients_of (dg_id r0) w) False None oc w1 = (Ok flags, oc1, w2)"
    "deg = degrade_decision eng (dg_periodicity r0) (map rr_user_id (recipients_of (dg_id r0) w)) since"
    "advance (cal X) (case deg of None \<Rightarrow> dg_periodicity r0 | Some q \<Rightarrow> q) (date_naive now) = Some n"
    "digests w' = set_row (dg_id r0) (\<lambda>r. (degraded_row deg r)\<lparr>dg_next_run_date := Some n\<rparr>) (digests w)"
    "oc' = (case deg of None \<Rightarrow> oc1 | Some q \<Rightarrow> oc1\<lparr>so_degraded := so_degraded oc1 @ [dg_id r0]\<rparr>)"
    "w1 = sending_from eng (read_row r0) since w" "flags = (False, None)"
proof (rule process_digest_Ok [OF assms], unfold read_row_simps)
  fix since deg mf df oc1 w1 w2
  assume since: "login_window_since (cal X) (dg_periodicity r0) now = Some since"
    and deg: "deg = degrade_decision eng (dg_periodicity r0) (map rr_user_id (recipients_of (dg_id r0) w)) since"
    and sent: "send_all X eng clock (read_row r0) now (recipients_of (dg_id r0) w) False None oc w1
      = (Ok (mf, df), oc1, w2)"
    and v: "schedule_view w2 = schedule_view w" and w1: "w1 = sending_from eng (read_row r0) since w"
    and fin: "(if mf \<or> df \<noteq> None then retry_tomorrow X (read_row r0) now mf
      else advance_digest X (read_row r0) deg (length (recipients_of (dg_id r0) w)) now)
      oc1 w2 = (Ok (), oc', w')"
  have D: "digests w2 = digests w" using v by (simp add: schedule_view_def)
  show thesis
  proof (cases "mf \<or> df \<noteq> None")
    case True
    then have "retry_tomorrow X (read_row r0) now mf oc1 w2 = (Ok (), oc', w')"
      using fin by (simp only: if_True)
    then show ?thesis
      by (rule retry_tomorrow_Ok) (use held [OF since sent] D w1 True in simp)
  next
    case False
    then have "advance_digest X (read_row r0) deg (length (recipients_of (dg_id r0) w)) now oc1 w2
        = (Ok (), oc', w')"
      using fin by (simp only: if_False)
    then show ?thesis
      by (rule advance_digest_Ok) (use advanced [OF since sent deg] D w1 False in \<open>simp cong: option.case_cong\<close>)
  qed
qed

section \<open>The sweep invariant\<close>

text \<open>How a batch may leave the row it claimed: due tomorrow, or advanced by at most one rung.\<close>

definition settled :: "externals \<Rightarrow> date \<Rightarrow> digest_rec \<Rightarrow> digest_rec \<Rightarrow> bool" where
  "settled X today r0 r \<longleftrightarrow>
     (\<exists>n. plus_days (cal X) today 1 = Some n \<and> r = r0\<lparr>dg_next_run_date := Some n\<rparr>) \<or>
     (\<exists>c n. (c = dg_periodicity r0 \<or> next_rung (dg_periodicity r0) = Some c) \<and>
        advance (cal X) c today = Some n \<and> r = r0\<lparr>dg_periodicity := c, dg_next_run_date := Some n\<rparr>)"

lemma settled_id: "settled X today r0 r \<Longrightarrow> dg_id r = dg_id r0"
  by (auto simp: settled_def)

lemma settled_not_due:
  assumes "settled X today r0 r" "chrono_calendar (cal X)" "date_min (cal X) \<le> today" "today \<le> date_max (cal X)"
  shows "\<not> is_due today r"
  using assms chrono_calendar.advance_forward [OF assms(2-4)]
  by (auto simp: settled_def is_due_def plus_days_def split: if_splits dest!: chrono_calendar.advance_forward)

lemma settled_ladder: "settled X today r0 r \<Longrightarrow>
    dg_periodicity r = dg_periodicity r0 \<or> next_rung (dg_periodicity r0) = Some (dg_periodicity r)"
  by (auto simp: settled_def)

lemma degrade_decision_cases: "degrade_decision eng p us s = None \<or> degrade_decision eng p us s = next_rung p"
  by (simp add: degrade_decision_def)

lemma process_settles:
  assumes "process_digest X eng clock (read_row r0) now oc w = (Ok (), oc', w')"
    and "mail_seam (en_mail_seam eng)"
  obtains f where "digests w' = set_row (dg_id r0) f (digests w)" "settled X (date_naive now) r0 (f r0)"
    "\<And>r. dg_id (f r) = dg_id r"
  using assms
proof (cases rule: process_digest_cases)
  case (held since t flags oc1 w1 w2)
  then show ?thesis
    by (intro that [of "\<lambda>r. r\<lparr>dg_next_run_date := Some t\<rparr>"]) (auto simp: settled_def)
next
  case (advanced since deg n flags oc1 w1 w2)
  have "deg = None \<or> deg = next_rung (dg_periodicity r0)"
    unfolding advanced(3) by (simp add: degrade_decision_def)
  then have "settled X (date_naive now) r0 ((degraded_row deg r0)\<lparr>dg_next_run_date := Some n\<rparr>)"
    using advanced(4) unfolding settled_def degraded_row_def
    by (cases deg; cases "next_rung (dg_periodicity r0)") auto
  with advanced(5) show ?thesis
    by (intro that [of "\<lambda>r. (degraded_row deg r)\<lparr>dg_next_run_date := Some n\<rparr>"]) simp_all
qed

definition rest_view ::
  "world \<Rightarrow> kpi_rec list \<times> tip_rec list \<times> (uuid \<times> uuid) set \<times> uuid list \<times> uuid list" where
  "rest_view w = (digest_kpis w, tips w, active_pairs w, row_locks w, map dg_id (digests w))"

lemma rest_view_schedule: "schedule_view w' = schedule_view w \<Longrightarrow> rest_view w' = rest_view w"
  by (simp add: rest_view_def schedule_view_def)

lemma rest_view_frame [simp]:
  "rest_view (w\<lparr>sql_faults := fs\<rparr>) = rest_view w" "rest_view (write_audit ev w) = rest_view w"
  by (simp_all add: rest_view_def)

lemma batch_stable_rest: "batch_stable (\<lambda>w. rest_view w = v)"
proof -
  have "delivery_stable (\<lambda>w. rest_view w = v)"
  proof (rule delivery_stable_view)
    fix w w'
    assume o: "only_mails_differ w w'"
    then have "active_pairs w' = active_pairs w"
      by (intro active_pairs_cong) (simp add: only_mails_differ_def)
    with o show "rest_view w' = rest_view w" by (simp add: rest_view_def only_mails_differ_def)
  qed (simp_all add: rest_view_def active_pairs_stamp)
  moreover have "rest_view (snd (update_digest i f w)) = rest_view w" if "\<And>r. dg_id (f r) = dg_id r" for i f w
  proof -
    have "active_pairs (snd (update_digest i f w)) = active_pairs w"
      by (rule active_pairs_cong) simp
    then show ?thesis using that by (simp add: rest_view_def map_ids_set_row)
  qed
  ultimately show ?thesis by (simp add: batch_stable_def)
qed

lemma batch_stable_ok: "batch_stable world_ok"
  by (simp add: batch_stable_def world_ok_stable world_ok_update_digest)

text \<open>The tally of a batch only grows.\<close>

definition grows :: "sweep_outcome \<Rightarrow> sweep_outcome \<Rightarrow> bool" where
  "grows oc oc' \<longleftrightarrow>
     so_claimed oc' = so_claimed oc \<and> set (so_isolated_failures oc) \<subseteq> set (so_isolated_failures oc') \<and>
     set (so_mail_delivery_failures oc) \<subseteq> set (so_mail_delivery_failures oc')"

definition grower :: "'a sweep \<Rightarrow> bool" where
  "grower m \<longleftrightarrow> (\<forall>oc w. grows oc (fst (snd (m oc w))))"

lemma grows_refl [simp]: "grows oc oc"
  by (simp add: grows_def)

lemma grower_bind [intro]:
  assumes "grower m" "\<And>a. grower (f a)"
  shows "grower (bind_sweep m f)"
  unfolding grower_def
proof (intro allI)
  fix oc w
  obtain r oc1 w1 where m: "m oc w = (r, oc1, w1)" by (cases "m oc w") auto
  with assms(1) have g: "grows oc oc1" unfolding grower_def by (metis fst_conv snd_conv)
  show "grows oc (fst (snd (bind_sweep m f oc w)))"
  proof (cases r)
    case (Ok a)
    have "grows oc1 (fst (snd (f a oc1 w1)))" using assms(2) [of a] by (simp add: grower_def)
    with g Ok m show ?thesis by (auto simp: bind_sweep_def grows_def)
  qed (use m g in \<open>auto simp: bind_sweep_def\<close>)
qed

lemma grower_run_io [intro]: "grower (run_io m)"
  by (simp add: grower_def run_io_def split: prod.split)

lemma grower_tally: "(\<And>oc. grows oc (f oc)) \<Longrightarrow> grower (tally f)"
  by (simp add: grower_def tally_def)

lemma grower_process: "grower (process_digest X eng clock d now)"
proof -
  have "grower (send_all X eng clock d now rs mf df)" for rs mf df
    unfolding grower_def
  proof (intro allI)
    fix oc w
    obtain r oc1 w1 where "send_all X eng clock d now rs mf df oc w = (r, oc1, w1)"
      by (cases "send_all X eng clock d now rs mf df oc w") auto
    then show "grows oc (fst (snd (send_all X eng clock d now rs mf df oc w)))"
      using send_all_result [of X eng clock d now rs mf df oc w] by (auto simp: grows_def)
  qed
  moreover have "grower (retry_tomorrow X d now mf)" for mf
    unfolding retry_tomorrow_def by (intro grower_bind grower_run_io grower_tally) (auto simp: grows_def)
  moreover have "grower (degrade d t n)" for t n
    unfolding degrade_def
    by (auto split: option.split intro!: grower_bind grower_run_io grower_tally simp: grows_def)
  moreover have "grower (advance_digest X d t n now)" for t n
    unfolding advance_digest_def using calculation(3) by (intro grower_bind grower_run_io)
  ultimately show ?thesis
    unfolding process_digest_def Let_def
    by (intro grower_bind grower_run_io) (auto split: prod.split)
qed

lemma growerD: "grower m \<Longrightarrow> m oc w = (r, oc', w') \<Longrightarrow> grows oc oc'"
  unfolding grower_def by (metis fst_conv snd_conv)

text \<open>
  A row against its state when the sweep began: untouched until processed; then settled, or left
  as it was by a batch that rolled back, which the tally names.
\<close>

definition moved :: "externals \<Rightarrow> date \<Rightarrow> uuid list \<Rightarrow> uuid list \<Rightarrow> digest_rec \<Rightarrow> digest_rec \<Rightarrow> bool" where
  "moved X today processed isolated r0 r \<longleftrightarrow>
     (if dg_id r0 \<in> set processed
      then settled X today r0 r \<or> (r = r0 \<and> dg_id r0 \<in> set isolated) else r = r0)"

lemma moved_id: "moved X today p left r0 r \<Longrightarrow> dg_id r = dg_id r0"
  by (auto simp: moved_def settled_id split: if_splits)

lemma moved_step:
  assumes "list_all2 (moved X today p left) D0 D" "i \<notin> set p" "set left \<subseteq> set left'"
    and "\<And>r. r \<in> set D \<Longrightarrow> dg_id r = i \<Longrightarrow> settled X today r (f r) \<or> (f r = r \<and> i \<in> set left')"
  shows "list_all2 (moved X today (p @ [i]) left') D0 (set_row i f D)"
  unfolding set_row_def list_all2_map2
proof (rule list.rel_mono_strong [OF assms(1)])
  fix r0 r
  assume r: "r \<in> set D" and m: "moved X today p left r0 r"
  show "moved X today (p @ [i]) left' r0 (if dg_id r = i then f r else r)"
    using m assms(2,3) assms(4) [OF r] moved_id [OF m] by (auto simp: moved_def split: if_splits)
qed

definition sweep_inv :: "externals \<Rightarrow> date \<Rightarrow> world \<Rightarrow> uuid list \<Rightarrow> sweep_outcome \<Rightarrow> world \<Rightarrow> bool" where
  "sweep_inv X today w0 processed oc w \<longleftrightarrow>
     world_ok w \<and> rest_view w = rest_view w0 \<and>
     distinct processed \<and> set processed \<subseteq> dg_id ` set (digests w0) - set (row_locks w0) \<and>
     so_claimed oc = length processed \<and>
     list_all2 (moved X today processed (so_isolated_failures oc)) (digests w0) (digests w)"

definition sweep_end :: "externals \<Rightarrow> date \<Rightarrow> world \<Rightarrow> unit res \<Rightarrow> sweep_outcome \<Rightarrow> world \<Rightarrow> bool" where
  "sweep_end X today w0 r oc w \<longleftrightarrow>
     world_ok w \<and> rest_view w = rest_view w0 \<and>
     list_all2 (\<lambda>r0 r. r = r0 \<or> settled X today r0 r) (digests w0) (digests w) \<and>
     (r = Ok () \<longrightarrow> (\<exists>p. sweep_inv X today w0 p oc w \<and> due_queue today p w = []))"

lemma due_queue_faults [simp]: "due_queue t p (w\<lparr>sql_faults := fs\<rparr>) = due_queue t p w"
  by (simp add: due_queue_def)

lemma sweep_inv_frame [simp]:
  "sweep_inv X t w0 p oc (w\<lparr>sql_faults := fs\<rparr>) = sweep_inv X t w0 p oc w"
  "sweep_inv X t w0 p oc (write_audit ev w) = sweep_inv X t w0 p oc w"
  by (simp_all add: sweep_inv_def)

lemma sweep_inv_end:
  assumes "sweep_inv X t w0 p oc w" "r \<noteq> Ok ()"
  shows "sweep_end X t w0 r oc' (w\<lparr>sql_faults := fs\<rparr>)"
proof -
  have "list_all2 (\<lambda>r0 r. r = r0 \<or> settled X t r0 r) (digests w0) (digests w)"
    by (rule list.rel_mono_strong [of "moved X t p (so_isolated_failures oc)"])
      (use assms in \<open>auto simp: sweep_inv_def moved_def split: if_splits\<close>)
  with assms show ?thesis by (simp add: sweep_end_def sweep_inv_def)
qed

lemma due_queue_head:
  assumes "due_queue t p w = r # rs"
  shows "r \<in> set (digests w)" "is_due t r" "dg_id r \<notin> set p" "dg_id r \<notin> set (row_locks w)"
proof -
  have "r \<in> set (due_queue t p w)" by (simp add: assms)
  then show "r \<in> set (digests w)" "is_due t r" "dg_id r \<notin> set p" "dg_id r \<notin> set (row_locks w)"
    by (simp_all add: due_queue_def)
qed

lemma claim_phase:
  obtains (fault) e fs where "and_then tx_statement (\<lambda>_. claim t p) w = (Err e, w\<lparr>sql_faults := fs\<rparr>)"
  | (none) fs where "and_then tx_statement (\<lambda>_. claim t p) w = (Ok None, w\<lparr>sql_faults := fs\<rparr>)"
      "due_queue t p w = []"
  | (some) r rs fs where
      "and_then tx_statement (\<lambda>_. claim t p) w = (Ok (Some (read_row r)), w\<lparr>sql_faults := fs\<rparr>)"
      "due_queue t p w = r # rs"
proof (cases rule: select_cases [of "\<lambda>_. ()" w])
  case (fault e fs)
  with that(1) show ?thesis by (simp add: tx_statement_def and_then_def)
next
  case (run fs)
  note tx = run
  let ?q = "\<lambda>w. case due_queue t p w of [] \<Rightarrow> None | r # _ \<Rightarrow> Some (read_row r)"
  show ?thesis
  proof (cases rule: select_cases [of ?q "w\<lparr>sql_faults := fs\<rparr>"])
    case (fault e fs')
    with tx that(1) [of "Db e" fs'] show ?thesis by (simp add: tx_statement_def and_then_def claim_def)
  next
    case (run fs')
    with tx that(2) [of fs'] that(3) [of _ fs'] show ?thesis
      by (cases "due_queue t p w") (auto simp: tx_statement_def and_then_def claim_def)
  qed
qed

text \<open>The three ends of a batch.\<close>

text \<open>One settled row, or one isolated failure, extends the invariant; a rollback keeps it.\<close>

lemma sweep_inv_step:
  assumes inv: "sweep_inv X today w0 p oc w"
    and q: "r0 \<in> set (digests w)" "dg_id r0 \<notin> set p" "dg_id r0 \<notin> set (row_locks w)"
    and w': "world_ok w'" "rest_view w' = rest_view w0" "digests w' = set_row (dg_id r0) f (digests w)"
    and oc': "so_claimed oc' = Suc (so_claimed oc)" "set (so_isolated_failures oc) \<subseteq> set (so_isolated_failures oc')"
    and f: "settled X today r0 (f r0) \<or> (f r0 = r0 \<and> dg_id r0 \<in> set (so_isolated_failures oc'))"
  shows "sweep_inv X today w0 (p @ [dg_id r0]) oc' w'"
proof -
  have ok: "world_ok w" and view: "rest_view w = rest_view w0"
    and all: "list_all2 (moved X today p (so_isolated_failures oc)) (digests w0) (digests w)"
    using inv by (simp_all add: sweep_inv_def)
  have uniq: "r' = r0" if "r' \<in> set (digests w)" "dg_id r' = dg_id r0" for r'
    using dgt.key_inj [of "digests w" r' r0] ok q(1) that by (simp add: world_ok_def)
  have "map dg_id (digests w) = map dg_id (digests w0)" and locks: "row_locks w = row_locks w0"
    using view by (simp_all add: rest_view_def)
  then have "dg_id ` set (digests w) = dg_id ` set (digests w0)" by (metis set_map)
  with q locks have mem: "dg_id r0 \<in> dg_id ` set (digests w0) - set (row_locks w0)" by auto
  have "list_all2 (moved X today (p @ [dg_id r0]) (so_isolated_failures oc')) (digests w0) (digests w')"
    unfolding w'(3) by (rule moved_step [OF all q(2) oc'(2)]) (use uniq f in blast)
  with inv w' oc' mem q(2) show ?thesis by (simp add: sweep_inv_def)
qed

lemma sweep_inv_rolled:
  assumes inv: "sweep_inv X today w0 p oc w" and w1: "world_ok w1" "rest_view w1 = rest_view w"
  shows "rest_view (rollback_to (digests w) w1) = rest_view w0" "world_ok (rollback_to (digests w) w1)"
    "r \<noteq> Ok () \<Longrightarrow> sweep_end X today w0 r oc' ((rollback_to (digests w) w1)\<lparr>sql_faults := fs\<rparr>)"
proof -
  show u: "rest_view (rollback_to (digests w) w1) = rest_view w0" "world_ok (rollback_to (digests w) w1)"
    using inv w1 by (simp_all add: sweep_inv_def rest_view_def rollback_to_def world_ok_def)
  have "sweep_inv X today w0 p oc (rollback_to (digests w) w1)"
    using inv u by (simp add: sweep_inv_def) (simp add: rollback_to_def)
  then show "sweep_end X today w0 r oc' ((rollback_to (digests w) w1)\<lparr>sql_faults := fs\<rparr>)" if "r \<noteq> Ok ()"
    using that by (rule sweep_inv_end)
qed

lemma run_batch_inv:
  assumes inv: "sweep_inv X (date_naive now) w0 p oc w" and seam: "mail_seam (en_mail_seam eng)"
    and q: "r0 \<in> set (digests w)" "dg_id r0 \<notin> set p" "dg_id r0 \<notin> set (row_locks w)"
  shows "case run_batch X eng clock now (p @ [dg_id r0]) (read_row r0) (oc\<lparr>so_claimed := so_claimed oc + 1\<rparr>) w of
      Continue p' oc' w' \<Rightarrow> p' = p @ [dg_id r0] \<and> sweep_inv X (date_naive now) w0 p' oc' w'
    | Halt r oc' w' \<Rightarrow> r \<noteq> Ok () \<and> sweep_end X (date_naive now) w0 r oc' w'"
proof -
  let ?t = "date_naive now" and ?oc = "oc\<lparr>so_claimed := so_claimed oc + 1\<rparr>" and ?i = "dg_id r0"
  obtain r oc1 w1 where pd: "process_digest X eng clock (read_row r0) now ?oc w = (r, oc1, w1)"
    by (cases "process_digest X eng clock (read_row r0) now ?oc w") auto
  have ok: "world_ok w" and view: "rest_view w = rest_view w0"
    using inv by (simp_all add: sweep_inv_def)
  have ok1: "world_ok w1"
    by (rule sweep_preservesD [OF process_digest_preserves [OF seam batch_stable_ok] ok pd])
  have view1: "rest_view w1 = rest_view w"
    by (rule sweep_preservesD [OF process_digest_preserves [OF seam batch_stable_rest] refl pd])
  have g: "so_claimed oc1 = Suc (so_claimed oc)" "set (so_isolated_failures oc) \<subseteq> set (so_isolated_failures oc1)"
    using growerD [OF grower_process pd] by (simp_all add: grows_def)
  note rolled = sweep_inv_rolled [OF inv ok1 view1]
  note step = sweep_inv_step [OF inv q]
  show ?thesis
  proof (cases r)
    case (Ok u)
    then have "process_digest X eng clock (read_row r0) now ?oc w = (Ok (), oc1, w1)" using pd by simp
    from this seam obtain f where f: "digests w1 = set_row ?i f (digests w)" "settled X ?t r0 (f r0)"
      by (rule process_settles)
    have inv1: "sweep_inv X ?t w0 (p @ [?i]) oc1 w1"
      by (rule step [OF ok1 _ f(1) g]) (use view view1 f(2) in auto)
    show ?thesis
    proof (cases rule: select_cases [of "\<lambda>_. ()" w1])
      case (fault e fs)
      have "rollback_to (digests w) (w1\<lparr>sql_faults := fs\<rparr>) = (rollback_to (digests w) w1)\<lparr>sql_faults := fs\<rparr>"
        by (cases w1) (simp add: rollback_to_def)
      with fault pd Ok rolled(3) [of "Err (Db e)" oc1 fs] show ?thesis
        by (simp add: run_batch_def tx_statement_def Let_def)
    next
      case (run fs)
      with pd Ok inv1 show ?thesis by (simp add: run_batch_def tx_statement_def Let_def)
    qed
  next
    case (Err e)
    let ?oc1 = "oc1\<lparr>so_isolated_failures := so_isolated_failures oc1 @ [?i]\<rparr>"
    have "digests (rollback_to (digests w) w1) = set_row ?i (\<lambda>r. r) (digests w)"
      by (simp add: rollback_to_def set_row_def)
    then have inv1: "sweep_inv X ?t w0 (p @ [?i]) ?oc1 (rollback_to (digests w) w1)"
      by (rule step [OF rolled(2,1)]) (use g in auto)
    show ?thesis
    proof (cases rule: select_cases [of "\<lambda>_. ()" "rollback_to (digests w) w1"])
      case (fault e' fs)
      with pd Err rolled(3) [of "Err (Db e')" oc1 fs] show ?thesis
        by (simp add: run_batch_def tx_statement_def Let_def)
    next
      case (run fs)
      with pd Err inv1 show ?thesis by (simp add: run_batch_def tx_statement_def Let_def)
    qed
  next
    case Panic
    with pd rolled(3) [of Panic oc1 "sql_faults w1"] show ?thesis
      by (simp add: run_batch_def Let_def rollback_to_def)
  qed
qed

section \<open>The sweep as a whole\<close>

lemma sweep_iteration_inv:
  assumes inv: "sweep_inv X (date_naive now) w0 p oc w" and seam: "mail_seam (en_mail_seam eng)"
  shows "case sweep_iteration X eng clock now p oc w of
      Continue p' oc' w' \<Rightarrow> (\<exists>i. p' = p @ [i]) \<and> sweep_inv X (date_naive now) w0 p' oc' w'
    | Halt r oc' w' \<Rightarrow> sweep_end X (date_naive now) w0 r oc' w'"
proof (cases rule: claim_phase [of "date_naive now" p w])
  case (fault e fs)
  with sweep_inv_end [OF inv, of "Err e" oc fs] show ?thesis by (simp add: sweep_iteration_def)
next
  case (none fs)
  have "list_all2 (\<lambda>r0 r. r = r0 \<or> settled X (date_naive now) r0 r) (digests w0) (digests w)"
    by (rule list.rel_mono_strong [of "moved X (date_naive now) p (so_isolated_failures oc)"])
      (use inv in \<open>auto simp: sweep_inv_def moved_def split: if_splits\<close>)
  with inv none(2) have "sweep_end X (date_naive now) w0 (Ok ()) oc (w\<lparr>sql_faults := fs\<rparr>)"
    unfolding sweep_end_def by (auto simp: sweep_inv_def intro!: exI [of _ p])
  with none show ?thesis by (simp add: sweep_iteration_def)
next
  case (some r0 rs fs)
  let ?w = "w\<lparr>sql_faults := fs\<rparr>"
  have "sweep_inv X (date_naive now) w0 p oc ?w" using inv by simp
  then have "case run_batch X eng clock now (p @ [dg_id r0]) (read_row r0)
        (oc\<lparr>so_claimed := so_claimed oc + 1\<rparr>) ?w of
      Continue p' oc' w' \<Rightarrow> p' = p @ [dg_id r0] \<and> sweep_inv X (date_naive now) w0 p' oc' w'
    | Halt r oc' w' \<Rightarrow> r \<noteq> Ok () \<and> sweep_end X (date_naive now) w0 r oc' w'"
    by (rule run_batch_inv [OF _ seam]) (use due_queue_head [OF some(2)] in auto)
  moreover have "sweep_iteration X eng clock now p oc w =
      run_batch X eng clock now (p @ [dg_id r0]) (read_row r0) (oc\<lparr>so_claimed := so_claimed oc + 1\<rparr>) ?w"
    using some(1) by (simp add: sweep_iteration_def)
  ultimately show ?thesis by (auto split: iteration.splits)
qed

lemma remaining_snoc:
  assumes "distinct (p @ [i])" "set (p @ [i]) \<subseteq> set ids"
  shows "remaining (p @ [i]) ids < remaining p ids"
proof -
  have "remaining (p @ [i]) ids = remaining (i # p) ids" by (simp add: remaining_def)
  with remaining_less [of i ids p] assms show ?thesis by simp
qed

text \<open>Every pass processes one more of the finitely many digest rows, so the loop ends.\<close>

lemma sweep_loop_total:
  assumes "sweep_inv X (date_naive now) w0 p oc w" "mail_seam (en_mail_seam eng)"
  shows "\<exists>r oc' w'. sweep_loop X eng clock now p oc w = Some (r, oc', w') \<and>
    sweep_end X (date_naive now) w0 r oc' w'"
  using assms(1)
proof (induction "remaining p (map dg_id (digests w0))" arbitrary: p oc w rule: less_induct)
  case less
  note step = sweep_iteration_inv [OF less.prems assms(2), of clock]
  show ?case
  proof (cases "sweep_iteration X eng clock now p oc w")
    case (Halt r oc' w')
    with step show ?thesis by (subst sweep_loop.simps) simp
  next
    case (Continue p' oc' w')
    with step obtain i where i: "p' = p @ [i]" "sweep_inv X (date_naive now) w0 p' oc' w'" by auto
    then have "distinct (p @ [i])" "set (p @ [i]) \<subseteq> set (map dg_id (digests w0))"
      by (auto simp: sweep_inv_def)
    then have "remaining p' (map dg_id (digests w0)) < remaining p (map dg_id (digests w0))"
      unfolding i(1) by (rule remaining_snoc)
    from less.hyps [OF this i(2)] Continue show ?thesis by (subst sweep_loop.simps) simp
  qed
qed

lemma sweep_inv_start: "world_ok w \<Longrightarrow> sweep_inv X t w [] empty_outcome w"
  by (simp add: sweep_inv_def empty_outcome_def moved_def list_all2_same)

lemma run_daily_pull_end:
  assumes "world_ok w" "mail_seam (en_mail_seam eng)"
  obtains r oc w' where
    "run_daily_pull X eng clock now w =
       Some (case r of Ok _ \<Rightarrow> Ok oc | Err e \<Rightarrow> Err e | Panic \<Rightarrow> Panic, w')"
    "sweep_end X (date_naive now) w r oc w'"
proof -
  obtain r oc w' where *: "sweep_loop X eng clock now [] empty_outcome w = Some (r, oc, w')"
    and end': "sweep_end X (date_naive now) w r oc w'"
    using sweep_loop_total [OF sweep_inv_start [OF assms(1)] assms(2)] by blast
  show ?thesis by (rule that [OF _ end']) (simp add: run_daily_pull_def *)
qed

text \<open>A drained run leaves no due row except those it names or another session holds.\<close>

lemma drained:
  assumes e: "sweep_end X t w0 (Ok ()) oc w" and c: "chrono_calendar (cal X)"
    and t: "date_min (cal X) \<le> t" "t \<le> date_max (cal X)"
    and r: "r \<in> set (digests w)" "is_due t r"
  shows "dg_id r \<in> set (row_locks w) \<or> dg_id r \<in> set (so_isolated_failures oc)"
proof -
  obtain p where p: "sweep_inv X t w0 p oc w" "due_queue t p w = []" using e by (auto simp: sweep_end_def)
  then have "filter (\<lambda>r. is_due t r \<and> dg_id r \<notin> set p \<and> dg_id r \<notin> set (row_locks w)) (digests w) = []"
    by (simp add: due_queue_def)
  with r have cases: "dg_id r \<in> set p \<or> dg_id r \<in> set (row_locks w)" by (auto simp: filter_empty_conv)
  have all: "list_all2 (moved X t p (so_isolated_failures oc)) (digests w0) (digests w)"
    using p(1) by (simp add: sweep_inv_def)
  obtain k where k: "k < length (digests w)" "digests w ! k = r" using r(1) by (auto simp: in_set_conv_nth)
  obtain r0 where m: "moved X t p (so_isolated_failures oc) r0 r"
    using list_all2_nthD2 [OF all k(1)] k(2) by blast
  have "\<not> settled X t r0 r" using settled_not_due [OF _ c t] r(2) by blast
  with m have "dg_id r0 \<in> set p \<longrightarrow> dg_id r0 \<in> set (so_isolated_failures oc)"
    by (simp add: moved_def split: if_splits)
  with cases moved_id [OF m] show ?thesis by auto
qed

section \<open>The manual send\<close>

lemma send_now_all_preserves:
  assumes "mail_seam (en_mail_seam eng)" "delivery_stable P"
  shows "P w \<Longrightarrow> P (snd (send_now_all X eng clock d now rs acc w))"
proof (induction rs arbitrary: acc w)
  case (Cons r rs)
  obtain res w1 where s: "send_to_recipient X eng (clock (dr_id d) (rr_user_id r)) d r now w = (res, w1)"
    by (cases "send_to_recipient X eng (clock (dr_id d) (rr_user_id r)) d r now w") auto
  have "P w1" using preservesD [OF send_to_recipient_preserves [OF assms] Cons.prems s] .
  moreover obtain a b c where "acc = (a, b, c)" by (cases acc) auto
  ultimately show ?case
    using s Cons.IH by (cases res) (auto split: digest_error.split prod.split)
qed simp

lemma send_now_preserves:
  assumes "mail_seam (en_mail_seam eng)" "delivery_stable P"
  shows "preserves P (send_now X eng clock i now)"
  unfolding send_now_def get_digest_def active_recipients_def
  by (intro preserves_and_then preserves_select)
    (use assms send_now_all_preserves [OF assms] in
      \<open>auto simp: delivery_stable_def preserves_def [of P "send_now_all _ _ _ _ _ _ _"]
        intro!: preserves_and_then preserves_select split: option.split\<close>)

text \<open>Every recipient is counted once.\<close>

lemma send_now_all_count:
  "send_now_all X eng clock d now rs (a, b, c) w = (Ok (a', b', c'), w') \<Longrightarrow>
     a' + b' + c' = a + b + c + length rs"
proof (induction rs arbitrary: a b c w)
  case (Cons r rs)
  obtain res w1 where s: "send_to_recipient X eng (clock (dr_id d) (rr_user_id r)) d r now w = (res, w1)"
    by (cases "send_to_recipient X eng (clock (dr_id d) (rr_user_id r)) d r now w") auto
  show ?case
  proof (cases res)
    case (Ok x)
    with s Cons.prems Cons.IH [of "a + 1" b c w1] show ?thesis by auto
  next
    case (Err e)
    with s Cons.prems Cons.IH [of a "b + 1" c w1] Cons.IH [of a b "c + 1" w1] show ?thesis by (cases e) auto
  qed (use s Cons.prems in auto)
qed simp

end
