(* ===== verification/Growth.thy ===== *)
theory Growth
  imports Write_Service Engagement_Port Externals
begin

text \<open>
  The growth loop (\<^verbatim>\<open>application/service/user_created_handler.rs\<close>): the handler of
  \<^verbatim>\<open>sapiens.user.created\<close> subscribes a new internal user to the configured digest, once. The
  handler errors a delivery (the relay retries) or acknowledges it; \<open>serde_error\<close> is the text of
  the JSON reader's refusal.
\<close>

definition handler_name :: string where
  "handler_name = ''digest.user_created''"

definition event_type :: string where
  "event_type = ''sapiens.user.created''"

definition event_patterns :: "string list" where
  "event_patterns = [event_type]"

record envelope =
  ev_id :: uuid
  ev_payload :: json

record growth_handler =
  gh_port :: slot
  gh_default_digest :: "uuid option"

datatype delivery = Acked | HandlerError string string | HandlerPanic

text \<open>\<^verbatim>\<open>payload["user_id"]\<close>: \<^verbatim>\<open>Null\<close> when the payload is no object or lacks the member.\<close>

definition payload_user :: "json \<Rightarrow> json" where
  "payload_user p =
     (case p of JObj ms \<Rightarrow> (case map_of ms ''user_id'' of Some v \<Rightarrow> v | None \<Rightarrow> JNull) | _ \<Rightarrow> JNull)"

definition auto_metadata :: "externals \<Rightarrow> datetime \<Rightarrow> envelope \<Rightarrow> metadata" where
  "auto_metadata X wall ev =
     [''auto_subscribed'' \<mapsto> JBool True, ''auto_subscribed_at'' \<mapsto> JStr (to_rfc3339 X wall),
      ''auto_subscribed_envelope'' \<mapsto> JStr (uuid_show X (ev_id ev))]"

definition handle_user_created ::
  "externals \<Rightarrow> (json \<Rightarrow> string) \<Rightarrow> growth_handler \<Rightarrow> datetime \<Rightarrow> envelope \<Rightarrow> world \<Rightarrow> delivery \<times> world" where
  "handle_user_created X serde_error h wall ev w =
     (case read_uuid X (payload_user (ev_payload ev)) of
        None \<Rightarrow> (HandlerError handler_name (''payload.user_id: '' @ serde_error (payload_user (ev_payload ev)) @
            '' (envelope '' @ uuid_show X (ev_id ev) @ '')''), w)
      | Some user_id \<Rightarrow>
          (case gh_default_digest h of
             None \<Rightarrow> (Acked, write_audit (AutoSubscribeRefused ''default_digest_not_configured'' user_id) w)
           | Some digest_id \<Rightarrow>
               (case resolve (slot_port (gh_port h)) user_id of
                  Inl e \<Rightarrow>
                    if is_not_wired e
                    then (HandlerError handler_name (''recipient port not wired; cannot resolve '' @
                        uuid_show X user_id @ '': '' @ show_port_error e), w)
                    else (HandlerError handler_name (''recipient '' @ uuid_show X user_id @
                        '' unresolvable: '' @ show_port_error e), w)
                | Inr ctx \<Rightarrow>
                    if \<not> rc_is_internal ctx
                    then (Acked, write_audit (AutoSubscribeRefused ''non_internal'' user_id) w)
                    else (case auto_subscribe_user digest_id user_id (auto_metadata X wall ev) w of
                        (Ok True, w') \<Rightarrow> (Acked, write_audit (DigestUserAutoSubscribed digest_id user_id) w')
                      | (Ok False, w') \<Rightarrow> (Acked, w')
                      | (Err e, w') \<Rightarrow>
                          (HandlerError handler_name (''subscribe verb: '' @ show_error (uuid_show X) e), w')
                      | (Panic, w') \<Rightarrow> (HandlerPanic, w')))))"

section \<open>What a delivery does\<close>

text \<open>A delivery adds at most the one subscription, and never touches an existing row.\<close>

definition new_subscription :: "externals \<Rightarrow> datetime \<Rightarrow> envelope \<Rightarrow> uuid \<Rightarrow> uuid \<Rightarrow> subscription_rec" where
  "new_subscription X wall ev d u =
     \<lparr> su_digest_id = d, su_user_id = u, su_state = Subscribed, su_unsubscribed_at = None,
       su_metadata = auto_metadata X wall ev \<rparr>"

lemma auto_subscribe_cases:
  obtains (fault) e fs where "auto_subscribe_user d u m w = (Err (Db e), w\<lparr>sql_faults := fs\<rparr>)"
  | (old) fs where "auto_subscribe_user d u m w = (Ok False, w\<lparr>sql_faults := fs\<rparr>)"
      "(d, u) \<in> sub_key ` set (subscriptions w)"
  | (new) fs where "auto_subscribe_user d u m w = (Ok True, w\<lparr>sql_faults := fs,
        subscriptions := subscriptions w @ [\<lparr> su_digest_id = d, su_user_id = u, su_state = Subscribed,
              su_unsubscribed_at = None, su_metadata = m \<rparr>]\<rparr>)"
      "(d, u) \<notin> sub_key ` set (subscriptions w)"
proof -
  let ?r = "\<lparr> su_digest_id = d, su_user_id = u, su_state = Subscribed,
              su_unsubscribed_at = None, su_metadata = m \<rparr>"
  let ?st = "\<lambda>w. case insert_or_ignore sub_key ?r (subscriptions w) of
      (n, rows) \<Rightarrow> (n, w\<lparr>subscriptions := rows\<rparr>)"
  have k: "sub_key ?r = (d, u)" by (simp add: sub_key_def)
  show ?thesis
  proof (cases rule: sql_cases [of ?st w])
    case (fault e fs)
    with that(1) show ?thesis by (simp add: auto_subscribe_user_def and_then_def)
  next
    case (run n w' fs)
    show ?thesis
    proof (cases "(d, u) \<in> sub_key ` set (subscriptions w)")
      case True
      with run k have "n = 0" "w' = w\<lparr>sql_faults := fs\<rparr>" by (auto simp: insert_or_ignore_def)
      with run(2) True that(2) show ?thesis
        by (simp add: auto_subscribe_user_def and_then_def return_def)
    next
      case False
      with run k have "n = 1" "w' = w\<lparr>sql_faults := fs, subscriptions := subscriptions w @ [?r]\<rparr>"
        by (auto simp: insert_or_ignore_def)
      with run(2) False that(3) show ?thesis
        by (simp add: auto_subscribe_user_def and_then_def return_def)
    qed
  qed
qed

lemma handle_user_created_subscriptions:
  "subscriptions (snd (handle_user_created X serde h wall ev w)) = subscriptions w \<or>
   (\<exists>d u ctx. read_uuid X (payload_user (ev_payload ev)) = Some u \<and> gh_default_digest h = Some d \<and>
      resolve (slot_port (gh_port h)) u = Inr ctx \<and> rc_is_internal ctx \<and>
      (d, u) \<notin> sub_key ` set (subscriptions w) \<and>
      subscriptions (snd (handle_user_created X serde h wall ev w)) =
        subscriptions w @ [new_subscription X wall ev d u])"
proof (cases "\<exists>d u ctx. read_uuid X (payload_user (ev_payload ev)) = Some u \<and> gh_default_digest h = Some d \<and>
      resolve (slot_port (gh_port h)) u = Inr ctx \<and> rc_is_internal ctx")
  case True
  then obtain d u ctx where c: "read_uuid X (payload_user (ev_payload ev)) = Some u"
    "gh_default_digest h = Some d" "resolve (slot_port (gh_port h)) u = Inr ctx" "rc_is_internal ctx" by blast
  show ?thesis
    by (cases rule: auto_subscribe_cases [of d u "auto_metadata X wall ev" w])
      (use c in \<open>auto simp: handle_user_created_def new_subscription_def\<close>)
next
  case False
  then show ?thesis
    by (auto simp: handle_user_created_def split: option.splits sum.splits)
qed

lemma handle_user_created_new:
  assumes "read_uuid X (payload_user (ev_payload ev)) = Some u" "gh_default_digest h = Some d"
    and "resolve (slot_port (gh_port h)) u = Inr ctx" "rc_is_internal ctx" "sql_faults w = []"
  shows "handle_user_created X serde h wall ev w =
    (if (d, u) \<in> sub_key ` set (subscriptions w) then (Acked, w)
     else (Acked, write_audit (DigestUserAutoSubscribed d u)
       (w\<lparr>subscriptions := subscriptions w @ [new_subscription X wall ev d u]\<rparr>)))"
  using assms
  by (simp add: handle_user_created_def auto_subscribe_user_def and_then_def return_def sql_no_faults
      insert_or_ignore_def new_subscription_def sub_key_def)

end
