(* ===== verification/Digest_Module.thy ===== *)
theory Digest_Module
  imports Cron Growth
begin

text \<open>
  The module and its builder (\<^verbatim>\<open>lib.rs\<close>): the hand-written engine seats over one pool, the composed
  registry, and the slot they share. The two port KPIs read the slot at compute time, so the
  registry is kept as a function of the slot's tenant. Database tables are the \<open>world\<close>; the rows
  of \<^verbatim>\<open>messaging.mail_messages\<close> and the mail package are parts of the pool the builder is given.
\<close>

record pool =
  pl_messages :: "string + mail_message list"
  pl_mail :: mail_backend

record digest_module =
  dm_registry_of :: "recipient_port \<Rightarrow> kpi_registry"
  dm_recipient_port :: slot
  dm_mail_seam :: "outgoing_mail \<Rightarrow> uuid io"
  dm_unsubscribe :: "unsubscribe_service option"
  dm_public_base_url :: string
  dm_default_digest :: "uuid option"

definition kpi_registry_of :: "digest_module \<Rightarrow> kpi_registry" where
  "kpi_registry_of m = dm_registry_of m (slot_port (dm_recipient_port m))"

definition set_recipient_port :: "recipient_port \<Rightarrow> digest_module \<Rightarrow> digest_module" where
  "set_recipient_port p m = m\<lparr>dm_recipient_port := slot_install p (dm_recipient_port m)\<rparr>"

definition unsubscribe_service :: "digest_module \<Rightarrow> unsubscribe_service option" where
  "unsubscribe_service m = dm_unsubscribe m"

definition render_service :: "digest_module \<Rightarrow> engine" where
  "render_service m =
     \<lparr> en_registry = kpi_registry_of m, en_port = dm_recipient_port m, en_mail_seam = dm_mail_seam m,
       en_unsub = dm_unsubscribe m, en_public_base_url = dm_public_base_url m \<rparr>"

definition user_created_handler :: "digest_module \<Rightarrow> growth_handler" where
  "user_created_handler m =
     \<lparr> gh_port = dm_recipient_port m, gh_default_digest = dm_default_digest m \<rparr>"

text \<open>The key question the write service asks of the shared registry.\<close>

definition module_enable_kpi :: "digest_module \<Rightarrow> uuid \<Rightarrow> string \<Rightarrow> unit io" where
  "module_enable_kpi m = enable_kpi (\<lambda>k. registry_get (kpi_registry_of m) k \<noteq> None)"

text \<open>
  Registration after the build, through the same registry: a refusal changes nothing, a duplicate
  name panics.
\<close>

definition module_register_kpi :: "kpi_definition \<Rightarrow> digest_module \<Rightarrow> registration \<times> digest_module" where
  "module_register_kpi d m =
     (case registry_register d (kpi_registry_of m) of
        Registered r \<Rightarrow>
          (Registered r, m\<lparr>dm_registry_of := (\<lambda>port.
             case registry_register d (dm_registry_of m port) of
               Registered r' \<Rightarrow> r' | _ \<Rightarrow> dm_registry_of m port)\<rparr>)
      | refused \<Rightarrow> (refused, m))"

lemma module_register_kpi_registry:
  "module_register_kpi d m = (Registered r, m') \<Longrightarrow> kpi_registry_of m' = r"
  by (auto simp: module_register_kpi_def kpi_registry_of_def split: registration.splits)

text \<open>What a host may do to a built module; a duplicate registration panics in the caller.\<close>

datatype host_call = RegisterKpi kpi_definition | SetRecipientPort recipient_port

fun host_step :: "host_call \<Rightarrow> digest_module \<Rightarrow> digest_module" where
  "host_step (RegisterKpi d) m = snd (module_register_kpi d m)"
| "host_step (SetRecipientPort p) m = set_recipient_port p m"

section \<open>The builder\<close>

record builder =
  bl_db_pool :: "pool option"
  bl_token_secret :: "byte list option"
  bl_public_base_url :: "string option"
  bl_default_digest :: "uuid option"
  bl_mail_seam :: "(outgoing_mail \<Rightarrow> uuid io) option"
  bl_recipient_port :: "recipient_port option"
  bl_kpis :: "kpi_definition list"

definition builder_new :: builder where
  "builder_new =
     \<lparr> bl_db_pool = None, bl_token_secret = None, bl_public_base_url = None, bl_default_digest = None,
       bl_mail_seam = None, bl_recipient_port = None, bl_kpis = [] \<rparr>"

definition with_database :: "pool \<Rightarrow> builder \<Rightarrow> builder" where
  "with_database p b = b\<lparr>bl_db_pool := Some p\<rparr>"

definition with_token_secret :: "byte list \<Rightarrow> builder \<Rightarrow> builder" where
  "with_token_secret s b = b\<lparr>bl_token_secret := Some s\<rparr>"

definition with_public_base_url :: "string \<Rightarrow> builder \<Rightarrow> builder" where
  "with_public_base_url u b = b\<lparr>bl_public_base_url := Some u\<rparr>"

definition with_default_digest :: "uuid \<Rightarrow> builder \<Rightarrow> builder" where
  "with_default_digest d b = b\<lparr>bl_default_digest := Some d\<rparr>"

definition with_mail_seam :: "(outgoing_mail \<Rightarrow> uuid io) \<Rightarrow> builder \<Rightarrow> builder" where
  "with_mail_seam s b = b\<lparr>bl_mail_seam := Some s\<rparr>"

definition with_recipient_port :: "recipient_port \<Rightarrow> builder \<Rightarrow> builder" where
  "with_recipient_port p b = b\<lparr>bl_recipient_port := Some p\<rparr>"

definition builder_register_kpi :: "kpi_definition \<Rightarrow> builder \<Rightarrow> builder" where
  "builder_register_kpi d b = b\<lparr>bl_kpis := bl_kpis b @ [d]\<rparr>"

datatype build_result = Built digest_module | BuildError string | BuildPanic

definition show_registration_error :: "registration_error \<Rightarrow> string" where
  "show_registration_error e =
     (case e of BadPrefix n p \<Rightarrow> ''KPI name '' @ [CHR 0x27] @ n @ [CHR 0x27] @ '' must start with '' @
        [CHR 0x27] @ p @ [CHR 0x27])"

text \<open>The base pair first, then the caller's definitions in order.\<close>

definition composed_registry ::
  "recipient_port \<Rightarrow> string + mail_message list \<Rightarrow> kpi_definition list \<Rightarrow> registration" where
  "composed_registry port messages kpis =
     (case register_base_kpis port messages registry_new of
        None \<Rightarrow> DuplicatePanic
      | Some r \<Rightarrow> register_all kpis r)"

definition built_slot :: "builder \<Rightarrow> slot" where
  "built_slot b =
     (case bl_recipient_port b of None \<Rightarrow> slot_default | Some p \<Rightarrow> slot_install p slot_default)"

definition built_secret :: "builder \<Rightarrow> string option \<Rightarrow> byte list option" where
  "built_secret b env =
     (case bl_token_secret b of Some s \<Rightarrow> Some s | None \<Rightarrow> map_option string_bytes env)"

text \<open>\<open>env\<close> is the value of \<^verbatim>\<open>DIGEST_TOKEN_SECRET\<close>, if the variable is set.\<close>

definition build :: "string option \<Rightarrow> builder \<Rightarrow> build_result" where
  "build env b =
     (case bl_db_pool b of
        None \<Rightarrow> BuildError ''Database pool not configured''
      | Some p \<Rightarrow>
          (case composed_registry (slot_port (built_slot b)) (pl_messages p) (bl_kpis b) of
             DuplicatePanic \<Rightarrow> BuildPanic
           | Refused e \<Rightarrow> BuildError (''KPI registration refused: '' @ show_registration_error e)
           | Registered _ \<Rightarrow> Built
               \<lparr> dm_registry_of = (\<lambda>port. case composed_registry port (pl_messages p) (bl_kpis b) of
                     Registered r \<Rightarrow> r | _ \<Rightarrow> registry_new),
                 dm_recipient_port = built_slot b,
                 dm_mail_seam = (case bl_mail_seam b of
                     Some s \<Rightarrow> s | None \<Rightarrow> default_send (default_seam_new (pl_mail p))),
                 dm_unsubscribe = map_option with_secret (built_secret b env),
                 dm_public_base_url = (case bl_public_base_url b of
                     Some u \<Rightarrow> u | None \<Rightarrow> ''http://localhost:8080''),
                 dm_default_digest = bl_default_digest b \<rparr>))"

section \<open>What is built\<close>

text \<open>Whether the registrations go through depends on their names alone.\<close>

fun registers :: "string set \<Rightarrow> kpi_definition list \<Rightarrow> registration_error option option" where
  "registers taken [] = Some None"
| "registers taken (d # ds) =
     (if \<not> starts_with kpi_name_prefix (kd_name d) then Some (Some (BadPrefix (kd_name d) kpi_name_prefix))
      else if kd_name d \<in> taken then None
      else registers (insert (kd_name d) taken) ds)"

lemma register_all_registers:
  "(\<exists>r'. register_all ds r = Registered r') \<longleftrightarrow> registers (set (map fst r)) ds = Some None"
  "register_all ds r = DuplicatePanic \<longleftrightarrow> registers (set (map fst r)) ds = None"
proof (induction ds arbitrary: r)
  case Nil
  { case 1 then show ?case by simp next case 2 then show ?case by simp }
next
  case (Cons d ds)
  have taken: "map_of r (kd_name d) \<noteq> None \<longleftrightarrow> kd_name d \<in> set (map fst r)" for r :: kpi_registry
    by (simp add: map_of_eq_None_iff)
  { case 1 then show ?case
      using Cons.IH(1) [of "btree_insert (kd_name d) d r"] taken [of r]
      by (auto simp: registry_register_def set_btree_insert simp del: set_map) }
  { case 2 then show ?case
      using Cons.IH(2) [of "btree_insert (kd_name d) d r"] taken [of r]
      by (auto simp: registry_register_def set_btree_insert simp del: set_map) }
qed

lemma composed_registry_keeps_base:
  assumes "composed_registry port messages kpis = Registered r"
  shows "registry_ok r" "registry_get r kpi_connected_users = Some (connected_users_kpi port)"
    "registry_get r kpi_messages_sent = Some (messages_sent_kpi messages)"
proof -
  let ?b = "[(kpi_messages_sent, messages_sent_kpi messages), (kpi_connected_users, connected_users_kpi port)]"
  have all: "register_all kpis ?b = Registered r"
    using assms by (simp add: composed_registry_def register_base_kpis_new)
  have less: "kpi_messages_sent < kpi_connected_users"
    by (simp add: kpi_messages_sent_def kpi_connected_users_def less_char_def)
  have ok: "registry_ok ?b"
    using less by (auto simp: registry_ok_def connected_users_kpi_def messages_sent_kpi_def)
      (simp_all add: starts_with_def kpi_name_prefix_def kpi_messages_sent_def kpi_connected_users_def)
  show "registry_ok r" by (rule register_all_ok [OF ok all])
  show "registry_get r kpi_connected_users = Some (connected_users_kpi port)"
    by (rule register_all_keeps [OF ok all]) (use less in \<open>auto simp: registry_get_def\<close>)
  show "registry_get r kpi_messages_sent = Some (messages_sent_kpi messages)"
    by (rule register_all_keeps [OF ok all]) (simp add: registry_get_def)
qed

text \<open>
  The invariant of a module under its host's calls: at every tenant of the slot the registry is
  well formed, holds the base pair, and still holds what the registry \<open>reg0\<close> held.
\<close>

definition wired :: "(recipient_port \<Rightarrow> kpi_registry) \<Rightarrow> string + mail_message list \<Rightarrow> digest_module \<Rightarrow> bool" where
  "wired reg0 messages m \<longleftrightarrow>
     (\<forall>port. let r = dm_registry_of m port in
        registry_ok r \<and> registry_get r kpi_connected_users = Some (connected_users_kpi port) \<and>
        registry_get r kpi_messages_sent = Some (messages_sent_kpi messages) \<and>
        (\<forall>k d. registry_get (reg0 port) k = Some d \<longrightarrow> registry_get r k = Some d))"

lemma registry_register_keeps:
  "registry_register def r = Registered r' \<Longrightarrow> registry_ok r \<Longrightarrow> registry_get r k = Some d \<Longrightarrow>
     registry_get r' k = Some d"
  using register_all_keeps [of r "[def]" r' k d] by simp

lemma host_step_wired:
  assumes "wired reg0 messages m"
  shows "wired reg0 messages (host_step c m)"
proof (cases c)
  case (RegisterKpi def)
  have ch: "dm_registry_of (host_step c m) port = dm_registry_of m port \<or>
      registry_register def (dm_registry_of m port) = Registered (dm_registry_of (host_step c m) port)" for port
    by (cases "registry_register def (kpi_registry_of m)"; cases "registry_register def (dm_registry_of m port)")
      (simp_all add: RegisterKpi module_register_kpi_def)
  have step: "registry_ok (dm_registry_of m port) \<Longrightarrow> registry_ok (dm_registry_of (host_step c m) port) \<and>
      (\<forall>k d. registry_get (dm_registry_of m port) k = Some d \<longrightarrow>
        registry_get (dm_registry_of (host_step c m) port) k = Some d)" for port
    using ch [of port] registry_register_ok [of "dm_registry_of m port" def]
      registry_register_keeps [of def "dm_registry_of m port"] by auto
  show ?thesis
    unfolding wired_def Let_def
  proof
    fix port
    have "registry_ok (dm_registry_of m port)" "registry_get (dm_registry_of m port) kpi_connected_users = Some (connected_users_kpi port)"
      "registry_get (dm_registry_of m port) kpi_messages_sent = Some (messages_sent_kpi messages)"
      "\<forall>k d. registry_get (reg0 port) k = Some d \<longrightarrow> registry_get (dm_registry_of m port) k = Some d"
      using assms by (simp_all add: wired_def Let_def)
    with step [of port] show "registry_ok (dm_registry_of (host_step c m) port) \<and>
      registry_get (dm_registry_of (host_step c m) port) kpi_connected_users = Some (connected_users_kpi port) \<and>
      registry_get (dm_registry_of (host_step c m) port) kpi_messages_sent = Some (messages_sent_kpi messages) \<and>
      (\<forall>k d. registry_get (reg0 port) k = Some d \<longrightarrow> registry_get (dm_registry_of (host_step c m) port) k = Some d)"
      by blast
  qed
next
  case (SetRecipientPort p)
  with assms show ?thesis by (simp add: wired_def set_recipient_port_def)
qed

lemma host_steps_wired: "wired reg0 messages m \<Longrightarrow> wired reg0 messages (fold host_step cs m)"
  by (induction cs arbitrary: m) (simp_all add: host_step_wired)

lemma host_step_seam: "dm_mail_seam (host_step c m) = dm_mail_seam m"
  by (cases c) (simp_all add: module_register_kpi_def set_recipient_port_def split: registration.split)

lemma host_steps_seam: "dm_mail_seam (fold host_step cs m) = dm_mail_seam m"
  by (induction cs arbitrary: m) (simp_all add: host_step_seam)

lemma built_mail_seam:
  assumes "build env b = Built m" "\<And>s. bl_mail_seam b = Some s \<Longrightarrow> mail_seam s"
  shows "mail_seam (dm_mail_seam m)"
  using assms default_seam.mail_seam_axioms
  by (auto simp: build_def split: option.splits registration.splits)

end
