(* ===== verification/Public_Routes.thy ===== *)
theory Public_Routes
  imports Digest_Module
begin

text \<open>
  The public unsubscribe tree (\<^verbatim>\<open>presentation/http/public_routes.rs\<close>): the acting POST leg and the
  human GET leg of \<^verbatim>\<open>/digest/unsubscribe\<close>. A handler sees the module, the parsed parameters and the
  clock, and returns its response with the failure book and the world it leaves. The route
  layer's rate limiter is a parameter of the tree.
\<close>

record token_param =
  tp_t :: "string option"
  tp_confirm :: "string option"

datatype response = Bare (resp_status: nat) | Html (resp_html: string)

fun response_status :: "response \<Rightarrow> nat" where
  "response_status (Bare c) = c"
| "response_status (Html _) = 200"

definition page :: "string \<Rightarrow> string \<Rightarrow> response" where
  "page title body =
     Html (''<html><body><h2>'' @ title @ ''</h2><p>'' @ body @ ''</p></body></html>'')"

definition unavailable_page :: response where
  "unavailable_page = page ''Unsubscribe unavailable''
     ''This digest deployment has no unsubscribe signing key configured.''"

definition expired_page :: response where
  "expired_page = page ''This link has expired''
     ''Unsubscribe links live 180 days. Use the link in your most recent digest mail.''"

definition refused_page :: response where
  "refused_page = page ''This link is not valid''
     ''This unsubscribe link was not issued by this digest, or it is incomplete.''"

definition unsubscribed_page :: response where
  "unsubscribed_page = page ''Unsubscribed'' ''You will no longer receive this digest.''"

definition failed_page :: response where
  "failed_page = page ''Something went wrong''
     ''Your unsubscribe was not recorded. Please try the link again later.''"

definition confirm_page :: "string \<Rightarrow> response" where
  "confirm_page token =
     (let attr = (\<lambda>n v. '' '' @ n @ ''='' @ dquote @ v @ dquote) in
      Html (''<html><body><h2>Unsubscribe from this digest?</h2>'' @
        ''<p>You will no longer receive this digest by mail.</p>'' @
        ''<form'' @ attr ''method'' ''post'' @ attr ''action'' ''/digest/unsubscribe'' @ ''>'' @
        ''<input'' @ attr ''type'' ''hidden'' @ attr ''name'' ''t'' @ attr ''value'' token @ ''>'' @
        ''<input'' @ attr ''type'' ''hidden'' @ attr ''name'' ''confirm'' @ attr ''value'' ''1'' @ ''>'' @
        ''<button'' @ attr ''type'' ''submit'' @ ''>Unsubscribe</button></form></body></html>''))"

text \<open>\<open>inst\<close> is \<^verbatim>\<open>Instant::now()\<close>, \<open>wall\<close> is \<^verbatim>\<open>Utc::now()\<close>, both in nanoseconds. A panic tears the request down.\<close>

definition unsubscribe_post ::
  "externals \<Rightarrow> digest_module \<Rightarrow> datetime \<Rightarrow> int \<Rightarrow> token_param \<Rightarrow> token_param \<Rightarrow> failure_book \<Rightarrow> world \<Rightarrow>
     response option \<times> failure_book \<times> world" where
  "unsubscribe_post X m wall inst params form b w =
     (let from_confirm_page = (tp_confirm form \<noteq> None) in
      case unsubscribe_service m of
        None \<Rightarrow> (Some (if from_confirm_page then unavailable_page else Bare 200), b, w)
      | Some unsub \<Rightarrow>
          (let token = (case (case tp_t form of Some t \<Rightarrow> Some t | None \<Rightarrow> tp_t params) of
                          Some t \<Rightarrow> t | None \<Rightarrow> []);
               (outcome, b', w') =
                 (if token = [] then (Ok RefusedLink, b, w)
                  else unsubscribe_by_token X unsub token (timestamp wall) inst wall b w)
           in case outcome of
                Panic \<Rightarrow> (None, b', w')
              | Ok oc \<Rightarrow>
                  (Some (if \<not> from_confirm_page then Bare 200
                     else case oc of
                        UnsubscribedNow \<Rightarrow> unsubscribed_page
                      | AlreadyUnsubscribed \<Rightarrow> unsubscribed_page
                      | ExpiredLink \<Rightarrow> expired_page
                      | RefusedLink \<Rightarrow> refused_page), b', w')
              | Err e \<Rightarrow> (Some (if \<not> from_confirm_page then Bare 200 else failed_page), b', w')))"

definition unsubscribe_confirm_page ::
  "externals \<Rightarrow> digest_module \<Rightarrow> datetime \<Rightarrow> int \<Rightarrow> token_param \<Rightarrow> failure_book \<Rightarrow>
     response \<times> failure_book" where
  "unsubscribe_confirm_page X m wall inst params b =
     (case unsubscribe_service m of
        None \<Rightarrow> (unavailable_page, b)
      | Some unsub \<Rightarrow>
          (case (case tp_t params of None \<Rightarrow> None | Some t \<Rightarrow> if t = [] then None else Some t) of
             None \<Rightarrow> (refused_page, b)
           | Some token \<Rightarrow>
               (case check_token X unsub token (timestamp wall) inst b of
                  (Valid, b') \<Rightarrow> (confirm_page token, b')
                | (Expired, b') \<Rightarrow> (expired_page, b')
                | (RefusedToken, b') \<Rightarrow> (refused_page, b'))))"

section \<open>The public tree\<close>

datatype http_method = Get | Head | Post | OtherMethod

datatype public_leg = ActingLeg | HumanLeg

definition public_composer :: "(string \<times> http_method \<times> public_leg) list" where
  "public_composer =
     [(''/digest/unsubscribe'', Post, ActingLeg), (''/digest/unsubscribe'', Get, HumanLeg)]"

text \<open>
  A request to the public tree: the rate limiter (\<open>limited\<close>, its refusal if it refuses) sits on the
  matched routes; a path without a route is a 404, a method without one a 405. axum serves \<^verbatim>\<open>HEAD\<close>
  by the \<^verbatim>\<open>GET\<close> handler of the path and drops the body of its answer.
\<close>

definition answers_method :: "http_method \<Rightarrow> http_method \<Rightarrow> bool" where
  "answers_method me verb \<longleftrightarrow> me = verb \<or> (me = Get \<and> verb = Head)"

definition drop_body :: "http_method \<Rightarrow> response option \<Rightarrow> response option" where
  "drop_body verb r = (if verb = Head then map_option (\<lambda>x. Bare (response_status x)) r else r)"

definition serve_public ::
  "externals \<Rightarrow> digest_module \<Rightarrow> response option \<Rightarrow> datetime \<Rightarrow> int \<Rightarrow> http_method \<Rightarrow> string \<Rightarrow>
   token_param \<Rightarrow> token_param \<Rightarrow> failure_book \<Rightarrow> world \<Rightarrow> response option \<times> failure_book \<times> world" where
  "serve_public X m limited wall inst verb path params form b w =
     (case filter (\<lambda>(p, me, leg). p = path) public_composer of
        [] \<Rightarrow> (Some (Bare 404), b, w)
      | legs \<Rightarrow>
          (case find (\<lambda>(p, me, leg). answers_method me verb) legs of
             None \<Rightarrow> (Some (Bare 405), b, w)
           | Some (_, _, leg) \<Rightarrow>
               (case limited of
                  Some refusal \<Rightarrow> (drop_body verb (Some refusal), b, w)
                | None \<Rightarrow>
                    (case leg of
                       ActingLeg \<Rightarrow> unsubscribe_post X m wall inst params form b w
                     | HumanLeg \<Rightarrow>
                         (case unsubscribe_confirm_page X m wall inst params b of
                            (r, b') \<Rightarrow> (drop_body verb (Some r), b', w))))))"

definition digest_public_routes ::
  "externals \<Rightarrow> digest_module \<Rightarrow> response option \<Rightarrow> datetime \<Rightarrow> int \<Rightarrow> http_method \<Rightarrow> string \<Rightarrow>
   token_param \<Rightarrow> token_param \<Rightarrow> failure_book \<Rightarrow> world \<Rightarrow> response option \<times> failure_book \<times> world" where
  "digest_public_routes X m = serve_public X m"

lemma serve_public_cases:
  obtains (acts) "verb = Post" "path = ''/digest/unsubscribe''" "limited = None"
      "serve_public X m limited wall inst verb path params form b w = unsubscribe_post X m wall inst params form b w"
  | (rests) r b' where "serve_public X m limited wall inst verb path params form b w = (r, b', w)"
proof (cases "path = ''/digest/unsubscribe''")
  case False
  then show ?thesis by (intro rests) (auto simp: serve_public_def public_composer_def)
next
  case True
  show ?thesis
  proof (cases verb)
    case Post
    then show ?thesis
      using True acts rests
      by (cases limited) (simp_all add: serve_public_def public_composer_def answers_method_def drop_body_def)
  next
    case OtherMethod
    with True rests show ?thesis by (simp add: serve_public_def public_composer_def answers_method_def)
  next
    case Get
    obtain r b' where "unsubscribe_confirm_page X m wall inst params b = (r, b')"
      by (cases "unsubscribe_confirm_page X m wall inst params b")
    with Get True rests show ?thesis
      by (cases limited) (simp_all add: serve_public_def public_composer_def answers_method_def)
  next
    case Head
    obtain r b' where "unsubscribe_confirm_page X m wall inst params b = (r, b')"
      by (cases "unsubscribe_confirm_page X m wall inst params b")
    with Head True rests show ?thesis
      by (cases limited) (simp_all add: serve_public_def public_composer_def answers_method_def)
  qed
qed

section \<open>What the legs answer\<close>

lemma page_eq_iff: "page t b = page t' b' \<longleftrightarrow> t @ ''</h2><p>'' @ b @ ''</p></body></html>'' = t' @ ''</h2><p>'' @ b' @ ''</p></body></html>''"
  by (simp add: page_def)

lemma pages_distinct:
  "distinct [unavailable_page, expired_page, refused_page, unsubscribed_page, failed_page]"
  by (simp add: unavailable_page_def expired_page_def refused_page_def unsubscribed_page_def
      failed_page_def page_eq_iff)

lemma confirm_page_other:
  "confirm_page t \<noteq> expired_page" "confirm_page t \<noteq> refused_page" "confirm_page t \<noteq> unavailable_page"
  by (simp_all add: confirm_page_def expired_page_def refused_page_def unavailable_page_def page_def Let_def)

text \<open>The one-click answer is the same whatever the token, the outcome and the configuration.\<close>

lemma one_click_answer:
  assumes "tp_confirm form = None"
  shows "fst (unsubscribe_post X m wall inst params form b w) \<in> {None, Some (Bare 200)}"
  using assms by (auto simp: unsubscribe_post_def Let_def split: option.split prod.split res.split)

lemma apply_unsubscribe_no_panic: "apply_unsubscribe wall d u w \<noteq> (Panic, w')"
  using sql_not_panic by (auto simp: apply_unsubscribe_def and_then_def split: prod.splits res.splits if_splits)

lemma unsubscribe_by_token_no_panic: "fst (unsubscribe_by_token X svc s now inst wall b w) \<noteq> Panic"
  using apply_unsubscribe_no_panic
  by (auto simp: unsubscribe_by_token_def split: option.split prod.split token_verdict.split res.split bool.split)

text \<open>A valid token reaches the page as a string of uuid characters, digits, hex and dots.\<close>

lemma confirm_page_shown:
  assumes "unsubscribe_confirm_page X m wall inst params b = (confirm_page t, b')"
  shows "\<exists>unsub s. unsubscribe_service m = Some unsub \<and> tp_t params = Some s \<and>
    confirm_page s = confirm_page t \<and> fst (check_token X unsub s (timestamp wall) inst b) = Valid"
  using assms confirm_page_other [of t]
  by (auto simp: unsubscribe_confirm_page_def split: option.splits prod.splits token_verdict.splits if_splits)

end
