(* ===== verification/Demo.thy ===== *)
theory Demo
  imports Public_Routes
begin

text \<open>
  A small concrete deployment for the witnesses: one activated digest due on day 20000, two users of
  one company, an ungated and a gated tip, both base KPIs registered, the SQL adapter over small
  identity tables, the recording seam and a token secret. \<open>idle_world\<close> is the same deployment
  before anybody subscribed.
\<close>

definition demo_day :: date where
  "demo_day = 20000"

definition demo_now :: datetime where
  "demo_now = demo_day * day_nanos + 9 * 3600 * nanos"

definition demo_sapiens :: sapiens where
  "demo_sapiens =
     \<lparr> users = [\<lparr> us_id = 11, us_email = ''a@x'', us_last_login = Some (demo_now - 40 * day_nanos),
                  us_status = ''active'', us_metadata = Map.empty \<rparr>,
                \<lparr> us_id = 12, us_email = ''b@x'', us_last_login = None,
                  us_status = ''active'', us_metadata = Map.empty \<rparr>],
       organization_users = [\<lparr> ou_user_id = 11, ou_org_unit_id = 5, ou_status = ''active'',
                  ou_joined_at = 0, ou_metadata = Map.empty \<rparr>],
       roles = [], user_roles = [], source_fault = None \<rparr>"

definition demo_port :: recipient_port where
  "demo_port = sql_port demo_uuid_show demo_sapiens"

definition demo_slot :: slot where
  "demo_slot = slot_install demo_port slot_default"

definition demo_registry :: kpi_registry where
  "demo_registry =
     [(kpi_messages_sent, messages_sent_kpi (Inr [])), (kpi_connected_users, connected_users_kpi demo_port)]"

definition demo_service :: unsubscribe_service where
  "demo_service = with_secret [1, 2, 3]"

definition demo_engine :: engine where
  "demo_engine =
     \<lparr> en_registry = demo_registry, en_port = demo_slot,
       en_mail_seam = recording_send recording_new 77, en_unsub = Some demo_service,
       en_public_base_url = ''https://m'' \<rparr>"

definition demo_digest :: digest_rec where
  "demo_digest =
     \<lparr> dg_id = 1, dg_name = ''Ops'', dg_periodicity = Daily, dg_next_run_date = Some demo_day,
       dg_state = Activated, dg_metadata = Map.empty \<rparr>"

definition idle_world :: world where
  "idle_world =
     \<lparr> digests = [demo_digest], subscriptions = [], digest_kpis = [], tips = [], tip_users = [],
       mails = [], audit = [], row_locks = [], sql_faults = [] \<rparr>"

definition demo_subscription :: "uuid \<Rightarrow> subscription_rec" where
  "demo_subscription u =
     \<lparr> su_digest_id = 1, su_user_id = u, su_state = Subscribed, su_unsubscribed_at = None,
       su_metadata = Map.empty \<rparr>"

definition demo_tip :: "uuid \<Rightarrow> int \<Rightarrow> string option \<Rightarrow> tip_rec" where
  "demo_tip i s g =
     \<lparr> ti_id = i, ti_sequence = s, ti_name = ''T'', ti_description = Some ''t'', ti_group_key = g,
       ti_metadata = Map.empty \<rparr>"

definition demo_world :: world where
  "demo_world = idle_world
     \<lparr> subscriptions := [demo_subscription 11, demo_subscription 12],
       tips := [demo_tip 31 2 None, demo_tip 30 1 (Some ''admin'')] \<rparr>"

definition demo_recipient :: recipient_row where
  "demo_recipient = \<lparr> rr_user_id = 11, rr_metadata = Map.empty \<rparr>"

definition demo_clock :: "uuid \<Rightarrow> uuid \<Rightarrow> datetime" where
  "demo_clock d u = demo_now"

lemma idle_world_ok: "world_ok idle_world"
  by (simp add: world_ok_def idle_world_def unique_key_def)

lemma demo_world_ok: "world_ok demo_world"
  by (simp add: world_ok_def demo_world_def idle_world_def unique_key_def sub_key_def demo_subscription_def)

lemma demo_seam: "mail_seam (en_mail_seam demo_engine)"
  by (simp add: demo_engine_def recording.mail_seam_axioms)

lemma demo_no_faults: "sql_faults demo_world = []" "sql_faults idle_world = []"
  by (simp_all add: demo_world_def idle_world_def)

lemma demo_active: "active_pairs demo_world = {(1, 11), (1, 12)}"
proof -
  have "(d, u) \<in> active_pairs demo_world \<longleftrightarrow> d = 1 \<and> (u = 11 \<or> u = 12)" for d u
    by (auto simp: active_pairs_iff unsubscribable_def demo_world_def demo_subscription_def)
  then show ?thesis by auto
qed

lemma demo_range:
  "date_min (cal demo_externals) \<le> date_naive demo_now" "date_naive demo_now \<le> date_max (cal demo_externals)"
  by code_simp+

text \<open>A second due digest, held by another session.\<close>

definition busy_world :: world where
  "busy_world = idle_world\<lparr>digests := [demo_digest\<lparr>dg_id := 2\<rparr>, demo_digest], row_locks := [2]\<rparr>"

lemma busy_world_ok: "world_ok busy_world"
  by (simp add: world_ok_def busy_world_def idle_world_def unique_key_def demo_digest_def)

lemma busy_sweep_ok:
  "\<exists>oc w'. run_daily_pull demo_externals demo_engine demo_clock demo_now busy_world = Some (Ok oc, w')"
proof -
  have "map_option (\<lambda>(r, w). case r of Ok oc \<Rightarrow> True | _ \<Rightarrow> False)
      (run_daily_pull demo_externals demo_engine demo_clock demo_now busy_world) = Some True"
    by code_simp
  then obtain r w' where "run_daily_pull demo_externals demo_engine demo_clock demo_now busy_world = Some (r, w')"
    "case r of Ok oc \<Rightarrow> True | _ \<Rightarrow> False" by auto
  then show ?thesis by (cases r) auto
qed

section \<open>The module of the deployment\<close>

definition demo_module :: digest_module where
  "demo_module =
     \<lparr> dm_registry_of = (\<lambda>port. [(kpi_messages_sent, messages_sent_kpi (Inr [])),
         (kpi_connected_users, connected_users_kpi port)]),
       dm_recipient_port = demo_slot, dm_mail_seam = recording_send recording_new 77,
       dm_unsubscribe = Some demo_service, dm_public_base_url = ''https://m'', dm_default_digest = Some 1 \<rparr>"

lemma demo_render_service: "render_service demo_module = demo_engine"
  by (simp add: render_service_def kpi_registry_of_def demo_module_def demo_engine_def demo_registry_def
      demo_slot_def slot_install_current)

lemma demo_unsubscribe_service: "unsubscribe_service demo_module = Some demo_service"
  by (simp add: unsubscribe_service_def demo_module_def)

lemma demo_secret: "secret demo_service \<noteq> []"
  by (simp add: demo_service_def with_secret_def)

section \<open>A send of the demo deployment\<close>

lemma demo_slot_port: "slot_port (en_port demo_engine) = demo_port"
  by (simp add: demo_engine_def demo_slot_def slot_install_current)

lemma demo_resolve:
  "u = 11 \<or> u = 12 \<Longrightarrow> \<exists>ctx. resolve demo_port u = Inr ctx"
  by (auto simp: demo_port_def sql_port_def sql_resolve_def demo_sapiens_def Let_def)

lemma demo_mint:
  "mint demo_externals svc d u demo_now = Some (signed_token demo_externals svc d u (link_expiry demo_now))"
proof -
  have "plus_time (cal demo_externals) demo_now (token_ttl_days * day_nanos) \<noteq> None" by code_simp
  then have "mint demo_externals svc d u demo_now \<noteq> None" by (simp add: mint_def)
  then show ?thesis using mint_Some by blast
qed

lemma demo_windows: "\<exists>ws. windows_at (cal demo_externals) demo_now = Some ws"
proof -
  have "windows_at (cal demo_externals) demo_now \<noteq> None" by code_simp
  then show ?thesis by blast
qed

lemma demo_url: "\<exists>url. unsubscribe_url demo_externals demo_engine demo_now d u = Ok url"
proof -
  have "trim ''https://m'' \<noteq> []" by code_simp
  then show ?thesis by (simp add: unsubscribe_url_def demo_engine_def mint_link_token_def demo_mint)
qed

lemma demo_render:
  assumes "sql_faults w = []" "digest_kpis w = []" "rr_user_id r = 11 \<or> rr_user_id r = 12"
  shows "\<exists>plan. render demo_externals demo_engine demo_now d r demo_now w = (Ok plan, w)"
proof -
  obtain ctx where ctx: "resolve (slot_port (en_port demo_engine)) (rr_user_id r) = Inr ctx"
    using demo_resolve [OF assms(3)] by (auto simp: demo_slot_port)
  obtain url where url: "unsubscribe_url demo_externals demo_engine demo_now (dr_id d) (rr_user_id r) = Ok url"
    using demo_url by blast
  obtain ws where ws: "windows_at (cal demo_externals) demo_now = Some ws" using demo_windows by blast
  have keys: "render_keys f (enabled_keys (dr_id d) w) ([], [], []) = Inr ([], [], [])" for f
    by (simp add: enabled_keys_def assms(2))
  show ?thesis using render_no_faults [OF assms(1) ctx url ws keys] by blast
qed

lemma demo_send:
  assumes "sql_faults w = []" "digest_kpis w = []" "rr_user_id r = 11 \<or> rr_user_id r = 12"
  shows "\<exists>plan i w'. send_to_recipient demo_externals demo_engine demo_now d r demo_now w = (Ok (plan, i), w') \<and>
    sql_faults w' = [] \<and> digest_kpis w' = [] \<and> mails w' = mails w @ [outgoing demo_now plan]"
proof -
  obtain plan where ren: "render demo_externals demo_engine demo_now d r demo_now w = (Ok plan, w)"
    using demo_render [OF assms] by blast
  let ?w1 = "w\<lparr>mails := mails w @ [outgoing demo_now plan]\<rparr>"
  have seam: "en_mail_seam demo_engine (outgoing demo_now plan) w = (Ok 77, ?w1)"
    by (simp add: demo_engine_def recording_send_def recording_new_def)
  obtain w' where del: "deliver demo_externals demo_engine demo_now plan w = (Ok 77, w')"
    "sql_faults w' = []" "mails w' = mails w @ [outgoing demo_now plan]"
    using deliver_no_faults [OF seam, of demo_externals] assms(1) by auto
  have "schedule_view w' = schedule_view w"
    by (rule preservesD [OF deliver_preserves [OF demo_seam schedule_view_stable] refl del(1)])
  then have "digest_kpis w' = []" using assms(2) by (simp add: schedule_view_def)
  with ren del show ?thesis by (simp add: send_to_recipient_def and_then_def return_def)
qed

lemma demo_send_all:
  assumes "sql_faults w = []" "digest_kpis w = []" "\<forall>r \<in> set rs. rr_user_id r = 11 \<or> rr_user_id r = 12"
  shows "\<exists>oc' w'. send_all demo_externals demo_engine demo_clock d demo_now rs mf df oc w = (Ok (mf, df), oc', w') \<and>
    sql_faults w' = []"
  using assms
proof (induction rs arbitrary: oc w)
  case (Cons r rs)
  from demo_send [OF Cons.prems(1,2), of r d] Cons.prems(3)
  obtain plan i w' where "send_to_recipient demo_externals demo_engine (demo_clock (dr_id d) (rr_user_id r)) d r demo_now w
      = (Ok (plan, i), w')" "sql_faults w' = []" "digest_kpis w' = []" by (auto simp: demo_clock_def)
  with Cons.IH [of w' "oc\<lparr>so_sent_mails := so_sent_mails oc + 1\<rparr>"] Cons.prems(3) show ?case by simp
qed simp

end
