(* ===== verification/Sweep_Properties.thy ===== *)
theory Sweep_Properties
  imports Demo
begin

text \<open>
  The properties of the schedule: what a sweep leaves due, which rows it moves and how far, when
  the ladder acts, what a manual send cannot do, and the calendar arithmetic under them. Each is
  followed by its witness on the deployment of \<^verbatim>\<open>Demo\<close>.
\<close>

section \<open>The sweep\<close>

text \<open>
  C4: a sweep that returns its tally has drained the due set: every row still due today afterwards
  is held by another session or named in \<open>isolated_failures\<close>.
\<close>

theorem sweep_drains:
  assumes "world_ok w" "mail_seam (en_mail_seam eng)" "chrono_calendar (cal X)"
    and "date_min (cal X) \<le> date_naive now" "date_naive now \<le> date_max (cal X)"
    and "run_daily_pull X eng clock now w = Some (Ok oc, w')"
  shows "dg_id ` set (filter (is_due (date_naive now)) (digests w')) \<subseteq>
    set (row_locks w') \<union> set (so_isolated_failures oc)"
proof (rule run_daily_pull_end [OF assms(1,2), of X clock now])
  fix r oc1 w1
  assume run: "run_daily_pull X eng clock now w =
      Some (case r of Ok _ \<Rightarrow> Ok oc1 | Err e \<Rightarrow> Err e | Panic \<Rightarrow> Panic, w1)"
    and fin: "sweep_end X (date_naive now) w r oc1 w1"
  have "r = Ok ()" "oc1 = oc" "w1 = w'" using run assms(6) by (cases r; simp)+
  with fin have "sweep_end X (date_naive now) w (Ok ()) oc w'" by simp
  from drained [OF this assms(3-5)] show ?thesis by auto
qed

lemma sweep_drains_witness:
  "\<exists>oc w'. run_daily_pull demo_externals demo_engine demo_clock demo_now busy_world = Some (Ok oc, w') \<and>
     dg_id ` set (filter (is_due (date_naive demo_now)) (digests w')) \<subseteq>
       set (row_locks w') \<union> set (so_isolated_failures oc)"
  using busy_sweep_ok sweep_drains [OF busy_world_ok demo_seam demo_calendar demo_range] by blast

text \<open>
  C13: the loop of the sweep ends: from any well-formed world, whatever statements fail, a run of
  the sweep returns (a tally, an error or a panic).
\<close>

theorem sweep_returns:
  assumes "world_ok w" "mail_seam (en_mail_seam eng)"
  shows "\<exists>r w'. run_daily_pull X eng clock now w = Some (r, w')"
  by (rule run_daily_pull_end [OF assms, of X clock now]) blast

lemma sweep_returns_witness:
  "\<exists>r w'. run_daily_pull demo_externals demo_engine demo_clock demo_now demo_world = Some (r, w')"
  by (rule sweep_returns [OF demo_world_ok demo_seam])

text \<open>
  C18: however a sweep ends, each digest row is as it was, or differs in its next run date and
  cadence alone: due tomorrow with its cadence kept, or advanced from today by its own cadence or
  the next slower one.
\<close>

theorem sweep_moves:
  assumes "world_ok w" "mail_seam (en_mail_seam eng)"
    and "run_daily_pull X eng clock now w = Some (r, w')"
  shows "list_all2 (\<lambda>r0 r. r = r0 \<or>
      (\<exists>n. plus_days (cal X) (date_naive now) 1 = Some n \<and> r = r0\<lparr>dg_next_run_date := Some n\<rparr>) \<or>
      (\<exists>c n. (c = dg_periodicity r0 \<or> next_rung (dg_periodicity r0) = Some c) \<and>
         advance (cal X) c (date_naive now) = Some n \<and>
         r = r0\<lparr>dg_periodicity := c, dg_next_run_date := Some n\<rparr>)) (digests w) (digests w')"
proof (rule run_daily_pull_end [OF assms(1,2), of X clock now])
  fix r1 oc w1
  assume run: "run_daily_pull X eng clock now w =
      Some (case r1 of Ok _ \<Rightarrow> Ok oc | Err e \<Rightarrow> Err e | Panic \<Rightarrow> Panic, w1)"
    and fin: "sweep_end X (date_naive now) w r1 oc w1"
  have "w1 = w'" using run assms(3) by simp
  with fin show ?thesis by (simp add: sweep_end_def settled_def)
qed

lemma sweep_moves_witness:
  "\<exists>oc w'. run_daily_pull demo_externals demo_engine demo_clock demo_now busy_world = Some (Ok oc, w') \<and>
     list_all2 (\<lambda>r0 r. r = r0 \<or>
      (\<exists>n. plus_days (cal demo_externals) (date_naive demo_now) 1 = Some n \<and> r = r0\<lparr>dg_next_run_date := Some n\<rparr>) \<or>
      (\<exists>c n. (c = dg_periodicity r0 \<or> next_rung (dg_periodicity r0) = Some c) \<and>
         advance (cal demo_externals) c (date_naive demo_now) = Some n \<and>
         r = r0\<lparr>dg_periodicity := c, dg_next_run_date := Some n\<rparr>)) (digests busy_world) (digests w')"
  using busy_sweep_ok sweep_moves [OF busy_world_ok demo_seam] by blast

text \<open>
  C21: a sweep keeps the unique keys of all tables, the set of digest rows, the enabled KPIs, the
  tips, and who is subscribed to what.
\<close>

theorem sweep_frame:
  assumes "world_ok w" "mail_seam (en_mail_seam eng)"
    and "run_daily_pull X eng clock now w = Some (r, w')"
  shows "world_ok w' \<and> map dg_id (digests w') = map dg_id (digests w) \<and> digest_kpis w' = digest_kpis w \<and>
    tips w' = tips w \<and> active_pairs w' = active_pairs w"
proof (rule run_daily_pull_end [OF assms(1,2), of X clock now])
  fix r1 oc w1
  assume run: "run_daily_pull X eng clock now w =
      Some (case r1 of Ok _ \<Rightarrow> Ok oc | Err e \<Rightarrow> Err e | Panic \<Rightarrow> Panic, w1)"
    and fin: "sweep_end X (date_naive now) w r1 oc w1"
  have "w1 = w'" using run assms(3) by simp
  with fin show ?thesis by (simp add: sweep_end_def rest_view_def)
qed

lemma sweep_frame_witness:
  "\<exists>r w'. run_daily_pull demo_externals demo_engine demo_clock demo_now demo_world = Some (r, w') \<and>
     active_pairs w' = {(1, 11), (1, 12)}"
proof -
  obtain r w' where run: "run_daily_pull demo_externals demo_engine demo_clock demo_now demo_world = Some (r, w')"
    by (rule run_daily_pull_end [OF demo_world_ok demo_seam, of demo_externals demo_clock demo_now])
  from sweep_frame [OF demo_world_ok demo_seam run] run demo_active show ?thesis by auto
qed

section \<open>One digest\<close>

text \<open>The failure lists of the tally name exactly the branch the batch took.\<close>

lemma send_all_tally:
  "send_all X eng clock d now rs mf df oc w = (r, oc1, w') \<Longrightarrow>
     so_mail_delivery_failures oc1 = so_mail_delivery_failures oc \<and>
     so_isolated_failures oc1 = so_isolated_failures oc \<and> so_degraded oc1 = so_degraded oc"
  by (auto dest: send_all_result)

lemma set_row_unique:
  assumes "world_ok w" "r0 \<in> set (digests w)" "f r0 = g r0"
  shows "set_row (dg_id r0) f (digests w) = set_row (dg_id r0) g (digests w)"
proof -
  have "r = r0" if "r \<in> set (digests w)" "dg_id r = dg_id r0" for r
    using dgt.key_inj [of "digests w" r r0] assms(1,2) that by (simp add: world_ok_def)
  with assms(3) show ?thesis by (auto simp: set_row_def)
qed

lemma set_row_member:
  assumes "world_ok w" "r0 \<in> set (digests w)" "r \<in> set (set_row (dg_id r0) f (digests w))"
    and "dg_id r = dg_id r0"
  shows "r = f r0"
proof -
  from assms(3) obtain x where x: "x \<in> set (digests w)" "r = (if dg_id x = dg_id r0 then f x else x)"
    by (auto simp: set_row_def)
  with assms(4) have "dg_id x = dg_id r0" by (auto split: if_splits)
  with x dgt.key_inj [of "digests w" x r0] assms(1,2) show ?thesis by (simp add: world_ok_def)
qed

text \<open>What the sends of a batch answer, one after the other; a panic ends the batch.\<close>

fun send_results ::
  "externals \<Rightarrow> engine \<Rightarrow> (uuid \<Rightarrow> uuid \<Rightarrow> datetime) \<Rightarrow> digest_row \<Rightarrow> datetime \<Rightarrow> recipient_row list \<Rightarrow> world \<Rightarrow>
     (render_plan \<times> uuid) res list" where
  "send_results X eng clock d now [] w = []"
| "send_results X eng clock d now (r # rs) w =
     (case send_to_recipient X eng (clock (dr_id d) (rr_user_id r)) d r now w of
        (Panic, w') \<Rightarrow> [Panic]
      | (a, w') \<Rightarrow> a # send_results X eng clock d now rs w')"

fun sent_well :: "'a res \<Rightarrow> bool" where
  "sent_well (Ok a) = True"
| "sent_well r = False"

fun mail_refused :: "'a res \<Rightarrow> bool" where
  "mail_refused (Err (MailDelivery why)) = True"
| "mail_refused r = False"

lemma send_all_results:
  assumes "send_all X eng clock d now rs mf df oc w = (Ok (mf', df'), oc1, w1)"
  defines "as \<equiv> send_results X eng clock d now rs w"
  shows "length as = length rs" "Panic \<notin> set as"
    "so_sent_mails oc1 = so_sent_mails oc + length (filter sent_well as)"
    "mf' = (mf \<or> list_ex mail_refused as)"
    "df' = None \<longleftrightarrow> df = None \<and> list_all (\<lambda>a. sent_well a \<or> mail_refused a) as"
proof -
  have "length as = length rs \<and> Panic \<notin> set as \<and>
      so_sent_mails oc1 = so_sent_mails oc + length (filter sent_well as) \<and>
      mf' = (mf \<or> list_ex mail_refused as) \<and>
      (df' = None \<longleftrightarrow> df = None \<and> list_all (\<lambda>a. sent_well a \<or> mail_refused a) as)"
    using assms(1) unfolding as_def
  proof (induction rs arbitrary: mf df oc w)
    case (Cons r rs)
    obtain a v where s: "send_to_recipient X eng (clock (dr_id d) (rr_user_id r)) d r now w = (a, v)"
      by (cases "send_to_recipient X eng (clock (dr_id d) (rr_user_id r)) d r now w") auto
    show ?case
    proof (cases a)
      case (Ok pm)
      then obtain pl mi where "a = Ok (pl, mi)" by (cases pm) auto
      with s Cons.prems Cons.IH [of mf df "oc\<lparr>so_sent_mails := so_sent_mails oc + 1\<rparr>" v] show ?thesis by simp
    next
      case (Err e)
      with s Cons.prems Cons.IH show ?thesis by (cases e) auto
    qed (use s Cons.prems in simp)
  qed auto
  then show "length as = length rs" "Panic \<notin> set as"
    "so_sent_mails oc1 = so_sent_mails oc + length (filter sent_well as)"
    "mf' = (mf \<or> list_ex mail_refused as)"
    "df' = None \<longleftrightarrow> df = None \<and> list_all (\<lambda>a. sent_well a \<or> mail_refused a) as"
    by blast+
qed

text \<open>The flags of the batch, read off the answers.\<close>

lemma all_sent_well:
  assumes "Panic \<notin> set as"
  shows "list_all sent_well as \<longleftrightarrow>
    \<not> list_ex mail_refused as \<and> list_all (\<lambda>a. sent_well a \<or> mail_refused a) as"
proof -
  have "\<not> (sent_well r \<and> mail_refused r)" for r :: "'a res" by (cases r) simp_all
  then show ?thesis by (auto simp: list_all_iff list_ex_iff)
qed

text \<open>
  C14: what a batch that completes does to its digest follows from what its sends answered. Every
  active recipient is tried, whatever the others met, and the tally grows by the mails sent. If every
  send went well, the cadence becomes the ladder's decision, the next run date is today advanced by
  that cadence, no failure is tallied, and the digest is tallied as degraded exactly when the ladder
  moved it. If any failed, the digest runs again tomorrow with its cadence kept, and this
  digest, once, is appended to one list of the tally: to the delivery failures if the mail of some
  recipient was refused, to the isolated failures otherwise.
\<close>

theorem batch_outcome:
  assumes "world_ok w" "mail_seam (en_mail_seam eng)" "r0 \<in> set (digests w)"
    and "process_digest X eng clock (read_row r0) now oc w = (Ok (), oc', w')"
  shows "\<exists>since answers. login_window_since (cal X) (dg_periodicity r0) now = Some since \<and>
    answers = send_results X eng clock (read_row r0) now (recipients_of (dg_id r0) w)
      (sending_from eng (read_row r0) since w) \<and>
    length answers = length (recipients_of (dg_id r0) w) \<and> Panic \<notin> set answers \<and>
    so_sent_mails oc' = so_sent_mails oc + length (filter sent_well answers) \<and>
    (if list_all sent_well answers
     then \<exists>deg c n. deg = degrade_decision eng (dg_periodicity r0)
              (map rr_user_id (recipients_of (dg_id r0) w)) since \<and>
        c = (case deg of None \<Rightarrow> dg_periodicity r0 | Some q \<Rightarrow> q) \<and>
        advance (cal X) c (date_naive now) = Some n \<and>
        digests w' = set_row (dg_id r0) (\<lambda>r. r\<lparr>dg_periodicity := c, dg_next_run_date := Some n\<rparr>) (digests w) \<and>
        so_degraded oc' = so_degraded oc @ (if deg = None then [] else [dg_id r0]) \<and>
        so_mail_delivery_failures oc' = so_mail_delivery_failures oc \<and>
        so_isolated_failures oc' = so_isolated_failures oc
     else \<exists>n. plus_days (cal X) (date_naive now) 1 = Some n \<and>
        digests w' = set_row (dg_id r0) (\<lambda>r. r\<lparr>dg_next_run_date := Some n\<rparr>) (digests w) \<and>
        so_degraded oc' = so_degraded oc \<and>
        so_mail_delivery_failures oc' = so_mail_delivery_failures oc @
          (if list_ex mail_refused answers then [dg_id r0] else []) \<and>
        so_isolated_failures oc' = so_isolated_failures oc @
          (if list_ex mail_refused answers then [] else [dg_id r0]))"
  using assms(4,2)
proof (cases rule: process_digest_cases)
  case (held since t flags oc1 w1 w2)
  obtain mf df where "flags = (mf, df)" by (cases flags)
  note sent = send_all_results [OF held(2) [unfolded this]] and flags = this
  note tally = send_all_tally [OF held(2)]
  let ?as = "send_results X eng clock (read_row r0) now (recipients_of (dg_id r0) w)
      (sending_from eng (read_row r0) since w)"
  have sent': "mf \<longleftrightarrow> list_ex mail_refused ?as" "so_sent_mails oc' = so_sent_mails oc + length (filter sent_well ?as)"
    "length ?as = length (recipients_of (dg_id r0) w)" "Panic \<notin> set ?as"
    using sent(1-4) held(5) unfolding held(6) by simp_all
  have bad: "\<not> list_all sent_well ?as"
    using all_sent_well [OF sent(2)] sent(4,5) held(7) flags unfolding held(6) by simp
  have oc: "so_degraded oc' = so_degraded oc"
    "so_mail_delivery_failures oc' = so_mail_delivery_failures oc @ (if list_ex mail_refused ?as then [dg_id r0] else [])"
    "so_isolated_failures oc' = so_isolated_failures oc @ (if list_ex mail_refused ?as then [] else [dg_id r0])"
    using held(5) tally flags sent'(1) by simp_all
  show ?thesis
  proof (intro exI [of _ since] exI [of _ ?as] conjI, goal_cases)
    case 6
    show ?case unfolding if_not_P [OF bad] using held(3,4) oc by blast
  qed (rule held(1) refl sent')+
next
  case (advanced since deg n flags oc1 w1 w2)
  let ?c = "case deg of None \<Rightarrow> dg_periodicity r0 | Some q \<Rightarrow> q"
  note sent = send_all_results [OF advanced(2) [unfolded advanced(8)]]
  note tally = send_all_tally [OF advanced(2)]
  have "set_row (dg_id r0) (\<lambda>r. (degraded_row deg r)\<lparr>dg_next_run_date := Some n\<rparr>) (digests w) =
      set_row (dg_id r0) (\<lambda>r. r\<lparr>dg_periodicity := ?c, dg_next_run_date := Some n\<rparr>) (digests w)"
    by (rule set_row_unique [OF assms(1,3)]) (simp add: degraded_row_def split: option.split)
  with advanced(5) have d: "digests w' = set_row (dg_id r0) (\<lambda>r. r\<lparr>dg_periodicity := ?c, dg_next_run_date := Some n\<rparr>) (digests w)"
    by simp
  have ok: "list_all sent_well (send_results X eng clock (read_row r0) now (recipients_of (dg_id r0) w)
      (sending_from eng (read_row r0) since w))"
    using sent all_sent_well [OF sent(2)] unfolding advanced(7) by simp
  have oc: "so_degraded oc' = so_degraded oc @ (if deg = None then [] else [dg_id r0])"
    "so_sent_mails oc' = so_sent_mails oc1"
    "so_mail_delivery_failures oc' = so_mail_delivery_failures oc" "so_isolated_failures oc' = so_isolated_failures oc"
    using advanced(6) tally by (simp_all split: option.split)
  show ?thesis
  proof (intro exI [of _ since] exI [of _ "send_results X eng clock (read_row r0) now (recipients_of (dg_id r0) w)
        (sending_from eng (read_row r0) since w)"] conjI, goal_cases)
    case 5
    show ?case using sent(3) oc(2) by (simp only: advanced(7))
  next
    case 6
    show ?case unfolding if_P [OF ok] using advanced(3,4) d oc by blast
  qed (rule advanced(1) refl sent(1,2) [unfolded advanced(7)])+
qed

text \<open>A deployment whose engine has no unsubscribe secret: every send fails.\<close>

definition deaf_engine :: engine where
  "deaf_engine = demo_engine\<lparr>en_unsub := None\<rparr>"

lemma deaf_seam: "mail_seam (en_mail_seam deaf_engine)"
  using demo_seam by (simp add: deaf_engine_def)

lemma deaf_batch:
  "\<exists>oc' w'. process_digest demo_externals deaf_engine demo_clock (read_row demo_digest) demo_now empty_outcome demo_world
     = (Ok (), oc', w') \<and> so_sent_mails oc' = 0 \<and> so_isolated_failures oc' = [1]"
proof -
  have "(case process_digest demo_externals deaf_engine demo_clock (read_row demo_digest) demo_now
      empty_outcome demo_world of (r, oc', w') \<Rightarrow>
        (case r of Ok _ \<Rightarrow> True | _ \<Rightarrow> False) \<and> so_sent_mails oc' = 0 \<and> so_isolated_failures oc' = [1])"
    by code_simp
  then show ?thesis by (auto split: prod.splits res.splits)
qed

lemma demo_recipients: "map rr_user_id (recipients_of 1 demo_world) = [11, 12]"
  by (simp add: recipients_of_def demo_world_def demo_subscription_def)

lemma batch_outcome_witness:
  "\<exists>oc' w' n. process_digest demo_externals deaf_engine demo_clock (read_row demo_digest) demo_now empty_outcome demo_world
       = (Ok (), oc', w') \<and> so_mail_delivery_failures oc' = [] \<and> so_isolated_failures oc' = [1] \<and>
     plus_days (cal demo_externals) (date_naive demo_now) 1 = Some n \<and>
     digests w' = [demo_digest\<lparr>dg_next_run_date := Some n\<rparr>]"
proof -
  obtain oc' w' where run: "process_digest demo_externals deaf_engine demo_clock (read_row demo_digest) demo_now
      empty_outcome demo_world = (Ok (), oc', w')" "so_sent_mails oc' = 0" "so_isolated_failures oc' = [1]"
    using deaf_batch by blast
  have D: "demo_digest \<in> set (digests demo_world)" by (simp add: demo_world_def idle_world_def)
  have i: "dg_id demo_digest = 1" "digests demo_world = [demo_digest]"
    by (simp_all add: demo_world_def idle_world_def demo_digest_def)
  have "length (recipients_of 1 demo_world) = 2" using arg_cong [OF demo_recipients, of length] by simp
  then have "\<exists>n. so_mail_delivery_failures oc' = [] \<and>
      plus_days (cal demo_externals) (date_naive demo_now) 1 = Some n \<and>
      digests w' = [demo_digest\<lparr>dg_next_run_date := Some n\<rparr>]"
    using batch_outcome [OF demo_world_ok deaf_seam D run(1)] run(2,3) i
    by (auto simp: empty_outcome_def set_row_def list_all_iff filter_empty_conv split: if_splits)
  with run(1,3) show ?thesis by blast
qed

text \<open>
  C16: with the SQL adapter as port, a digest slows down only when it has an active recipient and no
  active recipient logged in since the start of the window of its cadence; then it drops exactly
  one rung. So a digest without active recipients keeps its cadence, and so does one whose recipients
  cannot be looked up.
\<close>

theorem slowdown_needs_silence:
  assumes "world_ok w" "mail_seam (en_mail_seam eng)" "r0 \<in> set (digests w)"
    and "process_digest X eng clock (read_row r0) now oc w = (Ok (), oc', w')"
    and "slot_port (en_port eng) = sql_port sh s"
    and "r \<in> set (digests w')" "dg_id r = dg_id r0" "dg_periodicity r \<noteq> dg_periodicity r0"
  shows "next_rung (dg_periodicity r0) = Some (dg_periodicity r) \<and>
    (\<exists>u. (dg_id r0, u) \<in> active_pairs w) \<and>
    (\<exists>since. login_window_since (cal X) (dg_periodicity r0) now = Some since \<and>
       (\<forall>u \<in> set (users s). (dg_id r0, us_id u) \<in> active_pairs w \<longrightarrow>
          (case us_last_login u of None \<Rightarrow> True | Some t \<Rightarrow> t < since)))"
  using assms(4,2)
proof (cases rule: process_digest_cases)
  case (held since t flags oc1 w1 w2)
  then have "r = r0\<lparr>dg_next_run_date := Some t\<rparr>"
    using set_row_member [OF assms(1,3) _ assms(7)] assms(6) by simp
  with assms(8) show ?thesis by simp
next
  case (advanced since deg n flags oc1 w1 w2)
  let ?us = "map rr_user_id (recipients_of (dg_id r0) w)"
  have "r = (degraded_row deg r0)\<lparr>dg_next_run_date := Some n\<rparr>"
    using set_row_member [OF assms(1,3) _ assms(7)] assms(6) advanced(5) by simp
  with assms(8) obtain q where q: "deg = Some q" "dg_periodicity r = q" by (cases deg) auto
  then have dec: "?us \<noteq> []" "any_logged_in_since (slot_port (en_port eng)) ?us since = Inr False"
    "next_rung (dg_periodicity r0) = Some q"
    using advanced(3) by (auto simp: degrade_decision_def split: if_splits)
  have src: "source_fault s = None"
    using dec(1,2) assms(5) by (auto simp: sql_port_def sql_any_logged_in_since_def split: option.splits)
  have "\<not> (\<exists>u \<in> set (users s). us_id u \<in> set ?us \<and> (\<exists>t. us_last_login u = Some t \<and> since \<le> t))"
    using sql_any_logged_in_since_iff [OF src, of ?us since] dec(2) assms(5) by (simp add: sql_port_def)
  then have "\<forall>u \<in> set (users s). (dg_id r0, us_id u) \<in> active_pairs w \<longrightarrow>
      (case us_last_login u of None \<Rightarrow> True | Some t \<Rightarrow> t < since)"
    unfolding recipients_of_ids by (auto split: option.split)
  moreover obtain u where "u \<in> set ?us" using dec(1) by (cases ?us) auto
  then have "(dg_id r0, u) \<in> active_pairs w" unfolding recipients_of_ids by simp
  ultimately show ?thesis using advanced(1) q(2) dec(3) by auto
qed

lemma advance_digest_no_faults:
  assumes "sql_faults w = []" "dr_id d \<in> dg_id ` set (digests w)"
    and "advance (cal X) (case deg of None \<Rightarrow> dr_periodicity d | Some q \<Rightarrow> q) (date_naive now) = Some n"
  shows "\<exists>oc' w'. advance_digest X d deg k now oc w = (Ok (), oc', w') \<and> sql_faults w' = []"
proof -
  have up: "sql (update_digest i f) w = (Ok (fst (update_digest i f w)), snd (update_digest i f w))"
    if "sql_faults w = []" for i f w
    using that by (simp add: sql_no_faults split: prod.split)
  have n: "fst (update_digest (dr_id d) f w) = 0 \<longleftrightarrow> False" if "dr_id d \<in> dg_id ` set (digests w)" for f w
    using that update_digest_count by simp
  have keep: "dr_id d \<in> dg_id ` set (digests (write_audit ev (snd (update_digest (dr_id d) (\<lambda>r. r\<lparr>dg_periodicity := q\<rparr>) w))))"
    for q ev
    using assms(2) ids_set_row [of "\<lambda>r. r\<lparr>dg_periodicity := q\<rparr>" "dr_id d" "digests w"] by simp
  show ?thesis
    using assms
    by (cases deg) (simp_all add: n [OF assms(2)] n [OF keep] advance_digest_def degrade_def bind_sweep_def run_io_def return_def
        expect_def up tally_def log_event_def)
qed

lemma demo_batch:
  "\<exists>oc' w'. process_digest demo_externals demo_engine demo_clock (read_row demo_digest) demo_now oc demo_world
     = (Ok (), oc', w') \<and> sql_faults w' = []"
proof -
  let ?rs = "recipients_of 1 demo_world" and ?d = "read_row demo_digest"
  let ?since = "demo_now - 2 * day_nanos"
  have since: "plus_time (cal demo_externals) demo_now (- 2 * day_nanos) = Some ?since" by code_simp
  have [simp]: "dg_id demo_digest = 1" "dg_periodicity demo_digest = Daily" by (simp_all add: demo_digest_def)
  have ar: "active_recipients 1 demo_world = (Ok ?rs, demo_world)"
    by (simp add: active_recipients_def select_no_faults demo_no_faults recipients_of_def)
  have "any_logged_in_since demo_port [11, 12] ?since = Inr False"
    by (simp add: demo_port_def sql_port_def sql_any_logged_in_since_def demo_sapiens_def day_nanos_def nanos_def)
  then have sl: "slowdown_check demo_engine ?d (map rr_user_id ?rs) ?since demo_world = (Ok (Some Weekly), demo_world)"
    by (simp add: slowdown_check_def demo_recipients demo_slot_port return_def)
  have "\<forall>r \<in> set ?rs. rr_user_id r = 11 \<or> rr_user_id r = 12"
  proof -
    have "rr_user_id ` set ?rs = {11, 12}" using demo_recipients by (metis list.set(1) list.set(2) set_map)
    then show ?thesis by blast
  qed
  moreover have "digest_kpis demo_world = []" by (simp add: demo_world_def idle_world_def)
  ultimately obtain oc1 w1 where se: "send_all demo_externals demo_engine demo_clock ?d demo_now ?rs False None
      oc demo_world = (Ok (False, None), oc1, w1)" "sql_faults w1 = []"
    using demo_send_all [OF demo_no_faults(1)] by blast
  have "schedule_view w1 = schedule_view demo_world"
    using send_all_preserves [OF demo_seam schedule_view_stable refl, of demo_externals demo_clock ?d demo_now
        ?rs False None oc demo_world] se(1) by simp
  then have D: "dr_id ?d \<in> dg_id ` set (digests w1)"
    by (simp add: schedule_view_def demo_world_def idle_world_def demo_digest_def)
  have "advance (cal demo_externals) Weekly (date_naive demo_now) \<noteq> None"
    by code_simp
  then obtain n where "advance (cal demo_externals) (case Some Weekly of None \<Rightarrow> dr_periodicity ?d | Some q \<Rightarrow> q)
      (date_naive demo_now) = Some n" by auto
  from advance_digest_no_faults [OF se(2) D this]
  obtain oc2 w2 where "advance_digest demo_externals ?d (Some Weekly) (length (map rr_user_id ?rs)) demo_now oc1 w1
      = (Ok (), oc2, w2)" "sql_faults w2 = []" by blast
  with ar sl se(1) show ?thesis
    by (simp add: process_digest_def Let_def bind_sweep_def run_io_def expect_def return_def since [simplified])
qed

lemma slowdown_needs_silence_witness:
  "\<exists>oc' w'. process_digest demo_externals demo_engine demo_clock (read_row demo_digest) demo_now empty_outcome demo_world
       = (Ok (), oc', w') \<and>
     (\<forall>r \<in> set (digests w'). dg_id r = 1 \<and> dg_periodicity r \<noteq> Daily \<longrightarrow> dg_periodicity r = Weekly)"
proof -
  obtain oc' w' where run: "process_digest demo_externals demo_engine demo_clock (read_row demo_digest) demo_now
      empty_outcome demo_world = (Ok (), oc', w')" using demo_batch by blast
  have D: "demo_digest \<in> set (digests demo_world)" by (simp add: demo_world_def idle_world_def)
  have port: "slot_port (en_port demo_engine) = sql_port demo_uuid_show demo_sapiens"
    by (simp add: demo_slot_port demo_port_def)
  have "dg_periodicity r = Weekly" if "r \<in> set (digests w')" "dg_id r = 1" "dg_periodicity r \<noteq> Daily" for r
    using slowdown_needs_silence [OF demo_world_ok demo_seam D run port that(1)] that(2,3)
    by (simp add: demo_digest_def)
  with run show ?thesis by blast
qed

end
