(* ===== verification/Sweep_Mails.thy ===== *)
theory Sweep_Mails
  imports Demo
begin

text \<open>
  Who a sweep mails. The invariant \<open>batch_mails\<close> describes the mails queued since the start of a
  sweep while digest \<open>d\<close> is in its batch: each goes to an active pair, carries that pair's own
  unsubscribe link, and no pair is mailed twice. It is kept by a send, by a batch, by an iteration
  and by the loop.
\<close>

definition mail_pair :: "outgoing_mail \<Rightarrow> uuid \<times> uuid" where
  "mail_pair m = (om_digest_id m, om_recipient_user_id m)"

text \<open>The mail's headers are those of some link of the engine for the mail's own pair.\<close>

definition has_own_link :: "externals \<Rightarrow> engine \<Rightarrow> outgoing_mail \<Rightarrow> bool" where
  "has_own_link X eng m \<longleftrightarrow>
     (\<exists>wall url. unsubscribe_url X eng wall (om_digest_id m) (om_recipient_user_id m) = Ok url \<and>
        om_headers m = mail_headers url)"

definition batch_mails ::
  "externals \<Rightarrow> engine \<Rightarrow> (uuid \<times> uuid) set \<Rightarrow> outgoing_mail list \<Rightarrow> uuid set \<Rightarrow> uuid \<Rightarrow> uuid set \<Rightarrow> world \<Rightarrow> bool" where
  "batch_mails X eng A M p d us w \<longleftrightarrow> active_pairs w = A \<and>
     (\<exists>new. mails w = M @ new \<and> distinct (map mail_pair new) \<and>
        (\<forall>m \<in> set new. mail_pair m \<in> A \<and> has_own_link X eng m \<and>
           (om_digest_id m \<in> p \<or> (om_digest_id m = d \<and> om_recipient_user_id m \<notin> us))))"

section \<open>One send\<close>

lemma deliver_mails:
  assumes "mail_seam (en_mail_seam eng)"
  shows "mails (snd (deliver X eng wall plan w)) \<in> {mails w, mails w @ [outgoing wall plan]}"
proof -
  obtain res w1 where s: "en_mail_seam eng (outgoing wall plan) w = (res, w1)"
    by (cases "en_mail_seam eng (outgoing wall plan) w") auto
  have m1: "mails w1 = (case res of Ok _ \<Rightarrow> mails w @ [outgoing wall plan] | _ \<Rightarrow> mails w)"
    using mail_seam.send_mails [OF assms, of "outgoing wall plan" w] s by simp
  have keep: "preserves (\<lambda>w. mails w = v) (and_then (case rp_tip plan of
         None \<Rightarrow> return () | Some t \<Rightarrow> consume_tip (tp_tip_id t) (rp_user_id plan)) (\<lambda>_.
     and_then (if rp_is_first_digest plan
         then stamp_subscription_metadata (rp_digest_id plan) (rp_user_id plan)
           [''first_digest_sent_at'' \<mapsto> JStr (to_rfc3339 X wall)]
         else return ()) (\<lambda>_ w.
     (Ok i, write_audit (DigestEmailSent (rp_digest_id plan) (rp_user_id plan) i) w))))" for v and i :: uuid
    unfolding consume_tip_def stamp_subscription_metadata_def
    by (intro preserves_and_then) (auto intro!: preserves_sql simp: preserves_def [of _ "\<lambda>w. (Ok i, _ w)"]
        split: option.split)
  show ?thesis
  proof (cases res)
    case (Ok i)
    then have "mails (snd (deliver X eng wall plan w)) = mails w1"
      using keep [of "mails w1" i] s by (simp add: deliver_def and_then_def [of "en_mail_seam _ _"] preserves_def)
    with m1 Ok show ?thesis by simp
  qed (use s m1 in \<open>auto simp: deliver_def and_then_def\<close>)
qed

lemma send_to_recipient_mails:
  assumes "mail_seam (en_mail_seam eng)"
  obtains (none) "mails (snd (send_to_recipient X eng wall d r now w)) = mails w"
  | (one) m where "mails (snd (send_to_recipient X eng wall d r now w)) = mails w @ [m]"
      "mail_pair m = (dr_id d, rr_user_id r)" "has_own_link X eng m"
proof -
  obtain res w1 where ren: "render X eng wall d r now w = (res, w1)"
    by (cases "render X eng wall d r now w") auto
  have "mails w1 = mails w" using reads_onlyD [OF reads_only_render ren] by auto
  note w1 = this
  show ?thesis
  proof (cases res)
    case (Ok plan)
    have snd: "mails (snd (send_to_recipient X eng wall d r now w)) = mails (snd (deliver X eng wall plan w1))"
      using ren Ok by (simp add: send_to_recipient_def and_then_def return_def split: prod.split res.split)
    have "render X eng wall d r now w = (Ok plan, w1)" using ren Ok by simp
    then obtain url where u: "unsubscribe_url X eng wall (dr_id d) (rr_user_id r) = Ok url"
      "rp_headers plan = mail_headers url" "rp_digest_id plan = dr_id d" "rp_user_id plan = rr_user_id r"
      by (rule render_Ok) simp
    then have "mail_pair (outgoing wall plan) = (dr_id d, rr_user_id r)" "has_own_link X eng (outgoing wall plan)"
      by (auto simp: mail_pair_def has_own_link_def outgoing_def)
    with none one deliver_mails [OF assms, of X wall plan w1] w1 snd show ?thesis by auto
  qed (use none ren w1 in \<open>auto simp: send_to_recipient_def and_then_def\<close>)
qed

lemma send_keeps_active:
  "mail_seam (en_mail_seam eng) \<Longrightarrow> active_pairs (snd (send_to_recipient X eng wall d r now w)) = active_pairs w"
  using send_to_recipient_preserves [OF _ schedule_view_stable, of eng "schedule_view w" X wall d r now]
  by (simp add: preserves_def schedule_view_def)

lemma batch_mails_cong:
  "batch_mails X eng A M p d us w \<Longrightarrow> active_pairs w' = active_pairs w \<Longrightarrow> mails w' = mails w \<Longrightarrow>
     batch_mails X eng A M p d us w'"
  by (simp add: batch_mails_def)

lemma batch_mails_mono: "batch_mails X eng A M p d us w \<Longrightarrow> us' \<subseteq> us \<Longrightarrow> batch_mails X eng A M p d us' w"
  by (fastforce simp: batch_mails_def)

lemma batch_mails_send:
  assumes "mail_seam (en_mail_seam eng)" "batch_mails X eng A M p (dr_id d) us w"
    and "dr_id d \<notin> p" "rr_user_id r \<in> us" "(dr_id d, rr_user_id r) \<in> A"
  shows "batch_mails X eng A M p (dr_id d) (us - {rr_user_id r}) (snd (send_to_recipient X eng wall d r now w))"
proof -
  let ?w = "snd (send_to_recipient X eng wall d r now w)"
  consider (none) "mails ?w = mails w"
    | (one) m where "mails ?w = mails w @ [m]" "mail_pair m = (dr_id d, rr_user_id r)" "has_own_link X eng m"
    by (rule send_to_recipient_mails [OF assms(1)])
  then show ?thesis
  proof cases
  case none
  have "batch_mails X eng A M p (dr_id d) us (snd (send_to_recipient X eng wall d r now w))"
    by (rule batch_mails_cong [OF assms(2)]) (simp_all add: none send_keeps_active [OF assms(1)])
  then show ?thesis by (rule batch_mails_mono) blast
next
  case (one m)
  obtain new where new: "mails w = M @ new" "distinct (map mail_pair new)"
    and all: "\<forall>x \<in> set new. mail_pair x \<in> A \<and> has_own_link X eng x \<and>
      (om_digest_id x \<in> p \<or> (om_digest_id x = dr_id d \<and> om_recipient_user_id x \<notin> us))"
    using assms(2) by (auto simp: batch_mails_def)
  have "mail_pair m \<notin> mail_pair ` set new"
    using all assms(3,4) one(2) by (force simp: mail_pair_def)
  then have d: "distinct (map mail_pair (new @ [m]))" using new(2) by simp
  have "mail_pair x \<in> A \<and> has_own_link X eng x \<and>
      (om_digest_id x \<in> p \<or> (om_digest_id x = dr_id d \<and> om_recipient_user_id x \<notin> us - {rr_user_id r}))"
    if "x \<in> set (new @ [m])" for x
    using that all one(2,3) assms(5) by (auto simp: mail_pair_def)
  moreover have "active_pairs w = A" using assms(2) by (simp add: batch_mails_def)
  ultimately show ?thesis
    unfolding batch_mails_def
    using d one(1) new(1) send_keeps_active [OF assms(1)] by (intro conjI exI [of _ "new @ [m]"]) simp_all
  qed
qed

section \<open>One batch\<close>

lemma send_all_mails:
  assumes "mail_seam (en_mail_seam eng)" "dr_id d \<notin> p"
  shows "batch_mails X eng A M p (dr_id d) (set (map rr_user_id rs)) w \<Longrightarrow> distinct (map rr_user_id rs) \<Longrightarrow>
    \<forall>r \<in> set rs. (dr_id d, rr_user_id r) \<in> A \<Longrightarrow>
    batch_mails X eng A M p (dr_id d) {} (snd (snd (send_all X eng clock d now rs mf df oc w)))"
proof (induction rs arbitrary: mf df oc w)
  case (Cons r rs)
  obtain res w1 where s: "send_to_recipient X eng (clock (dr_id d) (rr_user_id r)) d r now w = (res, w1)"
    by (cases "send_to_recipient X eng (clock (dr_id d) (rr_user_id r)) d r now w") auto
  have "batch_mails X eng A M p (dr_id d) (set (map rr_user_id (r # rs)) - {rr_user_id r}) w1"
    using batch_mails_send [OF assms(1) Cons.prems(1) assms(2), of r "clock (dr_id d) (rr_user_id r)" now]
      Cons.prems(3) s by simp
  moreover have "set (map rr_user_id (r # rs)) - {rr_user_id r} = set (map rr_user_id rs)"
    using Cons.prems(2) by auto
  ultimately have b: "batch_mails X eng A M p (dr_id d) (set (map rr_user_id rs)) w1" by simp
  note IH = Cons.IH [OF b]
  have e: "batch_mails X eng A M p (dr_id d) {} w1" by (rule batch_mails_mono [OF b]) simp
  show ?case
    using s IH Cons.prems(2,3) e by (cases res) (auto split: digest_error.split prod.split)
qed simp

lemma recipients_distinct:
  assumes "world_ok w"
  shows "distinct (map rr_user_id (recipients_of i w))"
proof -
  let ?f = "filter (\<lambda>r. su_digest_id r = i \<and> su_state r = Subscribed \<and> not_deleted (su_metadata r)) (subscriptions w)"
  have "distinct (map sub_key (subscriptions w))" using assms by (simp add: world_ok_def unique_key_def)
  then have "distinct (map sub_key ?f)" by (simp add: distinct_map inj_on_def)
  then have "distinct ?f \<and> inj_on su_user_id (set ?f)"
    by (auto simp: distinct_map inj_on_def sub_key_def)
  then have "distinct (sort_key su_user_id ?f)" "inj_on su_user_id (set (sort_key su_user_id ?f))" by simp_all
  then have "distinct (map su_user_id (sort_key su_user_id ?f))" by (simp add: distinct_map)
  then show ?thesis by (simp add: recipients_of_def comp_def)
qed

lemma row_stable_mails: "row_stable (batch_mails X eng A M p d us)"
  unfolding row_stable_def
  by (auto elim!: batch_mails_cong simp: active_pairs_def)

lemma sweep_mix:
  assumes "P w" "\<And>oc w. P w \<Longrightarrow> R (snd (snd (m oc w)))"
    and "\<And>a oc w. R w \<Longrightarrow> Q (snd (snd (f a oc w)))" "\<And>w. R w \<Longrightarrow> Q w"
  shows "Q (snd (snd (bind_sweep m f oc w)))"
proof -
  obtain r oc1 w1 where m: "m oc w = (r, oc1, w1)" by (cases "m oc w") auto
  with assms(2) [OF assms(1), of oc] have "R w1" by simp
  with m assms(3,4) show ?thesis by (cases r) (simp_all add: bind_sweep_def)
qed

lemma process_digest_mails:
  assumes "mail_seam (en_mail_seam eng)" "world_ok w" "dr_id d \<notin> p"
    and "batch_mails X eng A M p (dr_id d) UNIV w"
  shows "batch_mails X eng A M p (dr_id d) {} (snd (snd (process_digest X eng clock d now oc w)))"
proof -
  let ?rs = "recipients_of (dr_id d) w"
  let ?P = "batch_mails X eng A M p (dr_id d) (set (map rr_user_id ?rs))"
  let ?Q = "batch_mails X eng A M p (dr_id d) {}"
  have A: "\<forall>r \<in> set ?rs. (dr_id d, rr_user_id r) \<in> A"
    using recipients_of_ids [of "dr_id d" w] assms(4) by (auto simp: batch_mails_def)
  have PQ: "?P w \<Longrightarrow> ?Q w" for w by (rule batch_mails_mono) auto
  have P0: "?P w" by (rule batch_mails_mono [OF assms(4)]) simp
  obtain res w1 where ar: "active_recipients (dr_id d) w = (res, w1)"
    by (cases "active_recipients (dr_id d) w") auto
  have reads: "preserves ?P m" if "reads_only m" for m :: "'x io"
    by (rule row_stable_preserves(1) [OF row_stable_mails that])
  have "preserves ?P (active_recipients (dr_id d))"
    unfolding active_recipients_def by (rule reads) (rule reads_only_select)
  from preservesD [OF this P0 ar] have P1: "?P w1" .
  have sent: "batch_mails X eng A M p (dr_id d) {} (snd (snd (send_all X eng clock d now ?rs mf df oc w')))"
    if "?P w'" for mf df oc w'
    by (rule send_all_mails [OF assms(1,3) that recipients_distinct [OF assms(2)] A])
  have tail: "?Q (snd (snd ((if mf \<or> df \<noteq> None then retry_tomorrow X d now mf
      else advance_digest X d deg n now) oc w)))" if "?Q w" for mf and df :: "string option" and deg n oc w
    using retry_tomorrow_preserves [OF row_stable_mails, of X eng A M p "dr_id d" "{}" X d now mf]
      advance_digest_preserves [OF row_stable_mails, of X eng A M p "dr_id d" "{}" X d deg n now] that
    by (auto simp: sweep_preserves_def)
  have sends: "?Q (snd (snd (bind_sweep (send_all X eng clock d now ?rs False None) (\<lambda>(mf, df).
      if mf \<or> df \<noteq> None then retry_tomorrow X d now mf else advance_digest X d deg n now) oc w)))"
    if "?P w" for deg n oc w
    by (rule sweep_mix [where P = ?P and R = ?Q]) (use that sent tail in \<open>auto split: prod.split\<close>)
  have io: "?P (snd (snd (run_io m oc w)))" if "preserves ?P m" "?P w" for m :: "'x io" and oc w
    using sweep_preserves_run_io [OF that(1)] that(2) by (simp add: sweep_preserves_def)
  have slow: "?Q (snd (snd (bind_sweep (run_io (slowdown_check eng d us since)) (\<lambda>deg.
      bind_sweep (send_all X eng clock d now ?rs False None) (\<lambda>(mf, df).
      if mf \<or> df \<noteq> None then retry_tomorrow X d now mf else advance_digest X d deg n now)) oc w)))"
    if "?P w" for us since n oc w
  proof (rule sweep_mix [where P = ?P and R = ?P, OF that])
    show "?P (snd (snd (run_io (slowdown_check eng d us since) oc w)))" if "?P w" for oc w
      by (rule io [OF slowdown_preserves [OF row_stable_mails] that])
  qed (rule sends PQ, assumption)+
  have win: "?Q (snd (snd (bind_sweep (run_io (expect x)) (\<lambda>since.
      bind_sweep (run_io (slowdown_check eng d us since)) (\<lambda>deg.
      bind_sweep (send_all X eng clock d now ?rs False None) (\<lambda>(mf, df).
      if mf \<or> df \<noteq> None then retry_tomorrow X d now mf else advance_digest X d deg n now))) oc w)))"
    if "?P w" for x us n oc w
  proof (rule sweep_mix [where P = ?P and R = ?P, OF that])
    show "?P (snd (snd (run_io (expect x) oc w)))" if "?P w" for oc w
      by (rule io [OF reads [OF reads_only_expect] that])
  qed (rule slow PQ, assumption)+
  show ?thesis
  proof (cases res)
    case (Ok rs)
    with ar have "rs = ?rs" using active_recipients_Ok by simp
    with ar Ok win [OF P1] show ?thesis
      by (simp add: process_digest_def Let_def bind_sweep_def [of "run_io (active_recipients _)"] run_io_def [of "active_recipients _"])
  qed (use ar P1 PQ in \<open>simp_all add: process_digest_def bind_sweep_def run_io_def\<close>)
qed

section \<open>The sweep\<close>

lemma batch_mails_next:
  "batch_mails X eng A M p d {} w \<Longrightarrow> batch_mails X eng A M (insert d p) d' UNIV w"
  by (fastforce simp: batch_mails_def)

lemma batch_mails_start: "batch_mails X eng A M p d UNIV w \<Longrightarrow> batch_mails X eng A M p d' UNIV w"
  by (simp add: batch_mails_def)

lemma run_batch_mails:
  assumes "mail_seam (en_mail_seam eng)" "world_ok w" "dr_id d \<notin> set p"
    and "batch_mails X eng A M (set p) (dr_id d) UNIV w"
  shows "case run_batch X eng clock now (p @ [dr_id d]) d oc w of
      Continue p' oc' w' \<Rightarrow> p' = p @ [dr_id d] \<and> world_ok w' \<and> batch_mails X eng A M (set p') 0 UNIV w'
    | Halt r oc' w' \<Rightarrow> batch_mails X eng A M (set (p @ [dr_id d])) 0 UNIV w'"
proof -
  obtain r oc1 w1 where pd: "process_digest X eng clock d now oc w = (r, oc1, w1)"
    by (cases "process_digest X eng clock d now oc w") auto
  let ?B = "batch_mails X eng A M (set (p @ [dr_id d])) 0 UNIV"
  have "batch_mails X eng A M (set p) (dr_id d) {} w1"
    using process_digest_mails [OF assms(1,2,3,4), of clock now oc] pd by simp
  then have B: "?B w1" using batch_mails_next by force
  have ok1: "world_ok w1"
    by (rule sweep_preservesD [OF process_digest_preserves [OF assms(1) batch_stable_ok] assms(2) pd])
  have up: "?B (w\<lparr>sql_faults := fs\<rparr>) = ?B w" "?B (write_audit ev w) = ?B w" "?B (rollback_to ds w) = ?B w" for fs ev ds w
    by (simp_all add: batch_mails_def active_pairs_def rollback_to_def)
  have undone: "world_ok (rollback_to (digests w) w1)"
    using assms(2) ok1 by (simp add: rollback_to_def world_ok_def)
  show ?thesis
  proof (cases r)
    case (Ok u)
    show ?thesis
      by (cases rule: select_cases [of "\<lambda>_. ()" w1])
        (use pd Ok B ok1 up in \<open>auto simp: run_batch_def tx_statement_def Let_def\<close>)
  next
    case (Err e)
    show ?thesis
      by (cases rule: select_cases [of "\<lambda>_. ()" "rollback_to (digests w) w1"])
        (use pd Err B undone up in \<open>auto simp: run_batch_def tx_statement_def Let_def\<close>)
  qed (use pd B up in \<open>auto simp: run_batch_def Let_def\<close>)
qed

lemma sweep_iteration_mails:
  assumes "mail_seam (en_mail_seam eng)" "world_ok w" "batch_mails X eng A M (set p) 0 UNIV w"
  shows "case sweep_iteration X eng clock now p oc w of
      Continue p' oc' w' \<Rightarrow> world_ok w' \<and> batch_mails X eng A M (set p') 0 UNIV w'
    | Halt r oc' w' \<Rightarrow> \<exists>p'. batch_mails X eng A M p' 0 UNIV w'"
proof -
  have up: "batch_mails X eng A M P d us (w\<lparr>sql_faults := fs\<rparr>) = batch_mails X eng A M P d us w" for P d us fs w
    by (simp add: batch_mails_def)
  show ?thesis
  proof (cases rule: claim_phase [of "date_naive now" p w])
    case (some r rs fs)
    have n: "dr_id (read_row r) \<notin> set p" using due_queue_head(3) [OF some(2)] by simp
    have b: "batch_mails X eng A M (set p) (dr_id (read_row r)) UNIV (w\<lparr>sql_faults := fs\<rparr>)"
      using assms(3) up by (simp add: batch_mails_start)
    have eq: "sweep_iteration X eng clock now p oc w =
        run_batch X eng clock now (p @ [dr_id (read_row r)]) (read_row r) (oc\<lparr>so_claimed := so_claimed oc + 1\<rparr>)
          (w\<lparr>sql_faults := fs\<rparr>)"
      using some(1) by (simp add: sweep_iteration_def)
    show ?thesis
      unfolding eq using run_batch_mails [OF assms(1) _ n b, of clock now "oc\<lparr>so_claimed := so_claimed oc + 1\<rparr>"] assms(2)
      by (auto split: iteration.splits)
  qed (use assms(3) up in \<open>auto simp: sweep_iteration_def\<close>)
qed

lemma sweep_loop_mails:
  assumes "sweep_loop X eng clock now p oc w = Some res" "mail_seam (en_mail_seam eng)"
    and "world_ok w" "batch_mails X eng A M (set p) 0 UNIV w"
  shows "\<exists>p'. batch_mails X eng A M p' 0 UNIV (snd (snd res))"
  using assms(2-4)
proof (induction rule: sweep_loop.raw_induct [OF _ assms(1), consumes 0])
  case (1 loop X eng clock now p oc w res)
  note step = sweep_iteration_mails [OF 1(3,4,5), of clock now oc]
  show ?case
  proof (cases "sweep_iteration X eng clock now p oc w")
    case (Halt r1 oc1 w1)
    with step 1(2) show ?thesis by auto
  next
    case (Continue p1 oc1 w1)
    with 1(2) have "loop X eng clock now p1 oc1 w1 = Some res" by simp
    from 1(1) [OF this 1(3)] step Continue show ?thesis by simp
  qed
qed

text \<open>
  C1: however a sweep ends, the mails it queued went to active subscriptions only, to each of them
  at most once, and each carries in its List-Unsubscribe header a link for its own digest and
  recipient.
\<close>

theorem sweep_mails_subscribers_once:
  assumes "world_ok w" "mail_seam (en_mail_seam eng)"
    and "run_daily_pull X eng clock now w = Some (r, w')"
  shows "\<exists>new. mails w' = mails w @ new \<and> distinct (map mail_pair new) \<and>
    (\<forall>m \<in> set new. mail_pair m \<in> active_pairs w \<and> has_own_link X eng m)"
proof -
  obtain r1 oc where "sweep_loop X eng clock now [] empty_outcome w = Some (r1, oc, w')"
    using assms(3) by (auto simp: run_daily_pull_def)
  moreover have "batch_mails X eng (active_pairs w) (mails w) (set []) 0 UNIV w"
    by (simp add: batch_mails_def)
  ultimately obtain p where "batch_mails X eng (active_pairs w) (mails w) p 0 UNIV w'"
    using sweep_loop_mails assms(1,2) by (metis snd_conv)
  then show ?thesis by (auto simp: batch_mails_def)
qed

lemma sweep_mails_subscribers_once_witness:
  "\<exists>r w' new. run_daily_pull demo_externals demo_engine demo_clock demo_now demo_world = Some (r, w') \<and>
     mails w' = new \<and> distinct (map mail_pair new) \<and> (\<forall>m \<in> set new. mail_pair m \<in> {(1, 11), (1, 12)})"
proof -
  obtain r w' where run: "run_daily_pull demo_externals demo_engine demo_clock demo_now demo_world = Some (r, w')"
    by (rule run_daily_pull_end [OF demo_world_ok demo_seam, of demo_externals demo_clock demo_now])
  have "mails demo_world = []" by (simp add: demo_world_def idle_world_def)
  with sweep_mails_subscribers_once [OF demo_world_ok demo_seam run] run demo_active show ?thesis by auto
qed

end
