(* ===== verification/Mail_Properties.thy ===== *)
theory Mail_Properties
  imports Demo "HOL-Library.Multiset" "HOL-Library.Sublist"
begin

text \<open>
  The properties of one mail: what decides the KPIs it shows, which tip it carries, when it is
  refused, and what a delivery writes. Each is followed by its witness on the deployment of
  \<^verbatim>\<open>Demo\<close>.
\<close>

section \<open>The fence\<close>

text \<open>
  C15: the company fence is a non-interference boundary. Two engines whose registries agree on every
  declaration, and on the compute functions of the KPIs whose fence the recipient passes, send the
  recipient the same mail with the same effects: what an out-of-fence KPI would compute reaches
  nothing, not even by failing.
\<close>

theorem fence_blinds:
  assumes "\<And>ctx. resolve (slot_port (en_port eng)) (rr_user_id r) = Inr ctx \<Longrightarrow>
      same_for (rc_company_id ctx) (en_registry eng) reg"
  shows "send_to_recipient X (eng\<lparr>en_registry := reg\<rparr>) wall d r now w = send_to_recipient X eng wall d r now w"
proof -
  let ?eng = "eng\<lparr>en_registry := reg\<rparr>"
  have same: "resolve_recipient X ?eng = resolve_recipient X eng" "unsubscribe_url X ?eng = unsubscribe_url X eng"
    "pick_tip X ?eng = pick_tip X eng" "deliver X ?eng = deliver X eng"
    by (simp_all add: fun_eq_iff resolve_recipient_def unsubscribe_url_def pick_tip_def deliver_def split: option.split)
  have "render X ?eng wall d r now = render X eng wall d r now"
  proof (cases "resolve_recipient X eng (rr_user_id r)")
    case (Inl e)
    then show ?thesis by (simp add: render_def same and_then_simps)
  next
    case (Inr ctx)
    then have "resolve (slot_port (en_port eng)) (rr_user_id r) = Inr ctx"
      by (auto simp: resolve_recipient_def split: sum.splits)
    from render_key_same_for [OF assms [OF this]] Inr show ?thesis
      by (simp add: render_def same and_then_simps)
  qed
  then show ?thesis by (simp add: send_to_recipient_def same)
qed

text \<open>A registry whose company-fenced KPI fails loudly, seen by a recipient without a company.\<close>

definition broken_kpi :: kpi_definition where
  "broken_kpi = (connected_users_kpi demo_port)\<lparr>kd_computer := (\<lambda>_. Inl (Compute ''boom''))\<rparr>"

definition broken_registry :: kpi_registry where
  "broken_registry = [(kpi_messages_sent, messages_sent_kpi (Inr [])), (kpi_connected_users, broken_kpi)]"

lemma fence_blinds_witness:
  "send_to_recipient demo_externals (demo_engine\<lparr>en_registry := broken_registry\<rparr>) demo_now (read_row demo_digest)
     \<lparr>rr_user_id = 12, rr_metadata = Map.empty\<rparr> demo_now demo_world =
   send_to_recipient demo_externals demo_engine demo_now (read_row demo_digest)
     \<lparr>rr_user_id = 12, rr_metadata = Map.empty\<rparr> demo_now demo_world"
proof (rule fence_blinds)
  fix ctx
  assume "resolve (slot_port (en_port demo_engine)) (rr_user_id \<lparr>rr_user_id = 12, rr_metadata = Map.empty\<rparr>) = Inr ctx"
  then have "rc_company_id ctx = None"
    by (auto simp: demo_slot_port demo_port_def sql_port_def sql_resolve_def demo_sapiens_def active_company_def
        active_membership_def Let_def)
  then show "same_for (rc_company_id ctx) (en_registry demo_engine) broken_registry"
    by (auto simp: same_for_def demo_engine_def demo_registry_def broken_registry_def registry_get_def
        broken_kpi_def connected_users_kpi_def split: option.split)
qed

text \<open>
  C22: a rendered mail accounts for every enabled KPI exactly once: shown, dropped for its fence, or
  dropped because its source is missing. The fence list is decided by the declarations alone.
\<close>

theorem render_accounts_for_keys:
  assumes "render X eng wall d r now w = (Ok plan, w')"
  shows "mset (rp_rendered plan) + mset (rp_dropped_out_of_fence plan) + mset (rp_dropped_unavailable plan) =
      mset (enabled_keys (dr_id d) w) \<and>
    (\<exists>ctx. resolve (slot_port (en_port eng)) (rr_user_id r) = Inr ctx \<and>
      rp_dropped_out_of_fence plan = filter (\<lambda>k. \<exists>def. registry_get (en_registry eng) k = Some def \<and>
        \<not> renders_for (kd_fence def) (rc_company_id ctx)) (enabled_keys (dr_id d) w))"
proof (rule render_Ok [OF assms])
  fix ctx url ws rendered oof unav tip
  let ?f = "render_key (en_registry eng) ctx (rr_user_id r) ws" and ?ks = "enabled_keys (dr_id d) w"
  assume ctx: "resolve (slot_port (en_port eng)) (rr_user_id r) = Inr ctx"
    and keys: "render_keys ?f ?ks ([], [], []) = Inr (rendered, oof, unav)"
    and plan: "plan = plan_of X wall d r now ctx url (rendered, oof, unav) tip"
  note k = render_keys_Inr [OF keys]
  have split: "mset (filter (\<lambda>k. \<exists>x. f k = Rendered x) ks) + mset (filter (\<lambda>k. f k = OutOfFence) ks) +
      mset (filter (\<lambda>k. f k = SourceMissing) ks) = mset ks" if "\<forall>k \<in> set ks. \<forall>e. f k \<noteq> Failed e"
    for f :: "string \<Rightarrow> key_outcome" and ks
    using that
  proof (induction ks)
    case (Cons k ks)
    then show ?case by (cases "f k") simp_all
  qed simp
  have "map rk_key rendered = filter (\<lambda>k. \<exists>x. ?f k = Rendered x) ?ks"
    unfolding k(1) by (rule rendered_of_keys) (rule render_key_Rendered)
  with split [OF k(4)] k(2,3) ctx plan show ?thesis
    by (auto simp: render_key_out_of_fence_iff)
qed

section \<open>Zero is a value\<close>

lemma sublist_left: "sublist x a \<Longrightarrow> sublist x (a @ b)"
  and sublist_right: "sublist x b \<Longrightarrow> sublist x (a @ b)"
  by (auto simp: sublist_def) (metis append.assoc)+

lemma sublist_row: "k \<in> set rendered \<Longrightarrow> sublist (f k) (concat (map f rendered))"
  by (induction rendered) (auto intro: sublist_left sublist_right)

lemma show_row_in_body:
  assumes "k \<in> set rendered"
  shows "sublist (show_row X k) (build_body X wall d rendered tip url first)"
proof -
  have "rendered \<noteq> []" using assms by auto
  with sublist_row [OF assms, of "show_row X"] show ?thesis
    unfolding build_body_def by (simp only: sublist_left sublist_right if_False)
qed

text \<open>
  C23: zero is a value, not an absence. An enabled KPI inside the recipient's fence whose compute
  function returns zero for every window is listed as rendered, and the mail's body holds its row
  with three cells reading 0.
\<close>

theorem zero_is_rendered:
  assumes "render X eng wall d r now w = (Ok plan, w')" "k \<in> set (enabled_keys (dr_id d) w)"
    and "resolve (slot_port (en_port eng)) (rr_user_id r) = Inr ctx"
    and "registry_get (en_registry eng) k = Some def" "renders_for (kd_fence def) (rc_company_id ctx)"
    and "\<And>q. kd_computer def q = Inr kpi_zero"
  shows "k \<in> set (rp_rendered plan) \<and> sublist
    (show_row X \<lparr> rk_key = k, rk_label = kd_label def, rk_cells = replicate 3 (kpi_zero, None) \<rparr>) (rp_body_html plan) \<and>
    show_cell (kpi_zero, None) = ''0''"
proof (rule render_Ok [OF assms(1)])
  fix ctx' url ws rendered oof unav tip
  let ?f = "render_key (en_registry eng) ctx' (rr_user_id r) ws" and ?ks = "enabled_keys (dr_id d) w"
  let ?x = "\<lparr> rk_key = k, rk_label = kd_label def, rk_cells = replicate 3 (kpi_zero, None) \<rparr>"
  assume ctx: "resolve (slot_port (en_port eng)) (rr_user_id r) = Inr ctx'" and ws: "windows_at (cal X) now = Some ws"
    and keys: "render_keys ?f ?ks ([], [], []) = Inr (rendered, oof, unav)"
    and plan: "plan = plan_of X wall d r now ctx' url (rendered, oof, unav) tip"
  have "?f k = Rendered ?x"
    by (rule render_key_zero [OF assms(4) _ _ ws]) (use ctx assms(3,5,6) in auto)
  then have x: "?x \<in> set rendered"
    using assms(2) unfolding render_keys_Inr(1) [OF keys] by (force simp: rendered_of_def)
  then have "k \<in> set (map rk_key rendered)" by force
  moreover have "sublist (show_row X ?x) (rp_body_html plan)"
    unfolding plan using show_row_in_body [OF x] by (simp add: plan_of_def Let_def)
  ultimately show ?thesis
    using plan show_cell_zero by simp
qed

definition kpi_world :: world where
  "kpi_world = demo_world\<lparr>digest_kpis :=
     [\<lparr> kp_digest_id = 1, kp_key = kpi_messages_sent, kp_metadata = Map.empty \<rparr>]\<rparr>"

lemma kpi_world_keys: "enabled_keys (dr_id (read_row demo_digest)) kpi_world = [kpi_messages_sent]"
  by (simp add: enabled_keys_def kpi_world_def demo_digest_def)

lemma demo_messages_kpi:
  "registry_get (en_registry demo_engine) kpi_messages_sent = Some (messages_sent_kpi (Inr []))"
  "renders_for (kd_fence (messages_sent_kpi (Inr []))) company"
  "kd_computer (messages_sent_kpi (Inr [])) q = Inr kpi_zero"
  by (simp_all add: demo_engine_def demo_registry_def registry_get_def messages_sent_kpi_def
      messages_sent_compute_def kpi_zero_def kpi_count_def)

lemma kpi_world_render:
  "\<exists>ctx plan. resolve (slot_port (en_port demo_engine)) (rr_user_id demo_recipient) = Inr ctx \<and>
     render demo_externals demo_engine demo_now (read_row demo_digest) demo_recipient demo_now kpi_world = (Ok plan, kpi_world)"
proof -
  obtain ctx where ctx: "resolve (slot_port (en_port demo_engine)) (rr_user_id demo_recipient) = Inr ctx"
    using demo_resolve by (auto simp: demo_slot_port demo_recipient_def)
  obtain url where url: "unsubscribe_url demo_externals demo_engine demo_now (dr_id (read_row demo_digest))
      (rr_user_id demo_recipient) = Ok url" using demo_url by blast
  obtain ws where ws: "windows_at (cal demo_externals) demo_now = Some ws" using demo_windows by blast
  have keys: "render_keys (render_key (en_registry demo_engine) ctx (rr_user_id demo_recipient) ws)
      (enabled_keys (dr_id (read_row demo_digest)) kpi_world) ([], [], []) =
      Inr ([\<lparr> rk_key = kpi_messages_sent, rk_label = kd_label (messages_sent_kpi (Inr [])),
        rk_cells = replicate 3 (kpi_zero, None) \<rparr>], [], [])"
    unfolding kpi_world_keys
    by (simp add: render_key_zero [OF demo_messages_kpi ws])
  have "sql_faults kpi_world = []" by (simp add: kpi_world_def demo_no_faults)
  from render_no_faults [OF this ctx url ws keys] ctx show ?thesis by blast
qed

lemma render_accounts_for_keys_witness:
  "\<exists>plan. render demo_externals demo_engine demo_now (read_row demo_digest) demo_recipient demo_now kpi_world =
      (Ok plan, kpi_world) \<and>
    mset (rp_rendered plan) + mset (rp_dropped_out_of_fence plan) + mset (rp_dropped_unavailable plan) =
      {# kpi_messages_sent #}"
proof -
  obtain plan where ren: "render demo_externals demo_engine demo_now (read_row demo_digest) demo_recipient demo_now
      kpi_world = (Ok plan, kpi_world)" using kpi_world_render by blast
  from render_accounts_for_keys [OF ren] ren show ?thesis unfolding kpi_world_keys by auto
qed

lemma zero_is_rendered_witness:
  "\<exists>plan. render demo_externals demo_engine demo_now (read_row demo_digest) demo_recipient demo_now kpi_world =
     (Ok plan, kpi_world) \<and> kpi_messages_sent \<in> set (rp_rendered plan)"
proof -
  obtain ctx plan where ctx: "resolve (slot_port (en_port demo_engine)) (rr_user_id demo_recipient) = Inr ctx"
    and ren: "render demo_externals demo_engine demo_now (read_row demo_digest) demo_recipient demo_now kpi_world =
      (Ok plan, kpi_world)" using kpi_world_render by blast
  have "kpi_messages_sent \<in> set (enabled_keys (dr_id (read_row demo_digest)) kpi_world)"
    unfolding kpi_world_keys by simp
  from zero_is_rendered [OF ren this ctx demo_messages_kpi] ren show ?thesis by blast
qed

section \<open>The tip\<close>

text \<open>A tip the recipient has not consumed and whose gate their group keys pass.\<close>

definition offered :: "engine \<Rightarrow> uuid \<Rightarrow> world \<Rightarrow> tip_rec \<Rightarrow> bool" where
  "offered eng u w t \<longleftrightarrow> t \<in> set (tips w) \<and> not_deleted (ti_metadata t) \<and>
     \<not> (\<exists>tu \<in> set (tip_users w). tu_tip_id tu = ti_id t \<and> tu_user_id tu = u \<and> not_deleted (tu_metadata tu)) \<and>
     gate_passes (case group_keys (slot_port (en_port eng)) u of Inr ks \<Rightarrow> Some ks | Inl _ \<Rightarrow> None) t"

text \<open>
  C24: the tip of a rendered mail is the first, by sequence and id, of the tips its recipient has not
  consumed and whose gate passes; there is none exactly when no tip is offered. A port that cannot
  name the recipient's groups withholds the gated tips and not the others.
\<close>

theorem tip_is_first_offered:
  assumes "render X eng wall d r now w = (Ok plan, w')"
  shows "case rp_tip plan of
      None \<Rightarrow> \<forall>t. \<not> offered eng (rr_user_id r) w t
    | Some p \<Rightarrow> \<exists>t. offered eng (rr_user_id r) w t \<and> p = tip_pick_of X t \<and>
        (\<forall>t'. offered eng (rr_user_id r) w t' \<longrightarrow> (ti_sequence t, ti_id t) \<le> (ti_sequence t', ti_id t'))"
proof (rule render_Ok [OF assms])
  fix ctx url ws rendered oof unav tip
  let ?u = "rr_user_id r"
  let ?keys = "case group_keys (slot_port (en_port eng)) ?u of Inr ks \<Rightarrow> Some ks | Inl _ \<Rightarrow> None"
  let ?fresh = "\<lambda>t. not_deleted (ti_metadata t) \<and>
     \<not> (\<exists>tu \<in> set (tip_users w). tu_tip_id tu = ti_id t \<and> tu_user_id tu = ?u \<and> not_deleted (tu_metadata tu))"
  assume tip: "tip = walk_tips X ?keys (unconsumed_tips ?u w)"
    and plan: "plan = plan_of X wall d r now ctx url (rendered, oof, unav) tip"
  have f: "rp_tip plan = map_option (tip_pick_of X)
      (find (gate_passes ?keys) (sort_key (\<lambda>t. (ti_sequence t, ti_id t)) (filter ?fresh (tips w))))"
    by (simp add: plan tip walk_tips_find unconsumed_tips_def)
  have o: "offered eng ?u w t \<longleftrightarrow> t \<in> set (filter ?fresh (tips w)) \<and> gate_passes ?keys t" for t
    by (auto simp: offered_def)
  show ?thesis
  proof (cases "find (gate_passes ?keys) (sort_key (\<lambda>t. (ti_sequence t, ti_id t)) (filter ?fresh (tips w)))")
    case None
    then have "\<forall>t \<in> set (filter ?fresh (tips w)). \<not> gate_passes ?keys t" unfolding find_None_sorted .
    then have "\<forall>t. \<not> offered eng ?u w t" unfolding o by blast
    with f None show ?thesis by simp
  next
    case (Some t)
    note best = find_sorted [OF Some]
    have "offered eng ?u w t" using best(1,2) unfolding o by blast
    moreover have "(ti_sequence t, ti_id t) \<le> (ti_sequence t', ti_id t')" if "offered eng ?u w t'" for t'
      by (rule best(3)) (use that in \<open>unfold o, blast+\<close>)
    ultimately show ?thesis using f Some by auto
  qed
qed

lemma demo_offered: "offered demo_engine 11 kpi_world t \<longleftrightarrow> t = demo_tip 31 2 None"
proof -
  have "group_keys (slot_port (en_port demo_engine)) 11 = Inr {}"
    by (simp add: demo_slot_port demo_port_def sql_port_def sql_group_keys_def demo_sapiens_def)
  then show ?thesis
    by (auto simp: offered_def kpi_world_def demo_world_def idle_world_def demo_tip_def gate_passes_def)
qed

lemma tip_is_first_offered_witness:
  "\<exists>plan. render demo_externals demo_engine demo_now (read_row demo_digest) demo_recipient demo_now kpi_world =
     (Ok plan, kpi_world) \<and> map_option tp_tip_id (rp_tip plan) = Some 31"
proof -
  obtain plan where ren: "render demo_externals demo_engine demo_now (read_row demo_digest) demo_recipient demo_now
      kpi_world = (Ok plan, kpi_world)" using kpi_world_render by blast
  have u: "rr_user_id demo_recipient = 11" by (simp add: demo_recipient_def)
  have "case rp_tip plan of None \<Rightarrow> False | Some p \<Rightarrow> p = tip_pick_of demo_externals (demo_tip 31 2 None)"
    using tip_is_first_offered [OF ren] unfolding u demo_offered by (auto split: option.splits)
  then have "map_option tp_tip_id (rp_tip plan) = Some 31"
    by (auto simp: tip_pick_of_def demo_tip_def split: option.splits)
  with ren show ?thesis by blast
qed

section \<open>Refusals\<close>

text \<open>
  C26: a recipient whom the port does not resolve, a missing token secret and a blank base URL refuse
  the mail before anything happens: the send is an error that is not a delivery failure, and the
  world is untouched, statements included.
\<close>

theorem no_mail_without_recipient_and_link:
  assumes "(\<exists>e. resolve (slot_port (en_port eng)) (rr_user_id r) = Inl e) \<or> en_unsub eng = None \<or>
    trim (en_public_base_url eng) = []"
  shows "\<exists>e. send_to_recipient X eng wall d r now w = (Err e, w) \<and> (\<forall>why. e \<noteq> MailDelivery why)"
proof (cases "resolve_recipient X eng (rr_user_id r)")
  case (Inl e)
  then have "\<forall>why. e \<noteq> MailDelivery why" by (auto simp: resolve_recipient_def split: sum.splits)
  with Inl show ?thesis by (auto simp: send_to_recipient_def render_def and_then_def throw_def)
next
  case (Inr ctx)
  then have "\<not> (\<exists>e. resolve (slot_port (en_port eng)) (rr_user_id r) = Inl e)"
    by (auto simp: resolve_recipient_def split: sum.splits)
  with assms have "en_unsub eng = None \<or> trim (en_public_base_url eng) = []" by blast
  then obtain e where "unsubscribe_url X eng wall (dr_id d) (rr_user_id r) = Err e" "\<forall>why. e \<noteq> MailDelivery why"
    by (cases "en_unsub eng") (auto simp: unsubscribe_url_def)
  with Inr show ?thesis by (auto simp: send_to_recipient_def render_def and_then_def throw_def return_def from_res_def)
qed

lemma no_mail_without_recipient_and_link_witness:
  "\<exists>e. send_to_recipient demo_externals (demo_engine\<lparr>en_port := slot_default\<rparr>) demo_now (read_row demo_digest)
     demo_recipient demo_now demo_world = (Err e, demo_world)"
  using no_mail_without_recipient_and_link [of "demo_engine\<lparr>en_port := slot_default\<rparr>" demo_recipient]
    slot_default_refuses(1) [of 11] by (fastforce simp: demo_recipient_def)

section \<open>What a delivery writes\<close>

lemma send_to_recipient_cases:
  obtains (unrendered) fs where "snd (send_to_recipient X eng wall d r now w) = w\<lparr>sql_faults := fs\<rparr>"
      "\<forall>x. fst (send_to_recipient X eng wall d r now w) \<noteq> Ok x"
  | (rendered) plan fs where "render X eng wall d r now w = (Ok plan, w\<lparr>sql_faults := fs\<rparr>)"
      "send_to_recipient X eng wall d r now w =
         and_then (deliver X eng wall plan) (\<lambda>mail_id. return (plan, mail_id)) (w\<lparr>sql_faults := fs\<rparr>)"
proof -
  obtain res w1 where ren: "render X eng wall d r now w = (res, w1)"
    by (cases "render X eng wall d r now w") auto
  from reads_onlyD [OF reads_only_render ren] obtain fs where w1: "w1 = w\<lparr>sql_faults := fs\<rparr>" by blast
  show ?thesis
  proof (cases res)
    case (Ok plan)
    with ren w1 rendered show ?thesis by (simp add: send_to_recipient_def and_then_def [of "render _ _ _ _ _ _"])
  qed (use ren w1 unrendered in \<open>simp_all add: send_to_recipient_def and_then_def\<close>)
qed

lemma preserves_length_mails:
  "preserves (\<lambda>w. k \<le> length (mails w)) (consume_tip t u)"
  "preserves (\<lambda>w. k \<le> length (mails w)) (stamp_subscription_metadata d u p)"
  by (simp_all add: consume_tip_def stamp_subscription_metadata_def preserves_sql)

lemma deliver_after_enqueue:
  assumes "en_mail_seam eng (outgoing wall plan) w = (Ok i, w1)"
  shows "length (mails w1) \<le> length (mails (snd (deliver X eng wall plan w)))"
proof -
  let ?P = "\<lambda>w. length (mails w1) \<le> length (mails w)"
  have "preserves ?P (and_then (case rp_tip plan of
         None \<Rightarrow> return () | Some t \<Rightarrow> consume_tip (tp_tip_id t) (rp_user_id plan)) (\<lambda>_.
     and_then (if rp_is_first_digest plan
         then stamp_subscription_metadata (rp_digest_id plan) (rp_user_id plan)
           [''first_digest_sent_at'' \<mapsto> JStr (to_rfc3339 X wall)]
         else return ()) (\<lambda>_ w.
     (Ok i, write_audit (DigestEmailSent (rp_digest_id plan) (rp_user_id plan) i) w))))"
    by (intro preserves_and_then)
      (auto intro: preserves_length_mails simp: preserves_def [of _ "\<lambda>w. (Ok i, _ w)"] split: option.split)
  then show ?thesis
    using assms by (simp add: deliver_def and_then_def [of "en_mail_seam _ _"] preserves_def)
qed

text \<open>
  C17: no mark without a mail. However a send ends, and whatever statements fail, if it queued no
  mail then it changed nothing else either: no tip is consumed, no subscription is stamped, no
  audit event claims a mail.
\<close>

theorem no_mark_without_mail:
  assumes "mail_seam (en_mail_seam eng)" "send_to_recipient X eng wall d r now w = (res, w')"
    and "length (mails w') \<le> length (mails w)"
  shows "\<exists>fs. w' = w\<lparr>sql_faults := fs\<rparr>"
proof (cases rule: send_to_recipient_cases [of X eng wall d r now w])
  case (unrendered fs)
  with assms(2) show ?thesis by auto
next
  case (rendered plan fs)
  let ?w = "w\<lparr>sql_faults := fs\<rparr>"
  have dw: "snd (deliver X eng wall plan ?w) = w'"
    using rendered(2) assms(2) by (auto simp: and_then_def return_def split: prod.splits res.splits)
  obtain sres w1 where s: "en_mail_seam eng (outgoing wall plan) ?w = (sres, w1)"
    by (cases "en_mail_seam eng (outgoing wall plan) ?w") auto
  show ?thesis
  proof (cases sres)
    case (Ok i)
    then have "mails w1 = mails w @ [outgoing wall plan]"
      using mail_seam.send_ok [OF assms(1)] s by fastforce
    moreover have "length (mails w1) \<le> length (mails w')"
      using deliver_after_enqueue [of eng wall plan ?w i w1 X] s Ok dw by simp
    ultimately show ?thesis using assms(3) by simp
  next
    case (Err e)
    then have "w1 = ?w" using mail_seam.send_error [OF assms(1)] s by blast
    with s Err dw deliver_refused [of eng wall plan ?w e w1 X] show ?thesis by auto
  next
    case Panic
    with s mail_seam.send_no_panic [OF assms(1)] show ?thesis by blast
  qed
qed

definition refusing_engine :: engine where
  "refusing_engine = demo_engine\<lparr>en_mail_seam := recording_send (fail_next ''down'' recording_new) 77\<rparr>"

lemma refusing_seam: "mail_seam (en_mail_seam refusing_engine)"
  by (simp add: refusing_engine_def recording.mail_seam_axioms)

lemma no_mark_without_mail_witness:
  "\<exists>res w' fs. send_to_recipient demo_externals refusing_engine demo_now (read_row demo_digest) demo_recipient
     demo_now demo_world = (res, w') \<and> mails w' = [] \<and> w' = demo_world\<lparr>sql_faults := fs\<rparr>"
proof -
  obtain res w' where run: "send_to_recipient demo_externals refusing_engine demo_now (read_row demo_digest)
      demo_recipient demo_now demo_world = (res, w')"
    by (cases "send_to_recipient demo_externals refusing_engine demo_now (read_row demo_digest)
      demo_recipient demo_now demo_world") auto
  have refuse: "en_mail_seam refusing_engine m w = (Err (MailDelivery ''down''), w)" for m w
    by (simp add: refusing_engine_def recording_send_def fail_next_def)
  have "mails w' = mails demo_world"
  proof (cases rule: send_to_recipient_cases [of demo_externals refusing_engine demo_now "read_row demo_digest"
        demo_recipient demo_now demo_world])
    case (rendered plan fs)
    with run deliver_refused [OF refuse] show ?thesis by (auto simp: and_then_def)
  qed (use run in auto)
  then have "mails w' = []" by (simp add: demo_world_def idle_world_def)
  with no_mark_without_mail [OF refusing_seam run] run show ?thesis by auto
qed

section \<open>The marks of a sent mail\<close>

lemma consume_tip_Ok:
  "consume_tip t u w = (Ok x, w') \<Longrightarrow>
     tip_users w' = snd (insert_or_ignore tip_user_key
        \<lparr> tu_tip_id = t, tu_user_id = u, tu_metadata = Map.empty \<rparr> (tip_users w)) \<and>
     subscriptions w' = subscriptions w \<and> mails w' = mails w \<and> tips w' = tips w"
  unfolding consume_tip_def by (drule sql_Ok) auto

lemma stamp_Ok:
  "stamp_subscription_metadata d u p w = (Ok x, w') \<Longrightarrow>
     subscriptions w' = snd (update_where (\<lambda>r. su_digest_id r = d \<and> su_user_id r = u)
       (\<lambda>r. r\<lparr>su_metadata := su_metadata r ++ p\<rparr>) (subscriptions w)) \<and>
     tip_users w' = tip_users w \<and> mails w' = mails w \<and> tips w' = tips w"
  unfolding stamp_subscription_metadata_def by (drule sql_Ok) auto

lemma deliver_Ok:
  assumes "mail_seam (en_mail_seam eng)" "deliver X eng wall plan w = (Ok i, w')"
  shows "mails w' = mails w @ [outgoing wall plan]"
    and "tips w' = tips w"
    and "tip_users w' = (case rp_tip plan of None \<Rightarrow> tip_users w
      | Some t \<Rightarrow> snd (insert_or_ignore tip_user_key
          \<lparr> tu_tip_id = tp_tip_id t, tu_user_id = rp_user_id plan, tu_metadata = Map.empty \<rparr> (tip_users w)))"
    and "subscriptions w' = (if rp_is_first_digest plan
      then snd (update_where (\<lambda>r. su_digest_id r = rp_digest_id plan \<and> su_user_id r = rp_user_id plan)
        (\<lambda>r. r\<lparr>su_metadata := su_metadata r ++ [''first_digest_sent_at'' \<mapsto> JStr (to_rfc3339 X wall)]\<rparr>) (subscriptions w))
      else subscriptions w)"
proof -
  obtain i' w1 where s: "en_mail_seam eng (outgoing wall plan) w = (Ok i', w1)"
    and rest: "and_then (case rp_tip plan of
         None \<Rightarrow> return () | Some t \<Rightarrow> consume_tip (tp_tip_id t) (rp_user_id plan)) (\<lambda>_.
     and_then (if rp_is_first_digest plan
         then stamp_subscription_metadata (rp_digest_id plan) (rp_user_id plan)
           [''first_digest_sent_at'' \<mapsto> JStr (to_rfc3339 X wall)]
         else return ()) (\<lambda>_ w.
     (Ok i', write_audit (DigestEmailSent (rp_digest_id plan) (rp_user_id plan) i') w))) w1 = (Ok i, w')"
    using assms(2) unfolding deliver_def by (rule and_then_Ok)
  have w1: "only_mails_differ w w1" "mails w1 = mails w @ [outgoing wall plan]"
    using mail_seam.send_ok [OF assms(1) s] by simp_all
  obtain x2 w2 where t: "(case rp_tip plan of
         None \<Rightarrow> return () | Some t \<Rightarrow> consume_tip (tp_tip_id t) (rp_user_id plan)) w1 = (Ok x2, w2)"
    and rest2: "and_then (if rp_is_first_digest plan
         then stamp_subscription_metadata (rp_digest_id plan) (rp_user_id plan)
           [''first_digest_sent_at'' \<mapsto> JStr (to_rfc3339 X wall)]
         else return ()) (\<lambda>_ w.
     (Ok i', write_audit (DigestEmailSent (rp_digest_id plan) (rp_user_id plan) i') w)) w2 = (Ok i, w')"
    using rest by (rule and_then_Ok)
  obtain x3 w3 where st: "(if rp_is_first_digest plan
         then stamp_subscription_metadata (rp_digest_id plan) (rp_user_id plan)
           [''first_digest_sent_at'' \<mapsto> JStr (to_rfc3339 X wall)]
         else return ()) w2 = (Ok x3, w3)"
    and fin: "w' = write_audit (DigestEmailSent (rp_digest_id plan) (rp_user_id plan) i') w3"
    using rest2 by (rule and_then_Ok) auto
  have t2: "tip_users w2 = (case rp_tip plan of None \<Rightarrow> tip_users w1
      | Some t \<Rightarrow> snd (insert_or_ignore tip_user_key
          \<lparr> tu_tip_id = tp_tip_id t, tu_user_id = rp_user_id plan, tu_metadata = Map.empty \<rparr> (tip_users w1)))"
    "subscriptions w2 = subscriptions w1" "mails w2 = mails w1" "tips w2 = tips w1"
    using t by (auto simp: return_def dest: consume_tip_Ok split: option.splits)
  have s3: "subscriptions w3 = (if rp_is_first_digest plan
      then snd (update_where (\<lambda>r. su_digest_id r = rp_digest_id plan \<and> su_user_id r = rp_user_id plan)
        (\<lambda>r. r\<lparr>su_metadata := su_metadata r ++ [''first_digest_sent_at'' \<mapsto> JStr (to_rfc3339 X wall)]\<rparr>) (subscriptions w2))
      else subscriptions w2)" "tip_users w3 = tip_users w2" "mails w3 = mails w2" "tips w3 = tips w2"
    using st stamp_Ok [of "rp_digest_id plan" "rp_user_id plan" _ w2 x3 w3]
    by (auto simp: return_def simp del: map_add_upd split: if_splits)
  have f: "subscriptions w1 = subscriptions w" "tip_users w1 = tip_users w" "tips w1 = tips w"
    using w1(1) by (simp_all add: only_mails_differ_def)
  show "mails w' = mails w @ [outgoing wall plan]" "tips w' = tips w"
    by (simp_all add: fin s3 t2 w1(2) f)
  show "tip_users w' = (case rp_tip plan of None \<Rightarrow> tip_users w
      | Some t \<Rightarrow> snd (insert_or_ignore tip_user_key
          \<lparr> tu_tip_id = tp_tip_id t, tu_user_id = rp_user_id plan, tu_metadata = Map.empty \<rparr> (tip_users w)))"
    by (simp add: fin s3 t2 f split: option.split)
  show "subscriptions w' = (if rp_is_first_digest plan
      then snd (update_where (\<lambda>r. su_digest_id r = rp_digest_id plan \<and> su_user_id r = rp_user_id plan)
        (\<lambda>r. r\<lparr>su_metadata := su_metadata r ++ [''first_digest_sent_at'' \<mapsto> JStr (to_rfc3339 X wall)]\<rparr>) (subscriptions w))
      else subscriptions w)"
    unfolding fin write_audit_frame s3 t2 f ..
qed

text \<open>A finished send, as the render of its plan and the delivery of it.\<close>

lemma send_to_recipient_Ok:
  assumes "send_to_recipient X eng wall d r now w = (Ok (plan, i), w')"
  obtains fs where "render X eng wall d r now w = (Ok plan, w\<lparr>sql_faults := fs\<rparr>)"
    "deliver X eng wall plan (w\<lparr>sql_faults := fs\<rparr>) = (Ok i, w')"
    "rp_user_id plan = rr_user_id r" "rp_digest_id plan = dr_id d"
proof -
  obtain w1 where ren: "render X eng wall d r now w = (Ok plan, w1)" and del: "deliver X eng wall plan w1 = (Ok i, w')"
    using assms unfolding send_to_recipient_def
    by (elim and_then_Ok) (simp add: return_def)
  from reads_onlyD [OF reads_only_render ren] obtain fs where "w1 = w\<lparr>sql_faults := fs\<rparr>" by blast
  moreover have "rp_user_id plan = rr_user_id r" "rp_digest_id plan = dr_id d"
    by (rule render_Ok [OF ren]; simp)+
  ultimately show ?thesis using that ren del by blast
qed

text \<open>
  C25: a mailed tip is consumed. After a send that succeeded, the tip it carried is not offered to
  that recipient again, provided no consumption marker was tombstoned: the marker is inserted with
  ON CONFLICT DO NOTHING, so a tombstoned one would stay tombstoned and the tip would repeat.
\<close>

theorem mailed_tip_not_offered_again:
  assumes "mail_seam (en_mail_seam eng)" "send_to_recipient X eng wall d r now w = (Ok (plan, i), w')"
    and "\<forall>tu \<in> set (tip_users w). not_deleted (tu_metadata tu)" "rp_tip plan = Some p" "ti_id t = tp_tip_id p"
  shows "\<not> offered eng (rr_user_id r) w' t"
proof -
  obtain fs where del: "deliver X eng wall plan (w\<lparr>sql_faults := fs\<rparr>) = (Ok i, w')"
    and u: "rp_user_id plan = rr_user_id r"
    by (rule send_to_recipient_Ok [OF assms(2)])
  let ?m = "\<lparr> tu_tip_id = tp_tip_id p, tu_user_id = rr_user_id r, tu_metadata = Map.empty \<rparr>"
  have tu: "tip_users w' = snd (insert_or_ignore tip_user_key ?m (tip_users w))"
    using deliver_Ok(3) [OF assms(1) del] assms(4) u by simp
  have "tip_user_key ?m \<in> tip_user_key ` set (tip_users w')"
    unfolding tu by (rule tut.insert_has_key)
  then obtain x where x: "x \<in> set (tip_users w')" "tip_user_key x = tip_user_key ?m" by auto
  have "not_deleted (tu_metadata x)"
    using x(1) assms(3) unfolding tu by (auto simp: insert_or_ignore_def split: if_splits)
  with x assms(5) show ?thesis by (auto simp: offered_def tip_user_key_def)
qed

lemma demo_sent:
  "\<exists>plan i w'. send_to_recipient demo_externals demo_engine demo_now (read_row demo_digest) demo_recipient demo_now
     demo_world = (Ok (plan, i), w')"
  using demo_send [OF demo_no_faults(1), of demo_recipient "read_row demo_digest"]
  by (force simp: demo_world_def idle_world_def demo_recipient_def)

lemma mailed_tip_not_offered_again_witness:
  "\<exists>plan i w' p. send_to_recipient demo_externals demo_engine demo_now (read_row demo_digest) demo_recipient demo_now
     demo_world = (Ok (plan, i), w') \<and> rp_tip plan = Some p \<and>
     (\<forall>s g. \<not> offered demo_engine 11 w' (demo_tip (tp_tip_id p) s g))"
proof -
  obtain plan i w' where run: "send_to_recipient demo_externals demo_engine demo_now (read_row demo_digest)
      demo_recipient demo_now demo_world = (Ok (plan, i), w')" using demo_sent by blast
  have g: "group_keys (slot_port (en_port demo_engine)) 11 = Inr {}"
    by (simp add: demo_slot_port demo_port_def sql_port_def sql_group_keys_def demo_sapiens_def)
  have tips: "unconsumed_tips 11 demo_world = [demo_tip 30 1 (Some ''admin''), demo_tip 31 2 None]"
    by (simp add: unconsumed_tips_def demo_world_def idle_world_def demo_tip_def)
  obtain fs where "render demo_externals demo_engine demo_now (read_row demo_digest) demo_recipient demo_now demo_world
      = (Ok plan, demo_world\<lparr>sql_faults := fs\<rparr>)" by (rule send_to_recipient_Ok [OF run])
  then obtain p where p: "rp_tip plan = Some p"
    by (rule render_Ok) (simp add: demo_recipient_def g tips demo_tip_def)
  have none: "\<forall>tu \<in> set (tip_users demo_world). not_deleted (tu_metadata tu)"
    by (simp add: demo_world_def idle_world_def)
  have "\<not> offered demo_engine 11 w' (demo_tip (tp_tip_id p) s g)" for s g
    using mailed_tip_not_offered_again [OF demo_seam run none p, of "demo_tip (tp_tip_id p) s g"]
    by (simp add: demo_tip_def demo_recipient_def)
  with run p show ?thesis by blast
qed

text \<open>
  The first-digest notice is given once. A mail carries it exactly when its recipient was
  auto-subscribed and no first digest is on record; after such a mail was sent, every subscription
  of that recipient to the digest is on record, so the next mail carries it no more.
\<close>

theorem first_digest_notice_once:
  assumes "mail_seam (en_mail_seam eng)" "send_to_recipient X eng wall d r now w = (Ok (plan, i), w')"
  shows "rp_is_first_digest plan = (auto_subscribed r \<and> first_digest_sent_at r = None) \<and>
    (\<forall>r' \<in> set (recipients_of (dr_id d) w'). rr_user_id r' = rr_user_id r \<and> rp_is_first_digest plan \<longrightarrow>
       first_digest_sent_at r' = Some (to_rfc3339 X wall))"
proof -
  obtain fs where ren: "render X eng wall d r now w = (Ok plan, w\<lparr>sql_faults := fs\<rparr>)"
    and del: "deliver X eng wall plan (w\<lparr>sql_faults := fs\<rparr>) = (Ok i, w')"
    and u: "rp_user_id plan = rr_user_id r" "rp_digest_id plan = dr_id d"
    by (rule send_to_recipient_Ok [OF assms(2)])
  have first: "rp_is_first_digest plan = (auto_subscribed r \<and> first_digest_sent_at r = None)"
    by (rule render_Ok [OF ren]) (simp add: plan_of_def Let_def)
  moreover have "first_digest_sent_at r' = Some (to_rfc3339 X wall)"
    if "r' \<in> set (recipients_of (dr_id d) w')" "rr_user_id r' = rr_user_id r" "rp_is_first_digest plan" for r'
  proof -
    have "subscriptions w' = map (\<lambda>x. if su_digest_id x = dr_id d \<and> su_user_id x = rr_user_id r
        then x\<lparr>su_metadata := su_metadata x ++ [''first_digest_sent_at'' \<mapsto> JStr (to_rfc3339 X wall)]\<rparr> else x)
        (subscriptions w)"
      using deliver_Ok(4) [OF assms(1) del] that(3) u by (simp add: update_where_def)
    with that(1,2) show ?thesis
      by (auto simp: recipients_of_def first_digest_sent_at_def)
  qed
  ultimately show ?thesis by blast
qed

definition newcomer :: recipient_row where
  "newcomer = \<lparr> rr_user_id = 11, rr_metadata = [''auto_subscribed'' \<mapsto> JBool True] \<rparr>"

lemma first_digest_notice_once_witness:
  "\<exists>plan i w'. send_to_recipient demo_externals demo_engine demo_now (read_row demo_digest) newcomer demo_now
     demo_world = (Ok (plan, i), w') \<and> rp_is_first_digest plan \<and>
     (\<forall>r' \<in> set (recipients_of 1 w'). rr_user_id r' = 11 \<longrightarrow>
        first_digest_sent_at r' = Some (to_rfc3339 demo_externals demo_now))"
proof -
  obtain plan i w' where run: "send_to_recipient demo_externals demo_engine demo_now (read_row demo_digest)
      newcomer demo_now demo_world = (Ok (plan, i), w')"
    using demo_send [OF demo_no_faults(1), of newcomer "read_row demo_digest"]
    by (force simp: demo_world_def idle_world_def newcomer_def)
  have n: "auto_subscribed newcomer" "first_digest_sent_at newcomer = None" "rr_user_id newcomer = 11"
    "dr_id (read_row demo_digest) = 1"
    by (simp_all add: auto_subscribed_def first_digest_sent_at_def newcomer_def demo_digest_def)
  show ?thesis
    using first_digest_notice_once [OF demo_seam run] run unfolding n by (simp add: n)
qed

section \<open>The manual send\<close>

text \<open>
  C37: a manual send mails and moves no schedule: whatever happens, the digest rows, the enabled
  KPIs, the tips and the active subscriptions stay; and when it returns its three counts, they add
  up to the number of active recipients of the digest.
\<close>

theorem manual_send_keeps_schedule:
  assumes "mail_seam (en_mail_seam eng)" "send_now X eng clock i now w = (res, w')"
  shows "digests w' = digests w \<and> digest_kpis w' = digest_kpis w \<and> tips w' = tips w \<and>
    active_pairs w' = active_pairs w \<and>
    (case res of Ok (sent, refused, failed) \<Rightarrow> sent + refused + failed = length (recipients_of i w) | _ \<Rightarrow> True)"
proof -
  have "schedule_view w' = schedule_view w"
    by (rule preservesD [OF send_now_preserves [OF assms(1) schedule_view_stable] refl assms(2)])
  moreover have "a + b + c = length (recipients_of i w)" if "res = Ok (a, b, c)" for a b c
  proof -
    from assms(2) that obtain row w1 where g: "get_digest i w = (Ok row, w1)"
      and k: "(case row of None \<Rightarrow> throw (NotFound i)
        | Some digest \<Rightarrow> and_then (active_recipients (dr_id digest))
            (\<lambda>recipients. send_now_all X eng clock digest now recipients (0, 0, 0))) w1 = (Ok (a, b, c), w')"
      unfolding send_now_def by (auto elim: and_then_Ok)
    obtain fs where w1: "w1 = w\<lparr>sql_faults := fs\<rparr>" "row = find_row i (digests w)"
      using g unfolding get_digest_def by (rule select_Ok) simp
    from k obtain dg where dg: "row = Some dg" by (cases row) (auto simp: throw_def)
    have "find_row i (digests w) = Some dg" using w1(2) dg by simp
    then have "dr_id dg = i" by (auto simp: find_row_def find_Some_iff)
    with k dg obtain rs w2 where "active_recipients i w1 = (Ok rs, w2)"
      "send_now_all X eng clock dg now rs (0, 0, 0) w2 = (Ok (a, b, c), w')"
      by (auto elim: and_then_Ok)
    with active_recipients_Ok send_now_all_count w1(1) show ?thesis by fastforce
  qed
  ultimately show ?thesis by (auto simp: schedule_view_def split: res.split)
qed

lemma manual_send_keeps_schedule_witness:
  "\<exists>res w'. send_now demo_externals demo_engine demo_clock 1 demo_now demo_world = (res, w') \<and>
     digests w' = [demo_digest] \<and> active_pairs w' = {(1, 11), (1, 12)}"
proof -
  obtain res w' where run: "send_now demo_externals demo_engine demo_clock 1 demo_now demo_world = (res, w')"
    by (cases "send_now demo_externals demo_engine demo_clock 1 demo_now demo_world") auto
  have "digests demo_world = [demo_digest]" by (simp add: demo_world_def idle_world_def)
  with manual_send_keeps_schedule [OF demo_seam run] run demo_active show ?thesis by simp
qed

end
