(* ===== verification/Unsubscribe_Properties.thy ===== *)
theory Unsubscribe_Properties
  imports Demo
begin

text \<open>
  The properties of the one-click unsubscribe: links that work for 180 days, links that cannot be
  forged into a change, answers that tell a robot nothing, the failure book, and the two row verbs
  as moves of the subscription machine's states.
\<close>

section \<open>Minted tokens\<close>

lemma parse_signed:
  assumes "text_ok X" "mac_ok X" "- (2 ^ 63) \<le> e" "e < 2 ^ 63"
  shows "parse_token X (token_text X (signed_token X svc d u e)) = Some (signed_token X svc d u e)"
  using assms compute_mac_hex [OF assms(2)] by (intro parse_token_text) simp_all

lemma token_text_not_Nil: "token_text X t \<noteq> []"
  by (simp add: token_text_def)

lemma demo_expiry: "- (2 ^ 63) \<le> link_expiry demo_now" "link_expiry demo_now < 2 ^ 63"
  by code_simp+

lemma check_signed:
  assumes "text_ok X" "mac_ok X" "- (2 ^ 63) \<le> e" "e < 2 ^ 63"
  shows "check_token X svc (token_text X (signed_token X svc d u e)) now inst b =
    verify X svc (signed_token X svc d u e) now inst b"
  by (simp add: check_token_def parse_signed [OF assms])

lemma verify_signed:
  assumes "mac_ok X" "secret svc \<noteq> []" "now \<le> e"
  shows "verify X svc (signed_token X svc d u e) now inst b = (Valid, book_reset X d u b)"
  using assms by (simp add: verify_def verify_mac_signed)

lemma unsubscribe_signed:
  assumes "text_ok X" "mac_ok X" "- (2 ^ 63) \<le> e" "e < 2 ^ 63"
    and "secret svc \<noteq> []" "now \<le> e" "world_ok w" "sql_faults w = []"
  shows "\<exists>oc b' w'. unsubscribe_by_token X svc (token_text X (signed_token X svc d u e)) now inst wall b w =
      (Ok oc, b', w') \<and> oc = (if (d, u) \<in> active_pairs w then UnsubscribedNow else AlreadyUnsubscribed) \<and>
    active_pairs w' = active_pairs w - {(d, u)} \<and> digests w' = digests w"
proof -
  have "active_pairs w = active_pairs w - {(d, u)}" if "(d, u) \<notin> active_pairs w" using that by blast
  then show ?thesis
    using apply_unsubscribe_eq [OF assms(7,8), of wall d u] active_pairs_unsubscribe [where w = w and d = d and u = u and t = wall]
    by (simp add: unsubscribe_by_token_def parse_signed [OF assms(1-4)] verify_signed [OF assms(2,5,6)] Let_def)
qed

text \<open>
  C5: the whole path of a mailed link. A mail that renders carries, as its List-Unsubscribe header,
  a link with a token; for 180 days from the render, the one-click POST of that link (token in the
  query, no confirm field) whose UPDATE does not fail answers a bare 200 and removes this digest and
  recipient from the active subscriptions, and nobody else.
\<close>

theorem mailed_link_unsubscribes:
  assumes "text_ok X" "mac_ok X" "unsubscribe_service m = Some svc" "secret svc \<noteq> []"
    and "render X (render_service m) minted dg r now0 w0 = (Ok plan, w1)"
    and "- (2 ^ 63) \<le> link_expiry minted" "link_expiry minted < 2 ^ 63"
    and "timestamp wall \<le> link_expiry minted" "world_ok w" "sql_faults w = []"
  shows "\<exists>base tok. map_of (rp_headers plan) ''List-Unsubscribe'' =
      Some (''<'' @ base @ ''/digest/unsubscribe?t='' @ tok @ ''>'') \<and>
    (\<exists>b' w'. unsubscribe_post X m wall inst \<lparr>tp_t = Some tok, tp_confirm = None\<rparr>
        \<lparr>tp_t = None, tp_confirm = None\<rparr> b w = (Some (Bare 200), b', w') \<and>
      active_pairs w' = active_pairs w - {(dr_id dg, rr_user_id r)} \<and> digests w' = digests w)"
proof -
  let ?tok = "token_text X (signed_token X svc (dr_id dg) (rr_user_id r) (link_expiry minted))"
  obtain url where u: "unsubscribe_url X (render_service m) minted (dr_id dg) (rr_user_id r) = Ok url"
    and h: "rp_headers plan = mail_headers url"
    by (rule render_Ok [OF assms(5)]) simp
  have "en_unsub (render_service m) = Some svc"
    using assms(3) by (simp add: render_service_def unsubscribe_service_def)
  with unsubscribe_url_Ok [OF u] obtain base where url: "url = base @ ''/digest/unsubscribe?t='' @ ?tok"
    by (auto dest: mint_link_token_Some)
  obtain oc b' w' where run: "unsubscribe_by_token X svc ?tok (timestamp wall) inst wall b w = (Ok oc, b', w')"
    "active_pairs w' = active_pairs w - {(dr_id dg, rr_user_id r)}" "digests w' = digests w"
    using unsubscribe_signed [OF assms(1,2,6,7,4,8,9,10)] by blast
  have "unsubscribe_post X m wall inst \<lparr>tp_t = Some ?tok, tp_confirm = None\<rparr>
        \<lparr>tp_t = None, tp_confirm = None\<rparr> b w = (Some (Bare 200), b', w')"
    using run(1) assms(3) by (simp add: unsubscribe_post_def Let_def token_text_not_Nil)
  moreover have "map_of (rp_headers plan) ''List-Unsubscribe'' =
      Some (''<'' @ base @ ''/digest/unsubscribe?t='' @ ?tok @ ''>'')"
    by (simp add: h mail_headers_def url)
  ultimately show ?thesis using run(2,3) by blast
qed

lemma mailed_link_unsubscribes_witness:
  "\<exists>plan base tok b' w'. render demo_externals demo_engine demo_now (read_row demo_digest) demo_recipient demo_now
       demo_world = (Ok plan, demo_world) \<and>
     map_of (rp_headers plan) ''List-Unsubscribe'' = Some (''<'' @ base @ ''/digest/unsubscribe?t='' @ tok @ ''>'') \<and>
     unsubscribe_post demo_externals demo_module demo_now 0 \<lparr>tp_t = Some tok, tp_confirm = None\<rparr>
        \<lparr>tp_t = None, tp_confirm = None\<rparr> book_new demo_world = (Some (Bare 200), b', w') \<and>
     active_pairs w' = {(1, 12)}"
proof -
  obtain plan where ren: "render demo_externals demo_engine demo_now (read_row demo_digest) demo_recipient demo_now
      demo_world = (Ok plan, demo_world)"
    using demo_render [OF demo_no_faults(1), of demo_recipient]
    by (force simp: demo_world_def idle_world_def demo_recipient_def)
  have t: "timestamp demo_now \<le> link_expiry demo_now" by code_simp
  have a: "active_pairs demo_world - {(dr_id (read_row demo_digest), rr_user_id demo_recipient)} = {(1, 12)}"
    by (simp add: demo_active demo_recipient_def) (simp add: demo_digest_def)
  show ?thesis
    using mailed_link_unsubscribes [OF demo_text_ok demo_mac_ok demo_unsubscribe_service demo_secret,
        of demo_now "read_row demo_digest" demo_recipient demo_now demo_world plan demo_world demo_now demo_world
          0 book_new] ren demo_expiry t demo_world_ok demo_no_faults(1)
    unfolding demo_render_service a by blast
qed

text \<open>
  C27: the text of a minted token (there is one whenever 180 days from the mint are still in the
  calendar) reads back as the same token, whose last second is 180 days from the mint, and the
  engine's verdict on that text is: refused without a secret, valid up to and including its last
  second, expired after.
\<close>

theorem minted_roundtrip:
  assumes "text_ok X" "mac_ok X" "- (2 ^ 63) \<le> link_expiry minted" "link_expiry minted < 2 ^ 63"
    and "date_min (cal X) \<le> date_naive (minted + 180 * day_nanos)"
    and "date_naive (minted + 180 * day_nanos) \<le> date_max (cal X)"
  shows "\<exists>tok t. mint_link_token X svc d u minted = Some tok \<and> mint X svc d u minted = Some t \<and>
    parse_token X tok = Some t \<and> tk_digest_id t = d \<and> tk_user_id t = u \<and> tk_exp t = link_expiry minted \<and>
    fst (check_token X svc tok now inst b) =
      (if secret svc = [] then RefusedToken else if now \<le> link_expiry minted then Valid else Expired)"
proof -
  let ?t = "signed_token X svc d u (link_expiry minted)"
  have "mint X svc d u minted = Some ?t"
    using assms(5,6) by (simp add: mint_def plus_time_def link_expiry_def token_ttl_days_def)
  with assms show ?thesis
    by (simp add: mint_link_token_def parse_signed check_signed verify_verdict verify_mac_signed)
qed

lemma minted_roundtrip_witness:
  "\<exists>tok. mint_link_token demo_externals demo_service 1 11 demo_now = Some tok \<and>
     fst (check_token demo_externals demo_service tok (link_expiry demo_now + 1) 0 book_new) = Expired"
proof -
  have r: "date_min (cal demo_externals) \<le> date_naive (demo_now + 180 * day_nanos)"
    "date_naive (demo_now + 180 * day_nanos) \<le> date_max (cal demo_externals)" by code_simp+
  show ?thesis
    using minted_roundtrip [OF demo_text_ok demo_mac_ok demo_expiry r, of demo_service 1 11 "link_expiry demo_now + 1"]
      demo_secret by auto
qed

section \<open>What a POST can change\<close>

lemma apply_unsubscribe_frame:
  "digests (snd (apply_unsubscribe wall d u w)) = digests w \<and>
   digest_kpis (snd (apply_unsubscribe wall d u w)) = digest_kpis w \<and>
   tips (snd (apply_unsubscribe wall d u w)) = tips w \<and>
   tip_users (snd (apply_unsubscribe wall d u w)) = tip_users w \<and>
   mails (snd (apply_unsubscribe wall d u w)) = mails w"
proof -
  have "preserves (\<lambda>w. (digests w, digest_kpis w, tips w, tip_users w, mails w) = v) (apply_unsubscribe wall d u)" for v
    unfolding apply_unsubscribe_def
    by (intro preserves_and_then preserves_sql) (auto simp: preserves_def update_where_def)
  then show ?thesis by (force simp: preserves_def)
qed

lemma post_cases:
  obtains (same) "snd (snd (unsubscribe_post X m wall inst params form b w)) = w"
  | (applied) svc t where "unsubscribe_service m = Some svc" "secret svc \<noteq> []"
      "parse_token X (case tp_t form of Some s \<Rightarrow> s | None \<Rightarrow> (case tp_t params of Some s \<Rightarrow> s | None \<Rightarrow> [])) = Some t"
      "verify_mac X (secret svc) t" "timestamp wall \<le> tk_exp t"
      "snd (snd (unsubscribe_post X m wall inst params form b w)) =
         snd (apply_unsubscribe wall (tk_digest_id t) (tk_user_id t) w)"
proof -
  let ?tok = "case tp_t form of Some s \<Rightarrow> s | None \<Rightarrow> (case tp_t params of Some s \<Rightarrow> s | None \<Rightarrow> [])"
  have tok: "(case (case tp_t form of Some t \<Rightarrow> Some t | None \<Rightarrow> tp_t params) of Some t \<Rightarrow> t | None \<Rightarrow> []) = ?tok"
    by (simp split: option.split)
  show ?thesis
  proof (cases "unsubscribe_service m")
    case None
    with same show ?thesis by (simp add: unsubscribe_post_def)
  next
    case (Some svc)
    note svc = Some
    have world: "snd (snd (unsubscribe_post X m wall inst params form b w)) =
        (if ?tok = [] then w else snd (snd (unsubscribe_by_token X svc ?tok (timestamp wall) inst wall b w)))"
      using Some by (simp add: unsubscribe_post_def tok Let_def split: prod.split res.split)
    show ?thesis
    proof (cases "parse_token X ?tok")
      case None
      with same world show ?thesis by (simp add: unsubscribe_by_token_def)
    next
      case (Some t)
      show ?thesis
      proof (cases "fst (verify X svc t (timestamp wall) inst b) = Valid \<and> ?tok \<noteq> []")
        case True
        then have "snd (snd (unsubscribe_post X m wall inst params form b w)) =
            snd (apply_unsubscribe wall (tk_digest_id t) (tk_user_id t) w)"
          using world Some
          by (auto simp: unsubscribe_by_token_def split: prod.split res.split bool.split token_verdict.split)
        with applied [OF svc _ Some] True show ?thesis by (auto simp: verify_verdict split: if_splits)
      next
        case False
        then have "snd (snd (unsubscribe_post X m wall inst params form b w)) = w"
          using world Some by (auto simp: unsubscribe_by_token_def split: prod.split token_verdict.split)
        with same show ?thesis by simp
      qed
    qed
  qed
qed

text \<open>
  C10: no request to the public tree, whatever its method, path and parameters and however its
  statements fail, changes the world unless it is a POST to the one route, admitted by the limiter,
  whose token carries a MAC that verifies under the module's non-empty secret and is not past its
  expiry; and then it removes at most the token's own pair, leaving every table but the
  subscriptions alone.
\<close>

theorem post_needs_signed_token:
  "case serve_public X m limited wall inst verb path params form b w of (answer, b', w') \<Rightarrow>
     w' = w \<or>
     (verb = Post \<and> path = ''/digest/unsubscribe'' \<and> limited = None \<and>
      (\<exists>svc t. unsubscribe_service m = Some svc \<and> secret svc \<noteq> [] \<and>
        parse_token X (case tp_t form of Some s \<Rightarrow> s | None \<Rightarrow> (case tp_t params of Some s \<Rightarrow> s | None \<Rightarrow> [])) = Some t \<and>
        verify_mac X (secret svc) t \<and> timestamp wall \<le> tk_exp t \<and>
        active_pairs w' \<in> {active_pairs w, active_pairs w - {(tk_digest_id t, tk_user_id t)}} \<and>
        digests w' = digests w \<and> digest_kpis w' = digest_kpis w \<and> tips w' = tips w \<and>
        tip_users w' = tip_users w \<and> mails w' = mails w))"
proof (cases rule: serve_public_cases [of verb path limited X m wall inst params form b w])
  case acts
  obtain answer b' w' where p: "unsubscribe_post X m wall inst params form b w = (answer, b', w')"
    by (cases "unsubscribe_post X m wall inst params form b w") auto
  show ?thesis
  proof (cases rule: post_cases [of X m wall inst params form b w])
    case same
    with p acts show ?thesis by simp
  next
    case (applied svc t)
    with apply_unsubscribe_active [of wall "tk_digest_id t" "tk_user_id t" w]
      apply_unsubscribe_frame [of wall "tk_digest_id t" "tk_user_id t" w] p acts
    show ?thesis by simp
  qed
next
  case rests
  then show ?thesis by simp
qed

text \<open>
  C28: the one-click leg answers a bare 200 to every request without the confirm field: whatever the
  token, the clock, the configuration, the failure book, and the statements that fail.
\<close>

theorem one_click_tells_nothing:
  "fst (unsubscribe_post X m wall inst params (form\<lparr>tp_confirm := None\<rparr>) b w) = Some (Bare 200)"
proof -
  let ?f = "form\<lparr>tp_confirm := None\<rparr>"
  have "fst (unsubscribe_post X m wall inst params ?f b w) \<in> {None, Some (Bare 200)}"
    by (rule one_click_answer) simp
  moreover have "fst (unsubscribe_post X m wall inst params ?f b w) \<noteq> None"
    using unsubscribe_by_token_no_panic
    by (auto simp: unsubscribe_post_def Let_def split: option.split prod.split res.split dest: arg_cong [of _ _ fst])
  ultimately show ?thesis by blast
qed

text \<open>
  C29: the human GET leg shows the confirm form exactly for a token that is valid at that moment;
  an absent, empty, forged or expired one gets another page. The leg takes no world, so it can
  unsubscribe nobody.
\<close>

theorem confirm_form_iff_valid:
  "(\<exists>t. fst (unsubscribe_confirm_page X m wall inst params b) = confirm_page t) \<longleftrightarrow>
     (\<exists>svc s. unsubscribe_service m = Some svc \<and> tp_t params = Some s \<and> s \<noteq> [] \<and>
        fst (check_token X svc s (timestamp wall) inst b) = Valid)"
proof
  assume "\<exists>t. fst (unsubscribe_confirm_page X m wall inst params b) = confirm_page t"
  then obtain t where t: "fst (unsubscribe_confirm_page X m wall inst params b) = confirm_page t" by blast
  then show "\<exists>svc s. unsubscribe_service m = Some svc \<and> tp_t params = Some s \<and> s \<noteq> [] \<and>
        fst (check_token X svc s (timestamp wall) inst b) = Valid"
    using confirm_page_other [of t] confirm_page_other [of t, symmetric]
    by (auto simp: unsubscribe_confirm_page_def split: option.splits prod.splits token_verdict.splits if_splits)
next
  assume "\<exists>svc s. unsubscribe_service m = Some svc \<and> tp_t params = Some s \<and> s \<noteq> [] \<and>
        fst (check_token X svc s (timestamp wall) inst b) = Valid"
  then obtain svc s b' where "unsubscribe_service m = Some svc" "tp_t params = Some s" "s \<noteq> []"
    "check_token X svc s (timestamp wall) inst b = (Valid, b')" by (metis prod.collapse)
  then have "fst (unsubscribe_confirm_page X m wall inst params b) = confirm_page s"
    by (simp add: unsubscribe_confirm_page_def)
  then show "\<exists>t. fst (unsubscribe_confirm_page X m wall inst params b) = confirm_page t" by blast
qed

section \<open>Applying twice\<close>

lemma by_token_valid:
  assumes "world_ok w" "sql_faults w = []" "parse_token X s = Some t" "fst (verify X svc t now inst b) = Valid"
  shows "\<exists>b'. unsubscribe_by_token X svc s now inst wall b w =
    (Ok (if (tk_digest_id t, tk_user_id t) \<in> active_pairs w then UnsubscribedNow else AlreadyUnsubscribed), b',
     snd (apply_unsubscribe wall (tk_digest_id t) (tk_user_id t) w))"
  using assms(3,4) apply_unsubscribe_eq [OF assms(1,2), of wall "tk_digest_id t" "tk_user_id t"]
  by (cases "verify X svc t now inst b") (auto simp: unsubscribe_by_token_def Let_def)

lemma apply_ends_pair:
  assumes "apply_unsubscribe wall d u w = (Ok n, w')"
  shows "(d, u) \<notin> active_pairs w'"
proof -
  let ?f = "\<lambda>r. r\<lparr>su_state := Unsubscribed, su_unsubscribed_at := Some wall\<rparr>"
  have "subscriptions w' = snd (update_where (unsubscribable d u) ?f (subscriptions w))"
    using assms unfolding apply_unsubscribe_def
    by (elim and_then_Ok) (auto dest!: sql_Ok split: prod.splits if_splits)
  then have "active_pairs w' =
      active_pairs (w\<lparr>subscriptions := snd (update_where (unsubscribable d u) ?f (subscriptions w))\<rparr>)"
    by (intro active_pairs_cong) simp
  then show ?thesis unfolding active_pairs_unsubscribe by simp
qed

lemma apply_inactive:
  assumes "(d, u) \<notin> active_pairs w"
  shows "apply_unsubscribe wall d u w =
    (case sql_faults w of Some why # fs \<Rightarrow> Err (Db why) | _ \<Rightarrow> Ok False, w\<lparr>sql_faults := tl (sql_faults w)\<rparr>)"
proof -
  have none: "\<forall>r \<in> set (subscriptions w). \<not> unsubscribable d u r" using assms by (simp add: active_pairs_iff)
  then have "update_where (unsubscribable d u) f (subscriptions w) = (0, subscriptions w)" for f
    by (simp add: update_where_def map_idI)
  then show ?thesis
    by (auto simp: apply_unsubscribe_def and_then_def sql_next split: list.split option.split)
qed

text \<open>
  C11: a link can be opened any number of times. Once a link was honoured, its pair is not active,
  and opening the link again, from the tables as that request left them, at any later or earlier
  moment, with any failure book and whichever statement fails, changes no table and writes no audit
  event: it answers that the person is already unsubscribed, or that the link has expired, or the
  database error its one statement met.
\<close>

theorem unsubscribe_idempotent:
  assumes "unsubscribe_by_token X svc s now inst wall b w = (Ok oc, b1, w1)"
    and "oc = UnsubscribedNow \<or> oc = AlreadyUnsubscribed"
  shows "\<exists>t. parse_token X s = Some t \<and> (tk_digest_id t, tk_user_id t) \<notin> active_pairs w1 \<and>
    (\<exists>r b2 fs'. unsubscribe_by_token X svc s now' inst' wall' b' (w1\<lparr>sql_faults := fs\<rparr>) =
        (r, b2, w1\<lparr>sql_faults := fs'\<rparr>) \<and>
      (case r of
         Ok oc' \<Rightarrow> oc' = (if now' \<le> tk_exp t then AlreadyUnsubscribed else ExpiredLink)
       | Err e \<Rightarrow> now' \<le> tk_exp t \<and> (\<exists>why. e = Db why \<and> take 1 fs = [Some why])
       | Panic \<Rightarrow> False))"
proof -
  obtain t where t: "parse_token X s = Some t" "fst (verify X svc t now inst b) = Valid"
    using assms by (auto simp: unsubscribe_by_token_def split: option.splits prod.splits token_verdict.splits)
  let ?d = "tk_digest_id t" and ?u = "tk_user_id t"
  obtain n where "apply_unsubscribe wall ?d ?u w = (Ok n, w1)"
    using assms t by (auto simp: unsubscribe_by_token_def split: prod.splits token_verdict.splits res.splits bool.splits)
  then have gone: "(?d, ?u) \<notin> active_pairs w1" by (rule apply_ends_pair)
  then have "(?d, ?u) \<notin> active_pairs (w1\<lparr>sql_faults := fs\<rparr>)" by simp
  note again = apply_inactive [OF this, of wall']
  obtain v b2 where v: "verify X svc t now' inst' b' = (v, b2)" by (cases "verify X svc t now' inst' b'") auto
  then have verdict: "v = (if now' \<le> tk_exp t then Valid else Expired)"
    using t(2) verify_verdict [of X svc t now' inst' b'] verify_verdict [of X svc t now inst b]
    by (auto split: if_splits)
  show ?thesis
  proof (cases "now' \<le> tk_exp t")
    case True
    with t(1) v verdict gone again show ?thesis
      by (cases fs) (auto simp: unsubscribe_by_token_def split: option.split)
  next
    case False
    with t(1) v verdict gone show ?thesis
      by (intro exI [of _ t] conjI exI [of _ "Ok ExpiredLink"] exI [of _ b2] exI [of _ fs])
        (simp_all add: unsubscribe_by_token_def)
  qed
qed

definition demo_link :: string where
  "demo_link = token_text demo_externals (signed_token demo_externals demo_service 1 11 (link_expiry demo_now))"

text \<open>A click, a second one, and a third that loses its connection.\<close>

lemma unsubscribe_idempotent_witness:
  "\<exists>b1 w1 b2 fs2 r b3 fs3. unsubscribe_by_token demo_externals demo_service demo_link (timestamp demo_now) 0 demo_now
       book_new demo_world = (Ok UnsubscribedNow, b1, w1) \<and>
     unsubscribe_by_token demo_externals demo_service demo_link (timestamp demo_now) 9 demo_now b1 (w1\<lparr>sql_faults := []\<rparr>) =
       (Ok AlreadyUnsubscribed, b2, w1\<lparr>sql_faults := fs2\<rparr>) \<and>
     unsubscribe_by_token demo_externals demo_service demo_link (timestamp demo_now) 9 demo_now b1
       (w1\<lparr>sql_faults := [Some ''down'']\<rparr>) = (r, b3, w1\<lparr>sql_faults := fs3\<rparr>)"
proof -
  have t: "timestamp demo_now \<le> link_expiry demo_now" by code_simp
  obtain b1 w1 where run: "unsubscribe_by_token demo_externals demo_service demo_link (timestamp demo_now) 0 demo_now
      book_new demo_world = (Ok UnsubscribedNow, b1, w1)"
    using unsubscribe_signed [OF demo_text_ok demo_mac_ok demo_expiry demo_secret t demo_world_ok
        demo_no_faults(1), of 1 11 0 demo_now book_new] by (auto simp: demo_active demo_link_def)
  have link: "parse_token demo_externals demo_link =
      Some (signed_token demo_externals demo_service 1 11 (link_expiry demo_now))"
    unfolding demo_link_def by (rule parse_signed [OF demo_text_ok demo_mac_ok demo_expiry])
  note again = unsubscribe_idempotent [OF run, of "timestamp demo_now" 9 demo_now b1]
  from again [of "[]"] link t obtain b2 fs2 where
    "unsubscribe_by_token demo_externals demo_service demo_link (timestamp demo_now) 9 demo_now b1 (w1\<lparr>sql_faults := []\<rparr>) =
       (Ok AlreadyUnsubscribed, b2, w1\<lparr>sql_faults := fs2\<rparr>)"
    by (auto split: res.splits) (metis res.exhaust)
  moreover from again [of "[Some ''down'']"] obtain r b3 fs3 where
    "unsubscribe_by_token demo_externals demo_service demo_link (timestamp demo_now) 9 demo_now b1
       (w1\<lparr>sql_faults := [Some ''down'']\<rparr>) = (r, b3, w1\<lparr>sql_faults := fs3\<rparr>)" by blast
  ultimately show ?thesis using run by blast
qed

section \<open>The failure book\<close>

fun register_failures :: "externals \<Rightarrow> uuid \<Rightarrow> uuid \<Rightarrow> int list \<Rightarrow> failure_book \<Rightarrow> failure_book" where
  "register_failures X d u [] b = b"
| "register_failures X d u (t # ts) b = register_failures X d u ts (book_register_failure X d u t b)"

text \<open>Each failure within the lock window of the one before.\<close>

fun steady :: "int list \<Rightarrow> bool" where
  "steady (t # t' # ts) = (t' - t < book_window \<and> steady (t' # ts))"
| "steady ts = True"

lemma failures_count:
  assumes "steady (t0 # ts)" "b (book_key X d u) = Some (n, t0)" "0 \<le> n" "n + int (length ts) < 2 ^ 31"
  shows "register_failures X d u ts b (book_key X d u) = Some (n + int (length ts), last (t0 # ts))"
  using assms
proof (induction ts arbitrary: t0 b n)
  case (Cons t ts)
  have "t - t0 < book_window" using Cons.prems(1) by simp
  then have e: "book_register_failure X d u t b (book_key X d u) = Some (n + 1, t)"
    using Cons.prems by (simp add: register_failure_entry i32_succ_small)
  have "register_failures X d u ts (book_register_failure X d u t b) (book_key X d u) =
      Some (n + 1 + int (length ts), last (t # ts))"
    by (rule Cons.IH [where b = "book_register_failure X d u t b", OF _ e]) (use Cons.prems in auto)
  then show ?case by simp
qed simp

lemma failures_from_new:
  assumes "steady (t # ts)" "int (length (t # ts)) < 2 ^ 31"
  shows "register_failures X d u (t # ts) book_new (book_key X d u) = Some (int (length (t # ts)), last (t # ts))"
proof -
  have e: "book_register_failure X d u t book_new (book_key X d u) = Some (1, t)"
    by (simp add: register_failure_entry book_new_def i32_succ_def)
  from failures_count [where b = "book_register_failure X d u t book_new", OF assms(1) e] assms(2) show ?thesis by simp
qed

text \<open>
  C34: after a steady run of failures (each within 60 seconds of the last) the book locks the pair
  exactly when the run has at least five, and only until 60 seconds after the last; then it forgets
  the pair. Forgeries cannot lock the real recipient out: a genuine token of a locked pair still
  verifies as valid, and resets the book.
\<close>

theorem lock_counts_but_does_not_refuse:
  assumes "steady (t # ts)" "int (length (t # ts)) < 2 ^ 31" "mac_ok X" "secret svc \<noteq> []"
    and "mint X svc d u minted = Some token" "now \<le> tk_exp token"
  shows "let b = register_failures X d u (t # ts) book_new in
    book_locked X d u inst b =
      (if book_window \<le> inst - last (t # ts) then (False, b(book_key X d u := None))
       else (5 \<le> length (t # ts), b)) \<and>
    verify X svc token now inst b = (Valid, b(book_key X d u := None))"
  using failures_from_new [OF assms(1,2), of X d u] assms(3,4,6) mint_Some [OF assms(5)]
  by (simp add: Let_def book_locked_def verify_signed book_reset_def verify_max_failures_def
      del: register_failures.simps)

lemma lock_counts_but_does_not_refuse_witness:
  "let b = register_failures demo_externals 1 11 [0, 1, 2, 3, 4] book_new in
     fst (book_locked demo_externals 1 11 5 b) \<and>
     fst (verify demo_externals demo_service (signed_token demo_externals demo_service 1 11 (link_expiry demo_now))
       (timestamp demo_now) 5 b) = Valid"
proof -
  have s: "steady [0, 1, 2, 3, 4]" by (simp add: book_window_def verify_lock_seconds_def nanos_def)
  have t: "timestamp demo_now \<le> link_expiry demo_now" by code_simp
  show ?thesis
    using lock_counts_but_does_not_refuse [OF s _ demo_mac_ok demo_secret demo_mint, of "timestamp demo_now" 1 11 5] t
    by (simp add: Let_def book_window_def verify_lock_seconds_def nanos_def del: register_failures.simps)
qed

end
