(* ===== verification/Schedule_Properties.thy ===== *)
theory Schedule_Properties
  imports Demo
begin

text \<open>
  The properties of the calendar arithmetic and of the verbs that write the schedule: what a cadence
  change does, how dates move along the ladder, and which rows the sweep's claim query sees.
\<close>

section \<open>Dates\<close>

text \<open>
  \<^verbatim>\<open>add_months\<close> moves the month index by exactly \<open>k\<close>, in either direction and across years, and
  clamps the day to the length of the month it reaches.
\<close>

theorem add_months_clamps:
  assumes "chrono_calendar cl" "date_min cl \<le> D" "D \<le> date_max cl" "ymd_of cl D = (y, m, d)"
    and "y' * 12 + (m' - 1) = y * 12 + (m - 1) + k" "1 \<le> m'" "m' \<le> 12" "year_min cl \<le> y'" "y' < year_max cl"
  shows "\<exists>D'. add_months cl D k = Some D' \<and> ymd_of cl D' = (y', m', min d (month_length y' m'))"
proof -
  obtain D' where "add_months cl D k = Some D'"
    and "from_ymd_opt cl y' m' (min d (month_length y' m')) = Some D'"
    by (rule chrono_calendar.add_months_spec [OF assms])
  with chrono_calendar.ymd_of_from_ymd [OF assms(1)] show ?thesis by blast
qed

lemma gregorian_laws: "chrono_calendar gregorian"
  by (rule greg.chrono_calendar_axioms)

text \<open>From 31 January 2024 one month forward is 29 February, and back three is 31 October 2023.\<close>

lemma add_months_clamps_witness:
  "(\<exists>D'. add_months gregorian 19753 1 = Some D' \<and> ymd_of gregorian D' = (2024, 2, 29)) \<and>
   (\<exists>D'. add_months gregorian 19753 (- 3) = Some D' \<and> ymd_of gregorian D' = (2023, 10, 31))"
proof -
  have r: "date_min gregorian \<le> 19753" "19753 \<le> date_max gregorian" "ymd_of gregorian 19753 = (2024, 1, 31)"
    and y: "year_min gregorian \<le> 2023" "2024 < year_max gregorian"
    by code_simp+
  have l: "month_length 2024 2 = 29" "month_length 2023 10 = 31" by code_simp+
  show ?thesis
    using add_months_clamps [OF gregorian_laws r, of 2024 2 1] add_months_clamps [OF gregorian_laws r, of 2023 10 "- 3"]
      y l by simp
qed

text \<open>
  C36: the cadences advance and the ladder slows. From a day before the calendar's last two years,
  every cadence has a next date and a slower cadence a later one: one day, seven days, at least 28
  days, and more for the quarter.
\<close>

theorem ladder_dates:
  assumes "chrono_calendar cl" "date_min cl \<le> D" "D \<le> date_max cl" "ymd_of cl D = (y, m, d)" "y + 1 < year_max cl"
  shows "\<exists>f. (\<forall>p. advance cl p D = Some (f p)) \<and> strict_mono f \<and> f Daily = D + 1 \<and> f Weekly = D + 7 \<and>
    D + 28 \<le> f Monthly"
proof -
  obtain A B where a: "advance cl Daily D = Some (D + 1)" "advance cl Weekly D = Some (D + 7)"
    "advance cl Monthly D = Some A" "advance cl Quarterly D = Some B" "D + 28 \<le> A" "A < B"
    by (rule chrono_calendar.advance_total [OF assms])
  let ?f = "\<lambda>p. case p of Daily \<Rightarrow> D + 1 | Weekly \<Rightarrow> D + 7 | Monthly \<Rightarrow> A | Quarterly \<Rightarrow> B"
  have "advance cl p D = Some (?f p)" for p using a by (cases p) simp_all
  moreover have "strict_mono ?f"
    using a(5,6) by (auto simp: strict_mono_def less_periodicity_def split: periodicity.split)
  ultimately show ?thesis using a(5) by (intro exI [of _ ?f]) simp
qed

lemma ladder_dates_witness:
  "\<exists>f. (\<forall>p. advance gregorian p 19753 = Some (f p)) \<and> f Daily < f Weekly \<and> f Weekly < f Quarterly"
proof -
  have "date_min gregorian \<le> 19753" "19753 \<le> date_max gregorian" "ymd_of gregorian 19753 = (2024, 1, 31)"
    "2024 + 1 < year_max gregorian" by code_simp+
  from ladder_dates [OF gregorian_laws this] obtain f where f: "\<forall>p. advance gregorian p 19753 = Some (f p)"
    "strict_mono f" by blast
  have "f Daily < f Weekly" "f Weekly < f Quarterly"
    by (rule strict_monoD [OF f(2)], simp add: less_periodicity_def)+
  with f(1) show ?thesis by blast
qed

section \<open>Changing the cadence\<close>

lemma find_row_update:
  assumes "\<And>r. dg_id (f r) = dg_id r"
  shows "find_row j (digests (snd (update_digest i f w))) =
    map_option read_row (map_option (if j = i then f else (\<lambda>r. r)) (find (\<lambda>r. dg_id r = j) (digests w)))"
  by (simp only: find_row_def update_digest_find [OF assms])

text \<open>
  C35: every way the cadence verb can end, from any tables and whatever statement fails. It succeeds
  only with a whitelisted value on an existing digest: that row gets the cadence, its next run is one
  such period after today and lies in the future, no other digest reads differently and no other
  table changes. A value outside the whitelist is refused before any statement runs; a digest that
  does not exist answers \<open>NotFound\<close>; a failing UPDATE answers the database error; after none of these
  is any table changed. The verb panics only when the period leads out of the calendar, which takes a
  day in its last two years, and then it has written nothing.
\<close>

theorem set_periodicity_effect:
  assumes "chrono_calendar cl" "date_min cl \<le> today" "today \<le> date_max cl" "ymd_of cl today = (y, m, d)"
  shows "case set_periodicity cl i v today w of
      (Ok _, w') \<Rightarrow> \<exists>p n old. v = periodicity_as_str p \<and> advance cl p today = Some n \<and> today < n \<and>
        find_row i (digests w) = Some old \<and> (\<forall>why. take 1 (sql_faults w) \<noteq> [Some why]) \<and>
        (\<forall>j. find_row j (digests w') = (if j = i then Some (old\<lparr>dr_periodicity := p, dr_next_run_date := Some n\<rparr>)
           else find_row j (digests w))) \<and>
        w' = w\<lparr>digests := digests w', sql_faults := tl (sql_faults w)\<rparr>
    | (Err e, w') \<Rightarrow>
        (if v \<in> range periodicity_as_str
         then w' = w\<lparr>sql_faults := tl (sql_faults w)\<rparr> \<and>
           (case e of Db why \<Rightarrow> take 1 (sql_faults w) = [Some why]
                    | NotFound j \<Rightarrow> j = i \<and> find_row i (digests w) = None \<and> (\<forall>why. take 1 (sql_faults w) \<noteq> [Some why])
                    | _ \<Rightarrow> False)
         else w' = w \<and> (\<exists>why. e = Invalid why))
    | (Panic, w') \<Rightarrow> w' = w \<and> (\<exists>p. v = periodicity_as_str p \<and> advance cl p today = None) \<and> year_max cl \<le> y + 1"
proof (cases "parse_periodicity v")
  case None
  then have "v \<notin> range periodicity_as_str" by auto
  with None show ?thesis by (simp add: set_periodicity_def throw_def)
next
  case (Some p)
  then have v: "v = periodicity_as_str p" "v \<in> range periodicity_as_str" by (simp_all add: parse_periodicity_iff)
  show ?thesis
  proof (cases "advance cl p today")
    case None
    have "\<not> y + 1 < year_max cl"
      by (cases p) (use None chrono_calendar.advance_total [OF assms] in force)+
    with Some None v show ?thesis by (auto simp: set_periodicity_def panic_def)
  next
    case next_run: (Some n)
    have late: "today < n" by (rule chrono_calendar.advance_forward [OF assms(1-3) next_run])
    let ?f = "\<lambda>r. r\<lparr>dg_periodicity := p, dg_next_run_date := Some n\<rparr>"
    let ?w = "w\<lparr>sql_faults := tl (sql_faults w)\<rparr>"
    have run: "set_periodicity cl i v today w = (case sql_faults w of
        Some e # fs \<Rightarrow> (Err (Db e), w\<lparr>sql_faults := fs\<rparr>)
      | _ \<Rightarrow> (if find_row i (digests w) = None then Err (NotFound i) else Ok (), snd (update_digest i ?f ?w)))"
      using Some next_run update_digest_count [of i ?f ?w]
      by (auto simp: set_periodicity_def and_then_def sql_next find_row_None_iff throw_def return_def
          split: list.split option.split prod.split)
    show ?thesis
    proof (cases "\<exists>e fs. sql_faults w = Some e # fs")
      case True
      with run v show ?thesis by auto
    next
      case False
      then have run': "set_periodicity cl i v today w =
          (if find_row i (digests w) = None then Err (NotFound i) else Ok (), snd (update_digest i ?f ?w))"
        using run by (auto split: list.split option.split)
      from False have calm: "\<forall>why. take 1 (sql_faults w) \<noteq> [Some why]" by (cases "sql_faults w") auto
      show ?thesis
      proof (cases "find_row i (digests w)")
        case None
        then have "snd (update_digest i ?f ?w) = ?w" by (intro update_digest_absent) (simp add: find_row_None_iff)
        with run' None v calm show ?thesis by simp
      next
        case (Some old)
        have "find_row j (digests (snd (update_digest i ?f ?w))) =
            (if j = i then Some (old\<lparr>dr_periodicity := p, dr_next_run_date := Some n\<rparr>) else find_row j (digests w))" for j
          using Some find_row_update [of ?f j i ?w] by (auto simp: find_row_def read_row_def option.map_ident)
        moreover have "snd (update_digest i ?f ?w) =
            w\<lparr>digests := digests (snd (update_digest i ?f ?w)), sql_faults := tl (sql_faults w)\<rparr>"
          by (simp add: update_digest_def split: prod.split)
        ultimately show ?thesis using run' Some v late next_run calm by auto
      qed
    qed
  qed
qed

text \<open>
  A success, a missing digest, a refused value and a failing statement; and on the calendar's last
  day, a panic.
\<close>

lemma set_periodicity_effect_witness:
  "(\<exists>w'. set_periodicity gregorian 1 ''weekly'' 20000 demo_world = (Ok (), w')) \<and>
   set_periodicity gregorian 9 ''weekly'' 20000 demo_world = (Err (NotFound 9), demo_world) \<and>
   snd (set_periodicity gregorian 1 ''hourly'' 20000 demo_world) = demo_world \<and>
   digests (snd (set_periodicity gregorian 1 ''weekly'' 20000 (demo_world\<lparr>sql_faults := [Some ''down'']\<rparr>))) = digests demo_world \<and>
   set_periodicity gregorian 1 ''weekly'' (date_max gregorian) demo_world = (Panic, demo_world)"
proof -
  have r: "date_min gregorian \<le> 20000" "20000 \<le> date_max gregorian" "ymd_of gregorian 20000 = (2024, 10, 4)"
    and last: "advance gregorian Weekly (date_max gregorian) = None"
    and inner: "\<not> year_max gregorian \<le> 2024 + 1"
    by code_simp+
  note e = set_periodicity_effect [OF gregorian_laws r]
  have w: "demo_world\<lparr>sql_faults := []\<rparr> = demo_world" "sql_faults demo_world = []"
    using demo_no_faults(1) by simp_all
  have rows: "find_row 1 (digests demo_world) \<noteq> None" "find_row 9 (digests demo_world) = None"
    by (simp_all add: find_row_def demo_world_def idle_world_def demo_digest_def)
  have t: "''weekly'' \<in> range periodicity_as_str" "''hourly'' \<notin> range periodicity_as_str"
    by (metis periodicity_as_str.simps(2) rangeI, rule notI, erule rangeE, rename_tac x, case_tac x, simp_all)
  have "\<exists>w'. set_periodicity gregorian 1 ''weekly'' 20000 demo_world = (Ok (), w')"
    using e [where i = 1 and v = "''weekly''" and w = demo_world] rows(1) t(1) w inner by (auto split: prod.splits res.splits digest_error.splits)
  moreover have "set_periodicity gregorian 9 ''weekly'' 20000 demo_world = (Err (NotFound 9), demo_world)"
    using e [where i = 9 and v = "''weekly''" and w = demo_world] rows(2) t(1) w inner by (auto split: prod.splits res.splits digest_error.splits)
  moreover have "snd (set_periodicity gregorian 1 ''hourly'' 20000 demo_world) = demo_world"
    using e [where i = 1 and v = "''hourly''" and w = demo_world] t(2) w by (auto split: prod.splits res.splits if_splits)
  moreover have "digests (snd (set_periodicity gregorian 1 ''weekly'' 20000 (demo_world\<lparr>sql_faults := [Some ''down'']\<rparr>))) =
      digests demo_world"
    using e [where i = 1 and v = "''weekly''" and w = "demo_world\<lparr>sql_faults := [Some ''down'']\<rparr>"] t(1) inner
    by (auto split: prod.splits res.splits digest_error.splits)
  moreover have "set_periodicity gregorian 1 ''weekly'' (date_max gregorian) demo_world = (Panic, demo_world)"
  proof -
    have "parse_periodicity ''weekly'' = Some Weekly" by code_simp
    with last show ?thesis by (simp add: set_periodicity_def panic_def)
  qed
  ultimately show ?thesis by blast
qed

section \<open>What the claim query sees\<close>

text \<open>
  A switched-off digest is never claimed. After the state verb has put a digest off, it is in
  no due queue, whatever its next run date and whatever the day; switching it on leaves the date,
  and a digest whose date has passed is due at once.
\<close>

theorem switched_off_is_not_due:
  assumes "set_state i on w = (Ok (), w')" "world_ok w"
  shows "(\<exists>t p r. r \<in> set (due_queue t p w') \<and> dg_id r = i) \<longleftrightarrow>
    on \<and> i \<notin> set (row_locks w) \<and> (\<exists>r n. r \<in> set (digests w) \<and> dg_id r = i \<and> dg_next_run_date r = Some n)"
proof -
  let ?s = "if on then Activated else Deactivated"
  obtain n w1 where u: "sql (update_digest i (\<lambda>r. r\<lparr>dg_state := ?s\<rparr>)) w = (Ok n, w1)" and w': "w' = w1"
    using assms(1) unfolding set_state_def by (elim and_then_Ok) (auto simp: throw_def return_def split: if_splits)
  have D: "digests w' = set_row i (\<lambda>r. r\<lparr>dg_state := ?s\<rparr>) (digests w)"
    using sql_update_Ok(1) [OF u] w' by simp
  have L: "row_locks w' = row_locks w"
  proof -
    obtain fs where "update_digest i (\<lambda>r. r\<lparr>dg_state := ?s\<rparr>) (w\<lparr>sql_faults := fs\<rparr>) = (n, w1)"
      using sql_Ok [OF u] by blast
    from arg_cong [OF this, of "\<lambda>x. row_locks (snd x)"] w' show ?thesis by simp
  qed
  have q: "r \<in> set (due_queue t p w') \<longleftrightarrow> r \<in> set (digests w') \<and> is_due t r \<and> dg_id r \<notin> set p \<and> dg_id r \<notin> set (row_locks w)"
    for r t p by (auto simp: due_queue_def L)
  show ?thesis
  proof
    assume "\<exists>t p r. r \<in> set (due_queue t p w') \<and> dg_id r = i"
    then obtain t r where r: "r \<in> set (digests w')" "is_due t r" "dg_id r = i" "i \<notin> set (row_locks w)"
      by (auto simp: q)
    from r(1) obtain r0 where r0: "r0 \<in> set (digests w)" "r = (if dg_id r0 = i then r0\<lparr>dg_state := ?s\<rparr> else r0)"
      by (auto simp: D set_row_def)
    with r(3) have "dg_id r0 = i" by (auto split: if_splits)
    with r r0 show "on \<and> i \<notin> set (row_locks w) \<and>
        (\<exists>r n. r \<in> set (digests w) \<and> dg_id r = i \<and> dg_next_run_date r = Some n)"
      by (auto simp: is_due_def split: option.splits if_splits)
  next
    assume "on \<and> i \<notin> set (row_locks w) \<and>
        (\<exists>r n. r \<in> set (digests w) \<and> dg_id r = i \<and> dg_next_run_date r = Some n)"
    then obtain r n where r: "on" "i \<notin> set (row_locks w)" "r \<in> set (digests w)" "dg_id r = i" "dg_next_run_date r = Some n"
      by blast
    then have "r\<lparr>dg_state := Activated\<rparr> \<in> set (due_queue n [] w')"
      unfolding q D by (force simp: set_row_def is_due_def)
    with r(4) show "\<exists>t p r. r \<in> set (due_queue t p w') \<and> dg_id r = i" by fastforce
  qed
qed

lemma switched_off_is_not_due_witness:
  "\<exists>w'. set_state 1 False demo_world = (Ok (), w') \<and> (\<forall>t p. \<forall>r \<in> set (due_queue t p w'). dg_id r \<noteq> 1)"
proof -
  have "find_row 1 (digests demo_world) \<noteq> None"
    by (simp add: find_row_def demo_world_def idle_world_def demo_digest_def)
  then obtain w' where "set_state 1 False demo_world = (Ok (), w')"
    using update_or_not_found [OF demo_no_faults(1)] by (simp add: set_state_def)
  with switched_off_is_not_due [OF this demo_world_ok] show ?thesis by blast
qed

lemma insort_key_map: "(\<And>x. k (f x) = k x) \<Longrightarrow> insort_key k (f x) (map f xs) = map f (insort_key k x xs)"
  by (induction xs) auto

lemma sort_key_map: "(\<And>x. k (f x) = k x) \<Longrightarrow> sort_key k (map f xs) = map f (sort_key k xs)"
  by (induction xs) (simp_all add: insort_key_map)

text \<open>
  The claim query reads no tombstone. Whatever is written into the metadata of the digest rows,
  a \<^verbatim>\<open>deleted_at\<close> included, the sweep claims the same digest next: a soft-deleted digest that is
  activated and due is still swept and mailed, unlike every other read of the crate.
\<close>

theorem claim_ignores_tombstones:
  "fst (claim t p (w\<lparr>digests := map (\<lambda>r. r\<lparr>dg_metadata := m r\<rparr>) (digests w)\<rparr>)) = fst (claim t p w)"
proof -
  let ?f = "\<lambda>r. r\<lparr>dg_metadata := m r\<rparr>" and ?w = "w\<lparr>digests := map (\<lambda>r. r\<lparr>dg_metadata := m r\<rparr>) (digests w)\<rparr>"
  have "due_queue t p ?w = map ?f (due_queue t p w)"
    by (simp add: due_queue_def filter_map comp_def is_due_def sort_key_map)
  moreover have "due_queue t p (w\<lparr>sql_faults := fs\<rparr>) = due_queue t p w" for w fs
    by (simp add: due_queue_def)
  moreover have "read_row (?f r) = read_row r" for r by (simp add: read_row_def)
  ultimately show ?thesis
    by (auto simp: claim_def select_def sql_def split: list.split option.split)
qed

end
