(* ===== verification/State_Machines.thy ===== *)
theory State_Machines
  imports World
begin

text \<open>
  The two generated state machines (\<^verbatim>\<open>domain/state_machine/\<close>): states, transitions, their text forms,
  the transition table and the operations of a machine value. A \<^verbatim>\<open>&mut self\<close> method returns its
  result and the machine after it. The locale \<open>workflow\<close> is what the callers rely on; both
  machines are instances. \<open>digest_step\<close> and \<open>subscription_step\<close> are the step relations the tables
  define.
\<close>

datatype state_machine_error =
    InvalidState string
  | InvalidTransition string
  | TransitionNotAllowed string string
  | RoleNotAuthorized string string
  | GuardFailed string
  | FinalStateReached string

definition squoted :: "string \<Rightarrow> string" where
  "squoted s = [CHR 0x27] @ s @ [CHR 0x27]"

fun show_state_machine_error :: "state_machine_error \<Rightarrow> string" where
  "show_state_machine_error (InvalidState s) = ''Invalid state: '' @ s"
| "show_state_machine_error (InvalidTransition s) = ''Invalid transition: '' @ s"
| "show_state_machine_error (TransitionNotAllowed t f) =
     ''Transition '' @ squoted t @ '' not allowed from state '' @ squoted f"
| "show_state_machine_error (RoleNotAuthorized r t) =
     ''Role '' @ squoted r @ '' not authorized for transition '' @ squoted t"
| "show_state_machine_error (GuardFailed t) = ''Guard condition failed for transition '' @ squoted t"
| "show_state_machine_error (FinalStateReached s) = ''Cannot transition from final state '' @ squoted s"

section \<open>The contract of a machine\<close>

locale workflow =
  fixes current :: "'m \<Rightarrow> 's"
    and can :: "'m \<Rightarrow> 't \<Rightarrow> bool"
    and target :: "'t \<Rightarrow> 's"
    and all_transitions :: "'t list"
    and do_transition :: "'t \<Rightarrow> 'm \<Rightarrow> (state_machine_error + 's) \<times> 'm"
    and to_state :: "'s \<Rightarrow> 'm \<Rightarrow> (state_machine_error + 's) \<times> 'm"
    and available :: "'m \<Rightarrow> 't list"
  assumes do_allowed: "can m t \<Longrightarrow> fst (do_transition t m) = Inr (target t) \<and> current (snd (do_transition t m)) = target t"
    and do_refused: "\<not> can m t \<Longrightarrow> (\<exists>e. fst (do_transition t m) = Inl e) \<and> snd (do_transition t m) = m"
    and all_complete: "t \<in> set all_transitions"
    and available_def: "available m = filter (can m) all_transitions"
    and to_state_found: "find (\<lambda>t. target t = s) (available m) = Some t \<Longrightarrow> to_state s m = do_transition t m"
    and to_state_none: "find (\<lambda>t. target t = s) (available m) = None \<Longrightarrow>
          (\<exists>e. fst (to_state s m) = Inl e) \<and> snd (to_state s m) = m"
begin

lemma do_succeeds_iff: "(\<exists>s. fst (do_transition t m) = Inr s) \<longleftrightarrow> can m t"
  using do_allowed [of m t] do_refused [of m t] by (cases "can m t") auto

lemma available_iff: "t \<in> set (available m) \<longleftrightarrow> (\<exists>s. fst (do_transition t m) = Inr s)"
  by (simp add: available_def all_complete do_succeeds_iff)

text \<open>A refused operation keeps the machine; an accepted one is in the state it reports.\<close>

lemma do_result: "case fst (do_transition t m) of Inl e \<Rightarrow> snd (do_transition t m) = m
    | Inr s \<Rightarrow> s = target t \<and> current (snd (do_transition t m)) = s"
  using do_allowed [of m t] do_refused [of m t] by (cases "can m t") (auto split: sum.splits)

lemma to_state_iff:
  "(fst (to_state s m) = Inr s \<and> current (snd (to_state s m)) = s) \<longleftrightarrow> (\<exists>t. can m t \<and> target t = s)"
proof (cases "find (\<lambda>t. target t = s) (available m)")
  case None
  then have "\<not> (\<exists>t. can m t \<and> target t = s)"
    by (auto simp: find_None_iff available_def all_complete)
  with to_state_none [OF None] show ?thesis by auto
next
  case (Some t)
  then have "t \<in> set (available m)" "target t = s" by (auto simp: find_Some_iff in_set_conv_nth)
  then have c: "can m t" "target t = s" by (simp_all add: available_def)
  with to_state_found [OF Some] do_allowed [OF c(1)] show ?thesis by auto
qed

lemma to_state_refused: "\<not> (\<exists>t. can m t \<and> target t = s) \<Longrightarrow> snd (to_state s m) = m"
proof -
  assume n: "\<not> (\<exists>t. can m t \<and> target t = s)"
  then have "find (\<lambda>t. target t = s) (available m) = None"
    by (auto simp: find_None_iff available_def)
  from to_state_none [OF this] show ?thesis by simp
qed

end

section \<open>The digest machine\<close>

datatype digest_machine_state = StateActivated | StateDeactivated

datatype digest_transition = ActionActivate | ActionDeactivate

definition digest_default :: digest_machine_state where
  "digest_default = StateActivated"

fun show_digest_machine_state :: "digest_machine_state \<Rightarrow> string" where
  "show_digest_machine_state StateActivated = ''activated''"
| "show_digest_machine_state StateDeactivated = ''deactivated''"

definition digest_machine_state_from_str :: "string \<Rightarrow> state_machine_error + digest_machine_state" where
  "digest_machine_state_from_str s =
     (if to_lowercase s = ''activated'' then Inr StateActivated
      else if to_lowercase s = ''deactivated'' then Inr StateDeactivated
      else Inl (InvalidState s))"

fun digest_is_initial :: "digest_machine_state \<Rightarrow> bool" where
  "digest_is_initial StateActivated = True"
| "digest_is_initial _ = False"

fun digest_is_final :: "digest_machine_state \<Rightarrow> bool" where
  "digest_is_final StateDeactivated = True"
| "digest_is_final _ = False"

definition digest_all_states :: "digest_machine_state list" where
  "digest_all_states = [StateActivated, StateDeactivated]"

fun show_digest_transition :: "digest_transition \<Rightarrow> string" where
  "show_digest_transition ActionActivate = ''action_activate''"
| "show_digest_transition ActionDeactivate = ''action_deactivate''"

definition digest_transition_from_str :: "string \<Rightarrow> state_machine_error + digest_transition" where
  "digest_transition_from_str s =
     (if to_lowercase s = ''action_activate'' then Inr ActionActivate
      else if to_lowercase s = ''action_deactivate'' then Inr ActionDeactivate
      else Inl (InvalidTransition s))"

fun digest_target_state :: "digest_transition \<Rightarrow> digest_machine_state" where
  "digest_target_state ActionActivate = StateActivated"
| "digest_target_state ActionDeactivate = StateDeactivated"

definition digest_all_transitions :: "digest_transition list" where
  "digest_all_transitions = [ActionActivate, ActionDeactivate]"

fun digest_allowed_roles :: "digest_transition \<Rightarrow> string list" where
  "digest_allowed_roles ActionActivate = []"
| "digest_allowed_roles ActionDeactivate = []"

record digest_machine = digest_current_state :: digest_machine_state

definition digest_machine_new :: digest_machine where
  "digest_machine_new = \<lparr> digest_current_state = digest_default \<rparr>"

definition digest_from_state :: "digest_machine_state \<Rightarrow> digest_machine" where
  "digest_from_state s = \<lparr> digest_current_state = s \<rparr>"

definition digest_can_transition :: "digest_machine \<Rightarrow> digest_transition \<Rightarrow> bool" where
  "digest_can_transition m t =
     (case (digest_current_state m, t) of
        (StateActivated, ActionActivate) \<Rightarrow> True
      | (StateDeactivated, ActionActivate) \<Rightarrow> True
      | (StateActivated, ActionDeactivate) \<Rightarrow> True
      | (StateDeactivated, ActionDeactivate) \<Rightarrow> True)"

definition digest_can_transition_with_role :: "digest_machine \<Rightarrow> digest_transition \<Rightarrow> string \<Rightarrow> bool" where
  "digest_can_transition_with_role m t role =
     (if \<not> digest_can_transition m t then False
      else (let allowed = digest_allowed_roles t in
        if allowed = [] then True else list_ex (\<lambda>r. r = role \<or> r = ''*'') allowed))"

definition digest_do_transition ::
  "digest_transition \<Rightarrow> digest_machine \<Rightarrow> (state_machine_error + digest_machine_state) \<times> digest_machine" where
  "digest_do_transition t m =
     (if \<not> digest_can_transition m t
      then (Inl (TransitionNotAllowed (show_digest_transition t) (show_digest_machine_state (digest_current_state m))), m)
      else (let m' = m\<lparr>digest_current_state := digest_target_state t\<rparr> in (Inr (digest_current_state m'), m')))"

definition digest_transition_with_role ::
  "digest_transition \<Rightarrow> string \<Rightarrow> digest_machine \<Rightarrow> (state_machine_error + digest_machine_state) \<times> digest_machine" where
  "digest_transition_with_role t role m =
     (if \<not> digest_can_transition m t
      then (Inl (TransitionNotAllowed (show_digest_transition t) (show_digest_machine_state (digest_current_state m))), m)
      else if \<not> digest_can_transition_with_role m t role
      then (Inl (RoleNotAuthorized role (show_digest_transition t)), m)
      else (let m' = m\<lparr>digest_current_state := digest_target_state t\<rparr> in (Inr (digest_current_state m'), m')))"

definition digest_available_transitions :: "digest_machine \<Rightarrow> digest_transition list" where
  "digest_available_transitions m = filter (digest_can_transition m) digest_all_transitions"

definition digest_available_transitions_for_role :: "digest_machine \<Rightarrow> string \<Rightarrow> digest_transition list" where
  "digest_available_transitions_for_role m role =
     filter (\<lambda>t. digest_can_transition_with_role m t role) digest_all_transitions"

definition digest_transition_to_state ::
  "digest_machine_state \<Rightarrow> digest_machine \<Rightarrow> (state_machine_error + digest_machine_state) \<times> digest_machine" where
  "digest_transition_to_state tgt m =
     (case find (\<lambda>t. digest_target_state t = tgt) (filter (digest_can_transition m) digest_all_transitions) of
        Some t \<Rightarrow> digest_do_transition t m
      | None \<Rightarrow> (Inl (TransitionNotAllowed (show_digest_machine_state tgt)
                     (show_digest_machine_state (digest_current_state m))), m))"

interpretation digest_flow: workflow digest_current_state digest_can_transition digest_target_state
  digest_all_transitions digest_do_transition digest_transition_to_state digest_available_transitions
proof unfold_locales
  fix t show "t \<in> set digest_all_transitions" by (cases t) (simp_all add: digest_all_transitions_def)
qed (simp_all add: digest_do_transition_def digest_transition_to_state_def digest_available_transitions_def Let_def)

lemma digest_machine_state_roundtrip: "digest_machine_state_from_str (show_digest_machine_state s) = Inr s"
  by (cases s) (simp_all add: digest_machine_state_from_str_def lower_char_def)

lemma digest_transition_roundtrip: "digest_transition_from_str (show_digest_transition t) = Inr t"
  by (cases t) (simp_all add: digest_transition_from_str_def lower_char_def)

text \<open>No transition carries a role list, so the role checks never refuse.\<close>

lemma digest_roles_open:
  "digest_can_transition_with_role m t role = digest_can_transition m t"
  "digest_transition_with_role t role m = digest_do_transition t m"
  by (cases t; simp add: digest_can_transition_with_role_def digest_transition_with_role_def
      digest_do_transition_def)+

inductive digest_step :: "digest_machine_state \<Rightarrow> digest_transition \<Rightarrow> digest_machine_state \<Rightarrow> bool" where
  step: "digest_can_transition (digest_from_state s) t \<Longrightarrow> digest_step s t (digest_target_state t)"

inductive_cases digest_stepE: "digest_step s t s'"

inductive_simps digest_step_iff: "digest_step s t s'"

inductive digest_run :: "digest_machine_state \<Rightarrow> digest_transition list \<Rightarrow> digest_machine_state \<Rightarrow> bool" where
  run_nil: "digest_run s [] s"
| run_cons: "digest_step s t s' \<Longrightarrow> digest_run s' ts s'' \<Longrightarrow> digest_run s (t # ts) s''"

inductive_cases digest_run_consE: "digest_run s (t # ts) s'"

inductive_simps digest_run_nil_iff: "digest_run s [] s'"

lemma digest_step_machine:
  "digest_step s t s' \<longleftrightarrow> digest_do_transition t (digest_from_state s) = (Inr s', digest_from_state s')"
  by (auto simp: digest_step_iff digest_do_transition_def digest_from_state_def Let_def)

section \<open>The subscription machine\<close>

datatype subscription_machine_state = StateSubscribed | StateUnsubscribed

datatype subscription_transition = Unsubscribe | Resubscribe

definition subscription_default :: subscription_machine_state where
  "subscription_default = StateSubscribed"

fun show_subscription_machine_state :: "subscription_machine_state \<Rightarrow> string" where
  "show_subscription_machine_state StateSubscribed = ''subscribed''"
| "show_subscription_machine_state StateUnsubscribed = ''unsubscribed''"

definition subscription_machine_state_from_str :: "string \<Rightarrow> state_machine_error + subscription_machine_state" where
  "subscription_machine_state_from_str s =
     (if to_lowercase s = ''subscribed'' then Inr StateSubscribed
      else if to_lowercase s = ''unsubscribed'' then Inr StateUnsubscribed
      else Inl (InvalidState s))"

fun subscription_is_initial :: "subscription_machine_state \<Rightarrow> bool" where
  "subscription_is_initial StateSubscribed = True"
| "subscription_is_initial _ = False"

fun subscription_is_final :: "subscription_machine_state \<Rightarrow> bool" where
  "subscription_is_final StateUnsubscribed = True"
| "subscription_is_final _ = False"

definition subscription_all_states :: "subscription_machine_state list" where
  "subscription_all_states = [StateSubscribed, StateUnsubscribed]"

fun show_subscription_transition :: "subscription_transition \<Rightarrow> string" where
  "show_subscription_transition Unsubscribe = ''unsubscribe''"
| "show_subscription_transition Resubscribe = ''resubscribe''"

definition subscription_transition_from_str :: "string \<Rightarrow> state_machine_error + subscription_transition" where
  "subscription_transition_from_str s =
     (if to_lowercase s = ''unsubscribe'' then Inr Unsubscribe
      else if to_lowercase s = ''resubscribe'' then Inr Resubscribe
      else Inl (InvalidTransition s))"

fun subscription_target_state :: "subscription_transition \<Rightarrow> subscription_machine_state" where
  "subscription_target_state Unsubscribe = StateUnsubscribed"
| "subscription_target_state Resubscribe = StateSubscribed"

definition subscription_all_transitions :: "subscription_transition list" where
  "subscription_all_transitions = [Unsubscribe, Resubscribe]"

fun subscription_allowed_roles :: "subscription_transition \<Rightarrow> string list" where
  "subscription_allowed_roles Unsubscribe = []"
| "subscription_allowed_roles Resubscribe = []"

record subscription_machine = subscription_current_state :: subscription_machine_state

definition subscription_machine_new :: subscription_machine where
  "subscription_machine_new = \<lparr> subscription_current_state = subscription_default \<rparr>"

definition subscription_from_state :: "subscription_machine_state \<Rightarrow> subscription_machine" where
  "subscription_from_state s = \<lparr> subscription_current_state = s \<rparr>"

definition subscription_can_transition :: "subscription_machine \<Rightarrow> subscription_transition \<Rightarrow> bool" where
  "subscription_can_transition m t =
     (case (subscription_current_state m, t) of
        (StateSubscribed, Unsubscribe) \<Rightarrow> True
      | (StateUnsubscribed, Resubscribe) \<Rightarrow> True
      | _ \<Rightarrow> False)"

definition subscription_can_transition_with_role :: "subscription_machine \<Rightarrow> subscription_transition \<Rightarrow> string \<Rightarrow> bool" where
  "subscription_can_transition_with_role m t role =
     (if \<not> subscription_can_transition m t then False
      else (let allowed = subscription_allowed_roles t in
        if allowed = [] then True else list_ex (\<lambda>r. r = role \<or> r = ''*'') allowed))"

definition subscription_do_transition ::
  "subscription_transition \<Rightarrow> subscription_machine \<Rightarrow> (state_machine_error + subscription_machine_state) \<times> subscription_machine" where
  "subscription_do_transition t m =
     (if \<not> subscription_can_transition m t
      then (Inl (TransitionNotAllowed (show_subscription_transition t) (show_subscription_machine_state (subscription_current_state m))), m)
      else (let m' = m\<lparr>subscription_current_state := subscription_target_state t\<rparr> in (Inr (subscription_current_state m'), m')))"

definition subscription_transition_with_role ::
  "subscription_transition \<Rightarrow> string \<Rightarrow> subscription_machine \<Rightarrow> (state_machine_error + subscription_machine_state) \<times> subscription_machine" where
  "subscription_transition_with_role t role m =
     (if \<not> subscription_can_transition m t
      then (Inl (TransitionNotAllowed (show_subscription_transition t) (show_subscription_machine_state (subscription_current_state m))), m)
      else if \<not> subscription_can_transition_with_role m t role
      then (Inl (RoleNotAuthorized role (show_subscription_transition t)), m)
      else (let m' = m\<lparr>subscription_current_state := subscription_target_state t\<rparr> in (Inr (subscription_current_state m'), m')))"

definition subscription_available_transitions :: "subscription_machine \<Rightarrow> subscription_transition list" where
  "subscription_available_transitions m = filter (subscription_can_transition m) subscription_all_transitions"

definition subscription_available_transitions_for_role :: "subscription_machine \<Rightarrow> string \<Rightarrow> subscription_transition list" where
  "subscription_available_transitions_for_role m role =
     filter (\<lambda>t. subscription_can_transition_with_role m t role) subscription_all_transitions"

definition subscription_transition_to_state ::
  "subscription_machine_state \<Rightarrow> subscription_machine \<Rightarrow> (state_machine_error + subscription_machine_state) \<times> subscription_machine" where
  "subscription_transition_to_state tgt m =
     (case find (\<lambda>t. subscription_target_state t = tgt) (filter (subscription_can_transition m) subscription_all_transitions) of
        Some t \<Rightarrow> subscription_do_transition t m
      | None \<Rightarrow> (Inl (TransitionNotAllowed (show_subscription_machine_state tgt)
                     (show_subscription_machine_state (subscription_current_state m))), m))"

interpretation subscription_flow: workflow subscription_current_state subscription_can_transition subscription_target_state
  subscription_all_transitions subscription_do_transition subscription_transition_to_state subscription_available_transitions
proof unfold_locales
  fix t show "t \<in> set subscription_all_transitions" by (cases t) (simp_all add: subscription_all_transitions_def)
qed (simp_all add: subscription_do_transition_def subscription_transition_to_state_def subscription_available_transitions_def Let_def)

lemma subscription_machine_state_roundtrip: "subscription_machine_state_from_str (show_subscription_machine_state s) = Inr s"
  by (cases s) (simp_all add: subscription_machine_state_from_str_def lower_char_def)

lemma subscription_transition_roundtrip: "subscription_transition_from_str (show_subscription_transition t) = Inr t"
  by (cases t) (simp_all add: subscription_transition_from_str_def lower_char_def)

text \<open>No transition carries a role list, so the role checks never refuse.\<close>

lemma subscription_roles_open:
  "subscription_can_transition_with_role m t role = subscription_can_transition m t"
  "subscription_transition_with_role t role m = subscription_do_transition t m"
  by (cases t; simp add: subscription_can_transition_with_role_def subscription_transition_with_role_def
      subscription_do_transition_def)+

inductive subscription_step :: "subscription_machine_state \<Rightarrow> subscription_transition \<Rightarrow> subscription_machine_state \<Rightarrow> bool" where
  step: "subscription_can_transition (subscription_from_state s) t \<Longrightarrow> subscription_step s t (subscription_target_state t)"

inductive_cases subscription_stepE: "subscription_step s t s'"

inductive_simps subscription_step_iff: "subscription_step s t s'"

inductive subscription_run :: "subscription_machine_state \<Rightarrow> subscription_transition list \<Rightarrow> subscription_machine_state \<Rightarrow> bool" where
  run_nil: "subscription_run s [] s"
| run_cons: "subscription_step s t s' \<Longrightarrow> subscription_run s' ts s'' \<Longrightarrow> subscription_run s (t # ts) s''"

inductive_cases subscription_run_consE: "subscription_run s (t # ts) s'"

inductive_simps subscription_run_nil_iff: "subscription_run s [] s'"

lemma subscription_step_machine:
  "subscription_step s t s' \<longleftrightarrow> subscription_do_transition t (subscription_from_state s) = (Inr s', subscription_from_state s')"
  by (auto simp: subscription_step_iff subscription_do_transition_def subscription_from_state_def Let_def)

section \<open>Reachability\<close>

text \<open>
  The digest table is complete: every transition is allowed everywhere and the last one wins.
  Both machines call their second state final, yet both leave it.
\<close>

lemma digest_step_total: "digest_step s t s' \<longleftrightarrow> s' = digest_target_state t"
  by (cases s; cases t) (auto simp: digest_step_iff digest_can_transition_def digest_from_state_def)

lemma subscription_step_table:
  "subscription_step s t s' \<longleftrightarrow>
     (s, t, s') \<in> {(StateSubscribed, Unsubscribe, StateUnsubscribed), (StateUnsubscribed, Resubscribe, StateSubscribed)}"
  by (cases s; cases t) (auto simp: subscription_step_iff subscription_can_transition_def subscription_from_state_def)

lemma digest_run_last: "digest_run s ts s' \<longleftrightarrow> s' = (if ts = [] then s else digest_target_state (last ts))"
proof (induction ts arbitrary: s)
  case Nil
  show ?case by (auto simp: digest_run_nil_iff)
next
  case (Cons t ts)
  show ?case
  proof
    assume "digest_run s (t # ts) s'"
    then show "s' = (if t # ts = [] then s else digest_target_state (last (t # ts)))"
      by (rule digest_run_consE) (use Cons in \<open>auto simp: digest_step_total\<close>)
  next
    assume "s' = (if t # ts = [] then s else digest_target_state (last (t # ts)))"
    with Cons show "digest_run s (t # ts) s'"
      by (intro digest_run.run_cons [of _ _ "digest_target_state t"]) (auto simp: digest_step_total)
  qed
qed

text \<open>A run of the subscription machine is determined by its start and its length: it alternates.\<close>

lemma subscription_run_parity:
  "subscription_run s ts s' \<Longrightarrow> s' = s \<longleftrightarrow> even (length ts)"
  by (induction rule: subscription_run.induct)
    (auto simp: subscription_step_table, (metis subscription_machine_state.exhaust)+)

lemma subscription_run_unique:
  "subscription_run s ts s1 \<Longrightarrow> subscription_run s ts' s2 \<Longrightarrow> length ts = length ts' \<Longrightarrow> ts = ts' \<and> s1 = s2"
proof (induction arbitrary: ts' rule: subscription_run.induct)
  case (run_nil s)
  then show ?case by (simp add: subscription_run_nil_iff)
next
  case (run_cons s t s' ts s'')
  then obtain t' r where "ts' = t' # r" by (cases ts') auto
  with run_cons show ?case
    by (auto elim!: subscription_run_consE simp: subscription_step_table)
qed

end
