(* ===== verification/Entities.thy ===== *)
theory Entities
  imports Externals State_Machines "HOL-Library.Multiset"
begin

text \<open>
  The five generated entities and their audit metadata (\<^verbatim>\<open>domain/entity/\<close>): construction, fluent
  setters, builders, partial updates from JSON, and the state changes that go through the state
  machines. The fields every entity has are the base record \<open>entity\<close>; \<^verbatim>\<open>Uuid::new_v4()\<close> and
  \<^verbatim>\<open>Utc::now()\<close> are arguments. \<open>apply_patch\<close> walks a \<^verbatim>\<open>HashMap\<close>, so its fields come as a list in any
  order; the locale \<open>field_patch\<close> shows that the order does not matter.
\<close>

section \<open>Audit metadata\<close>

record audit_metadata =
  am_created_at :: "datetime option"
  am_updated_at :: "datetime option"
  am_deleted_at :: "datetime option"
  am_created_by :: "uuid option"
  am_updated_by :: "uuid option"
  am_deleted_by :: "uuid option"

definition audit_default :: audit_metadata where
  "audit_default =
     \<lparr> am_created_at = None, am_updated_at = None, am_deleted_at = None,
       am_created_by = None, am_updated_by = None, am_deleted_by = None \<rparr>"

definition audit_new :: "datetime \<Rightarrow> audit_metadata" where
  "audit_new wall = audit_default\<lparr>am_created_at := Some wall\<rparr>"

definition audit_with_creator :: "uuid \<Rightarrow> datetime \<Rightarrow> audit_metadata" where
  "audit_with_creator creator wall = audit_default\<lparr>am_created_at := Some wall, am_created_by := Some creator\<rparr>"

definition audit_touch :: "datetime \<Rightarrow> audit_metadata \<Rightarrow> audit_metadata" where
  "audit_touch wall m = m\<lparr>am_updated_at := Some wall\<rparr>"

definition audit_touch_by :: "uuid \<Rightarrow> datetime \<Rightarrow> audit_metadata \<Rightarrow> audit_metadata" where
  "audit_touch_by updater wall m = m\<lparr>am_updated_at := Some wall, am_updated_by := Some updater\<rparr>"

definition audit_soft_delete :: "datetime \<Rightarrow> audit_metadata \<Rightarrow> audit_metadata" where
  "audit_soft_delete wall m = m\<lparr>am_deleted_at := Some wall\<rparr>"

definition audit_soft_delete_by :: "uuid \<Rightarrow> datetime \<Rightarrow> audit_metadata \<Rightarrow> audit_metadata" where
  "audit_soft_delete_by deleter wall m = m\<lparr>am_deleted_at := Some wall, am_deleted_by := Some deleter\<rparr>"

definition audit_restore :: "audit_metadata \<Rightarrow> audit_metadata" where
  "audit_restore m = m\<lparr>am_deleted_at := None, am_deleted_by := None\<rparr>"

definition audit_is_deleted :: "audit_metadata \<Rightarrow> bool" where
  "audit_is_deleted m \<longleftrightarrow> am_deleted_at m \<noteq> None"

definition audit_is_active :: "audit_metadata \<Rightarrow> bool" where
  "audit_is_active m \<longleftrightarrow> am_deleted_at m = None"

lemma audit_restore_delete:
  "am_deleted_at m = None \<Longrightarrow> am_deleted_by m = None \<Longrightarrow> audit_restore (audit_soft_delete_by u t m) = m"
  by (cases m) (simp add: audit_restore_def audit_soft_delete_by_def)

section \<open>What every entity has\<close>

record entity =
  ent_id :: uuid
  ent_metadata :: audit_metadata

definition entity_id :: "externals \<Rightarrow> 'a entity_scheme \<Rightarrow> string" where
  "entity_id X e = uuid_show X (ent_id e)"

definition set_entity_id :: "externals \<Rightarrow> string \<Rightarrow> 'a entity_scheme \<Rightarrow> 'a entity_scheme" where
  "set_entity_id X s e = (case uuid_parse_str X s of Some u \<Rightarrow> e\<lparr>ent_id := u\<rparr> | None \<Rightarrow> e)"

definition set_created_at :: "datetime \<Rightarrow> 'a entity_scheme \<Rightarrow> 'a entity_scheme" where
  "set_created_at ts e = e\<lparr>ent_metadata := (ent_metadata e)\<lparr>am_created_at := Some ts\<rparr>\<rparr>"

definition set_updated_at :: "datetime \<Rightarrow> 'a entity_scheme \<Rightarrow> 'a entity_scheme" where
  "set_updated_at ts e = e\<lparr>ent_metadata := (ent_metadata e)\<lparr>am_updated_at := Some ts\<rparr>\<rparr>"

definition set_deleted_at :: "datetime option \<Rightarrow> 'a entity_scheme \<Rightarrow> 'a entity_scheme" where
  "set_deleted_at ts e = e\<lparr>ent_metadata := (ent_metadata e)\<lparr>am_deleted_at := ts\<rparr>\<rparr>"

definition entity_is_deleted :: "'a entity_scheme \<Rightarrow> bool" where
  "entity_is_deleted e \<longleftrightarrow> am_deleted_at (ent_metadata e) \<noteq> None"

lemma set_entity_id_own: "text_ok X \<Longrightarrow> set_entity_id X (entity_id X e') e = e\<lparr>ent_id := ent_id e'\<rparr>"
  by (simp add: set_entity_id_def entity_id_def text_ok_def)

definition kept :: "'a option \<Rightarrow> 'a \<Rightarrow> 'a" where
  "kept r old = (case r of None \<Rightarrow> old | Some v \<Rightarrow> v)"

text \<open>A patch is a fold of field updates; updates of different fields commute.\<close>

locale field_patch =
  fixes patch :: "string \<times> json \<Rightarrow> 'e \<Rightarrow> 'e"
  assumes patch_commute: "k \<noteq> k' \<Longrightarrow> patch (k, v) (patch (k', v') e) = patch (k', v') (patch (k, v) e)"
begin

lemma patch_order:
  assumes "distinct (map fst kvs)" "mset kvs = mset kvs'"
  shows "fold patch kvs e = fold patch kvs' e"
proof -
  have "fold patch kvs = fold patch kvs'"
  proof (rule fold_multiset_equiv [OF _ assms(2)])
    fix x y
    assume xy: "x \<in> set kvs" "y \<in> set kvs"
    show "patch x \<circ> patch y = patch y \<circ> patch x"
    proof (cases "x = y")
      case False
      with xy assms(1) have "fst x \<noteq> fst y" by (meson distinct_map inj_onD)
      then show ?thesis
        using patch_commute [of "fst x" "fst y" "snd x" "snd y"] by (simp add: fun_eq_iff)
    qed simp
  qed
  then show ?thesis by simp
qed

end

section \<open>Digests\<close>

record digest_entity = entity +
  de_name :: string
  de_periodicity :: periodicity
  de_next_run_date :: "date option"
  de_state :: digest_state

definition digest_entity_new :: "uuid \<Rightarrow> string \<Rightarrow> periodicity \<Rightarrow> digest_state \<Rightarrow> digest_entity" where
  "digest_entity_new new_id nm per st =
     \<lparr> ent_id = new_id, ent_metadata = audit_default,
       de_name = nm, de_periodicity = per, de_next_run_date = None, de_state = st \<rparr>"

definition digest_entity_with_next_run_date :: "date \<Rightarrow> digest_entity \<Rightarrow> digest_entity" where
  "digest_entity_with_next_run_date v e = e\<lparr>de_next_run_date := Some v\<rparr>"

definition digest_entity_patch_field :: "externals \<Rightarrow> string \<times> json \<Rightarrow> digest_entity \<Rightarrow> digest_entity" where
  "digest_entity_patch_field X kv e =
     (case kv of (key, value) \<Rightarrow>
       if key = ''name'' then (case read_string value of Some v \<Rightarrow> e\<lparr>de_name := v\<rparr> | None \<Rightarrow> e)
       else if key = ''periodicity'' then (case read_variant parse_periodicity value of Some v \<Rightarrow> e\<lparr>de_periodicity := v\<rparr> | None \<Rightarrow> e)
       else if key = ''next_run_date'' then (case read_option (read_date X) value of Some v \<Rightarrow> e\<lparr>de_next_run_date := v\<rparr> | None \<Rightarrow> e)
       else e)"

definition digest_entity_apply_patch :: "externals \<Rightarrow> (string \<times> json) list \<Rightarrow> digest_entity \<Rightarrow> digest_entity" where
  "digest_entity_apply_patch X kvs e = fold (digest_entity_patch_field X) kvs e"

record digest_entity_builder =
  deb_name :: "string option"
  deb_periodicity :: "periodicity option"
  deb_next_run_date :: "date option"
  deb_state :: "digest_state option"

definition digest_entity_builder_default :: digest_entity_builder where
  "digest_entity_builder_default = \<lparr> deb_name = None, deb_periodicity = None, deb_next_run_date = None, deb_state = None \<rparr>"

definition digest_entity_set_name :: "string \<Rightarrow> digest_entity_builder \<Rightarrow> digest_entity_builder" where
  "digest_entity_set_name v b = b\<lparr>deb_name := Some v\<rparr>"

definition digest_entity_set_periodicity :: "periodicity \<Rightarrow> digest_entity_builder \<Rightarrow> digest_entity_builder" where
  "digest_entity_set_periodicity v b = b\<lparr>deb_periodicity := Some v\<rparr>"

definition digest_entity_set_next_run_date :: "date \<Rightarrow> digest_entity_builder \<Rightarrow> digest_entity_builder" where
  "digest_entity_set_next_run_date v b = b\<lparr>deb_next_run_date := Some v\<rparr>"

definition digest_entity_set_state :: "digest_state \<Rightarrow> digest_entity_builder \<Rightarrow> digest_entity_builder" where
  "digest_entity_set_state v b = b\<lparr>deb_state := Some v\<rparr>"

definition digest_entity_build :: "uuid \<Rightarrow> digest_entity_builder \<Rightarrow> string + digest_entity" where
  "digest_entity_build new_id b =
     (case deb_name b of None \<Rightarrow> Inl ''name is required'' | Some nm \<Rightarrow>
       Inr \<lparr> ent_id = new_id, ent_metadata = audit_default,
         de_name = nm,
         de_periodicity = (case deb_periodicity b of None \<Rightarrow> Daily | Some v \<Rightarrow> v),
         de_next_run_date = deb_next_run_date b,
         de_state = (case deb_state b of None \<Rightarrow> Activated | Some v \<Rightarrow> v) \<rparr>)"

lemma digest_entity_patch_fields:
  "de_name (digest_entity_patch_field X kv e) = (if fst kv = ''name'' then kept (read_string (snd kv)) (de_name e) else de_name e)"
  "de_periodicity (digest_entity_patch_field X kv e) = (if fst kv = ''periodicity'' then kept (read_variant parse_periodicity (snd kv)) (de_periodicity e) else de_periodicity e)"
  "de_next_run_date (digest_entity_patch_field X kv e) = (if fst kv = ''next_run_date'' then kept (read_option (read_date X) (snd kv)) (de_next_run_date e) else de_next_run_date e)"
  by (cases kv; simp add: digest_entity_patch_field_def kept_def split: option.split)+

lemma digest_entity_patch_field_frame:
  "ent_id (digest_entity_patch_field X kv e) = ent_id e"
  "ent_metadata (digest_entity_patch_field X kv e) = ent_metadata e"
  "de_state (digest_entity_patch_field X kv e) = de_state e"
  by (cases kv; simp add: digest_entity_patch_field_def split: option.split)+

interpretation digest_entity_patch: field_patch "digest_entity_patch_field X" for X
proof
  fix X k v k' v' e
  assume "k \<noteq> (k' :: string)"
  then show "digest_entity_patch_field X (k, v) (digest_entity_patch_field X (k', v') e) =
      digest_entity_patch_field X (k', v') (digest_entity_patch_field X (k, v) e)"
    by (intro digest_entity.equality) (auto simp: digest_entity_patch_fields digest_entity_patch_field_frame)
qed

lemma digest_entity_apply_patch_frame:
  "ent_id (digest_entity_apply_patch X kvs e) = ent_id e"
  "ent_metadata (digest_entity_apply_patch X kvs e) = ent_metadata e"
  "de_state (digest_entity_apply_patch X kvs e) = de_state e"
  unfolding digest_entity_apply_patch_def
  by (induction kvs arbitrary: e) (simp_all add: digest_entity_patch_field_frame)

section \<open>Subscriptions\<close>

record subscription_entity = entity +
  se_digest_id :: uuid
  se_user_id :: uuid
  se_state :: subscription_state
  se_unsubscribed_at :: "datetime option"

definition subscription_entity_new :: "uuid \<Rightarrow> uuid \<Rightarrow> uuid \<Rightarrow> subscription_state \<Rightarrow> subscription_entity" where
  "subscription_entity_new new_id digest_id user_id st =
     \<lparr> ent_id = new_id, ent_metadata = audit_default,
       se_digest_id = digest_id, se_user_id = user_id, se_state = st, se_unsubscribed_at = None \<rparr>"

definition subscription_entity_with_unsubscribed_at :: "datetime \<Rightarrow> subscription_entity \<Rightarrow> subscription_entity" where
  "subscription_entity_with_unsubscribed_at v e = e\<lparr>se_unsubscribed_at := Some v\<rparr>"

definition subscription_entity_patch_field :: "externals \<Rightarrow> string \<times> json \<Rightarrow> subscription_entity \<Rightarrow> subscription_entity" where
  "subscription_entity_patch_field X kv e =
     (case kv of (key, value) \<Rightarrow>
       if key = ''digest_id'' then (case read_uuid X value of Some v \<Rightarrow> e\<lparr>se_digest_id := v\<rparr> | None \<Rightarrow> e)
       else if key = ''user_id'' then (case read_uuid X value of Some v \<Rightarrow> e\<lparr>se_user_id := v\<rparr> | None \<Rightarrow> e)
       else if key = ''unsubscribed_at'' then (case read_option (read_datetime X) value of Some v \<Rightarrow> e\<lparr>se_unsubscribed_at := v\<rparr> | None \<Rightarrow> e)
       else e)"

definition subscription_entity_apply_patch :: "externals \<Rightarrow> (string \<times> json) list \<Rightarrow> subscription_entity \<Rightarrow> subscription_entity" where
  "subscription_entity_apply_patch X kvs e = fold (subscription_entity_patch_field X) kvs e"

record subscription_entity_builder =
  seb_digest_id :: "uuid option"
  seb_user_id :: "uuid option"
  seb_state :: "subscription_state option"
  seb_unsubscribed_at :: "datetime option"

definition subscription_entity_builder_default :: subscription_entity_builder where
  "subscription_entity_builder_default = \<lparr> seb_digest_id = None, seb_user_id = None, seb_state = None, seb_unsubscribed_at = None \<rparr>"

definition subscription_entity_set_digest_id :: "uuid \<Rightarrow> subscription_entity_builder \<Rightarrow> subscription_entity_builder" where
  "subscription_entity_set_digest_id v b = b\<lparr>seb_digest_id := Some v\<rparr>"

definition subscription_entity_set_user_id :: "uuid \<Rightarrow> subscription_entity_builder \<Rightarrow> subscription_entity_builder" where
  "subscription_entity_set_user_id v b = b\<lparr>seb_user_id := Some v\<rparr>"

definition subscription_entity_set_state :: "subscription_state \<Rightarrow> subscription_entity_builder \<Rightarrow> subscription_entity_builder" where
  "subscription_entity_set_state v b = b\<lparr>seb_state := Some v\<rparr>"

definition subscription_entity_set_unsubscribed_at :: "datetime \<Rightarrow> subscription_entity_builder \<Rightarrow> subscription_entity_builder" where
  "subscription_entity_set_unsubscribed_at v b = b\<lparr>seb_unsubscribed_at := Some v\<rparr>"

definition subscription_entity_build :: "uuid \<Rightarrow> subscription_entity_builder \<Rightarrow> string + subscription_entity" where
  "subscription_entity_build new_id b =
     (case seb_digest_id b of None \<Rightarrow> Inl ''digest_id is required'' | Some digest_id \<Rightarrow>
       (case seb_user_id b of None \<Rightarrow> Inl ''user_id is required'' | Some user_id \<Rightarrow>
         Inr \<lparr> ent_id = new_id, ent_metadata = audit_default,
           se_digest_id = digest_id,
           se_user_id = user_id,
           se_state = (case seb_state b of None \<Rightarrow> Subscribed | Some v \<Rightarrow> v),
           se_unsubscribed_at = seb_unsubscribed_at b \<rparr>))"

lemma subscription_entity_patch_fields:
  "se_digest_id (subscription_entity_patch_field X kv e) = (if fst kv = ''digest_id'' then kept (read_uuid X (snd kv)) (se_digest_id e) else se_digest_id e)"
  "se_user_id (subscription_entity_patch_field X kv e) = (if fst kv = ''user_id'' then kept (read_uuid X (snd kv)) (se_user_id e) else se_user_id e)"
  "se_unsubscribed_at (subscription_entity_patch_field X kv e) = (if fst kv = ''unsubscribed_at'' then kept (read_option (read_datetime X) (snd kv)) (se_unsubscribed_at e) else se_unsubscribed_at e)"
  by (cases kv; simp add: subscription_entity_patch_field_def kept_def split: option.split)+

lemma subscription_entity_patch_field_frame:
  "ent_id (subscription_entity_patch_field X kv e) = ent_id e"
  "ent_metadata (subscription_entity_patch_field X kv e) = ent_metadata e"
  "se_state (subscription_entity_patch_field X kv e) = se_state e"
  by (cases kv; simp add: subscription_entity_patch_field_def split: option.split)+

interpretation subscription_entity_patch: field_patch "subscription_entity_patch_field X" for X
proof
  fix X k v k' v' e
  assume "k \<noteq> (k' :: string)"
  then show "subscription_entity_patch_field X (k, v) (subscription_entity_patch_field X (k', v') e) =
      subscription_entity_patch_field X (k', v') (subscription_entity_patch_field X (k, v) e)"
    by (intro subscription_entity.equality) (auto simp: subscription_entity_patch_fields subscription_entity_patch_field_frame)
qed

lemma subscription_entity_apply_patch_frame:
  "ent_id (subscription_entity_apply_patch X kvs e) = ent_id e"
  "ent_metadata (subscription_entity_apply_patch X kvs e) = ent_metadata e"
  "se_state (subscription_entity_apply_patch X kvs e) = se_state e"
  unfolding subscription_entity_apply_patch_def
  by (induction kvs arbitrary: e) (simp_all add: subscription_entity_patch_field_frame)

section \<open>Enabled KPIs\<close>

record kpi_entity = entity +
  ke_digest_id :: uuid
  ke_kpi_key :: string

definition kpi_entity_new :: "uuid \<Rightarrow> uuid \<Rightarrow> string \<Rightarrow> kpi_entity" where
  "kpi_entity_new new_id digest_id kk =
     \<lparr> ent_id = new_id, ent_metadata = audit_default,
       ke_digest_id = digest_id, ke_kpi_key = kk \<rparr>"

definition kpi_entity_patch_field :: "externals \<Rightarrow> string \<times> json \<Rightarrow> kpi_entity \<Rightarrow> kpi_entity" where
  "kpi_entity_patch_field X kv e =
     (case kv of (key, value) \<Rightarrow>
       if key = ''digest_id'' then (case read_uuid X value of Some v \<Rightarrow> e\<lparr>ke_digest_id := v\<rparr> | None \<Rightarrow> e)
       else if key = ''kpi_key'' then (case read_string value of Some v \<Rightarrow> e\<lparr>ke_kpi_key := v\<rparr> | None \<Rightarrow> e)
       else e)"

definition kpi_entity_apply_patch :: "externals \<Rightarrow> (string \<times> json) list \<Rightarrow> kpi_entity \<Rightarrow> kpi_entity" where
  "kpi_entity_apply_patch X kvs e = fold (kpi_entity_patch_field X) kvs e"

record kpi_entity_builder =
  keb_digest_id :: "uuid option"
  keb_kpi_key :: "string option"

definition kpi_entity_builder_default :: kpi_entity_builder where
  "kpi_entity_builder_default = \<lparr> keb_digest_id = None, keb_kpi_key = None \<rparr>"

definition kpi_entity_set_digest_id :: "uuid \<Rightarrow> kpi_entity_builder \<Rightarrow> kpi_entity_builder" where
  "kpi_entity_set_digest_id v b = b\<lparr>keb_digest_id := Some v\<rparr>"

definition kpi_entity_set_kpi_key :: "string \<Rightarrow> kpi_entity_builder \<Rightarrow> kpi_entity_builder" where
  "kpi_entity_set_kpi_key v b = b\<lparr>keb_kpi_key := Some v\<rparr>"

definition kpi_entity_build :: "uuid \<Rightarrow> kpi_entity_builder \<Rightarrow> string + kpi_entity" where
  "kpi_entity_build new_id b =
     (case keb_digest_id b of None \<Rightarrow> Inl ''digest_id is required'' | Some digest_id \<Rightarrow>
       (case keb_kpi_key b of None \<Rightarrow> Inl ''kpi_key is required'' | Some kk \<Rightarrow>
         Inr \<lparr> ent_id = new_id, ent_metadata = audit_default,
           ke_digest_id = digest_id,
           ke_kpi_key = kk \<rparr>))"

lemma kpi_entity_patch_fields:
  "ke_digest_id (kpi_entity_patch_field X kv e) = (if fst kv = ''digest_id'' then kept (read_uuid X (snd kv)) (ke_digest_id e) else ke_digest_id e)"
  "ke_kpi_key (kpi_entity_patch_field X kv e) = (if fst kv = ''kpi_key'' then kept (read_string (snd kv)) (ke_kpi_key e) else ke_kpi_key e)"
  by (cases kv; simp add: kpi_entity_patch_field_def kept_def split: option.split)+

lemma kpi_entity_patch_field_frame:
  "ent_id (kpi_entity_patch_field X kv e) = ent_id e"
  "ent_metadata (kpi_entity_patch_field X kv e) = ent_metadata e"
  by (cases kv; simp add: kpi_entity_patch_field_def split: option.split)+

interpretation kpi_entity_patch: field_patch "kpi_entity_patch_field X" for X
proof
  fix X k v k' v' e
  assume "k \<noteq> (k' :: string)"
  then show "kpi_entity_patch_field X (k, v) (kpi_entity_patch_field X (k', v') e) =
      kpi_entity_patch_field X (k', v') (kpi_entity_patch_field X (k, v) e)"
    by (intro kpi_entity.equality) (auto simp: kpi_entity_patch_fields kpi_entity_patch_field_frame)
qed

lemma kpi_entity_apply_patch_frame:
  "ent_id (kpi_entity_apply_patch X kvs e) = ent_id e"
  "ent_metadata (kpi_entity_apply_patch X kvs e) = ent_metadata e"
  unfolding kpi_entity_apply_patch_def
  by (induction kvs arbitrary: e) (simp_all add: kpi_entity_patch_field_frame)

section \<open>Tips\<close>

record tip_entity = entity +
  te_sequence :: int
  te_name :: string
  te_tip_description :: string
  te_group_key :: "string option"

definition tip_entity_new :: "uuid \<Rightarrow> int \<Rightarrow> string \<Rightarrow> string \<Rightarrow> tip_entity" where
  "tip_entity_new new_id sq nm tip_description =
     \<lparr> ent_id = new_id, ent_metadata = audit_default,
       te_sequence = sq, te_name = nm, te_tip_description = tip_description, te_group_key = None \<rparr>"

definition tip_entity_with_group_key :: "string \<Rightarrow> tip_entity \<Rightarrow> tip_entity" where
  "tip_entity_with_group_key v e = e\<lparr>te_group_key := Some v\<rparr>"

definition tip_entity_patch_field :: "externals \<Rightarrow> string \<times> json \<Rightarrow> tip_entity \<Rightarrow> tip_entity" where
  "tip_entity_patch_field X kv e =
     (case kv of (key, value) \<Rightarrow>
       if key = ''sequence'' then (case read_i32 value of Some v \<Rightarrow> e\<lparr>te_sequence := v\<rparr> | None \<Rightarrow> e)
       else if key = ''name'' then (case read_string value of Some v \<Rightarrow> e\<lparr>te_name := v\<rparr> | None \<Rightarrow> e)
       else if key = ''tip_description'' then (case read_string value of Some v \<Rightarrow> e\<lparr>te_tip_description := v\<rparr> | None \<Rightarrow> e)
       else if key = ''group_key'' then (case read_option (read_string) value of Some v \<Rightarrow> e\<lparr>te_group_key := v\<rparr> | None \<Rightarrow> e)
       else e)"

definition tip_entity_apply_patch :: "externals \<Rightarrow> (string \<times> json) list \<Rightarrow> tip_entity \<Rightarrow> tip_entity" where
  "tip_entity_apply_patch X kvs e = fold (tip_entity_patch_field X) kvs e"

record tip_entity_builder =
  teb_sequence :: "int option"
  teb_name :: "string option"
  teb_tip_description :: "string option"
  teb_group_key :: "string option"

definition tip_entity_builder_default :: tip_entity_builder where
  "tip_entity_builder_default = \<lparr> teb_sequence = None, teb_name = None, teb_tip_description = None, teb_group_key = None \<rparr>"

definition tip_entity_set_sequence :: "int \<Rightarrow> tip_entity_builder \<Rightarrow> tip_entity_builder" where
  "tip_entity_set_sequence v b = b\<lparr>teb_sequence := Some v\<rparr>"

definition tip_entity_set_name :: "string \<Rightarrow> tip_entity_builder \<Rightarrow> tip_entity_builder" where
  "tip_entity_set_name v b = b\<lparr>teb_name := Some v\<rparr>"

definition tip_entity_set_tip_description :: "string \<Rightarrow> tip_entity_builder \<Rightarrow> tip_entity_builder" where
  "tip_entity_set_tip_description v b = b\<lparr>teb_tip_description := Some v\<rparr>"

definition tip_entity_set_group_key :: "string \<Rightarrow> tip_entity_builder \<Rightarrow> tip_entity_builder" where
  "tip_entity_set_group_key v b = b\<lparr>teb_group_key := Some v\<rparr>"

definition tip_entity_build :: "uuid \<Rightarrow> tip_entity_builder \<Rightarrow> string + tip_entity" where
  "tip_entity_build new_id b =
     (case teb_name b of None \<Rightarrow> Inl ''name is required'' | Some nm \<Rightarrow>
       (case teb_tip_description b of None \<Rightarrow> Inl ''tip_description is required'' | Some tip_description \<Rightarrow>
         Inr \<lparr> ent_id = new_id, ent_metadata = audit_default,
           te_sequence = (case teb_sequence b of None \<Rightarrow> 1 | Some v \<Rightarrow> v),
           te_name = nm,
           te_tip_description = tip_description,
           te_group_key = teb_group_key b \<rparr>))"

lemma tip_entity_patch_fields:
  "te_sequence (tip_entity_patch_field X kv e) = (if fst kv = ''sequence'' then kept (read_i32 (snd kv)) (te_sequence e) else te_sequence e)"
  "te_name (tip_entity_patch_field X kv e) = (if fst kv = ''name'' then kept (read_string (snd kv)) (te_name e) else te_name e)"
  "te_tip_description (tip_entity_patch_field X kv e) = (if fst kv = ''tip_description'' then kept (read_string (snd kv)) (te_tip_description e) else te_tip_description e)"
  "te_group_key (tip_entity_patch_field X kv e) = (if fst kv = ''group_key'' then kept (read_option (read_string) (snd kv)) (te_group_key e) else te_group_key e)"
  by (cases kv; simp add: tip_entity_patch_field_def kept_def split: option.split)+

lemma tip_entity_patch_field_frame:
  "ent_id (tip_entity_patch_field X kv e) = ent_id e"
  "ent_metadata (tip_entity_patch_field X kv e) = ent_metadata e"
  by (cases kv; simp add: tip_entity_patch_field_def split: option.split)+

interpretation tip_entity_patch: field_patch "tip_entity_patch_field X" for X
proof
  fix X k v k' v' e
  assume "k \<noteq> (k' :: string)"
  then show "tip_entity_patch_field X (k, v) (tip_entity_patch_field X (k', v') e) =
      tip_entity_patch_field X (k', v') (tip_entity_patch_field X (k, v) e)"
    by (intro tip_entity.equality) (auto simp: tip_entity_patch_fields tip_entity_patch_field_frame)
qed

lemma tip_entity_apply_patch_frame:
  "ent_id (tip_entity_apply_patch X kvs e) = ent_id e"
  "ent_metadata (tip_entity_apply_patch X kvs e) = ent_metadata e"
  unfolding tip_entity_apply_patch_def
  by (induction kvs arbitrary: e) (simp_all add: tip_entity_patch_field_frame)

section \<open>Consumed tips\<close>

record tip_user_entity = entity +
  ue_tip_id :: uuid
  ue_user_id :: uuid

definition tip_user_entity_new :: "uuid \<Rightarrow> uuid \<Rightarrow> uuid \<Rightarrow> tip_user_entity" where
  "tip_user_entity_new new_id tip_id user_id =
     \<lparr> ent_id = new_id, ent_metadata = audit_default,
       ue_tip_id = tip_id, ue_user_id = user_id \<rparr>"

definition tip_user_entity_patch_field :: "externals \<Rightarrow> string \<times> json \<Rightarrow> tip_user_entity \<Rightarrow> tip_user_entity" where
  "tip_user_entity_patch_field X kv e =
     (case kv of (key, value) \<Rightarrow>
       if key = ''tip_id'' then (case read_uuid X value of Some v \<Rightarrow> e\<lparr>ue_tip_id := v\<rparr> | None \<Rightarrow> e)
       else if key = ''user_id'' then (case read_uuid X value of Some v \<Rightarrow> e\<lparr>ue_user_id := v\<rparr> | None \<Rightarrow> e)
       else e)"

definition tip_user_entity_apply_patch :: "externals \<Rightarrow> (string \<times> json) list \<Rightarrow> tip_user_entity \<Rightarrow> tip_user_entity" where
  "tip_user_entity_apply_patch X kvs e = fold (tip_user_entity_patch_field X) kvs e"

record tip_user_entity_builder =
  ueb_tip_id :: "uuid option"
  ueb_user_id :: "uuid option"

definition tip_user_entity_builder_default :: tip_user_entity_builder where
  "tip_user_entity_builder_default = \<lparr> ueb_tip_id = None, ueb_user_id = None \<rparr>"

definition tip_user_entity_set_tip_id :: "uuid \<Rightarrow> tip_user_entity_builder \<Rightarrow> tip_user_entity_builder" where
  "tip_user_entity_set_tip_id v b = b\<lparr>ueb_tip_id := Some v\<rparr>"

definition tip_user_entity_set_user_id :: "uuid \<Rightarrow> tip_user_entity_builder \<Rightarrow> tip_user_entity_builder" where
  "tip_user_entity_set_user_id v b = b\<lparr>ueb_user_id := Some v\<rparr>"

definition tip_user_entity_build :: "uuid \<Rightarrow> tip_user_entity_builder \<Rightarrow> string + tip_user_entity" where
  "tip_user_entity_build new_id b =
     (case ueb_tip_id b of None \<Rightarrow> Inl ''tip_id is required'' | Some tip_id \<Rightarrow>
       (case ueb_user_id b of None \<Rightarrow> Inl ''user_id is required'' | Some user_id \<Rightarrow>
         Inr \<lparr> ent_id = new_id, ent_metadata = audit_default,
           ue_tip_id = tip_id,
           ue_user_id = user_id \<rparr>))"

lemma tip_user_entity_patch_fields:
  "ue_tip_id (tip_user_entity_patch_field X kv e) = (if fst kv = ''tip_id'' then kept (read_uuid X (snd kv)) (ue_tip_id e) else ue_tip_id e)"
  "ue_user_id (tip_user_entity_patch_field X kv e) = (if fst kv = ''user_id'' then kept (read_uuid X (snd kv)) (ue_user_id e) else ue_user_id e)"
  by (cases kv; simp add: tip_user_entity_patch_field_def kept_def split: option.split)+

lemma tip_user_entity_patch_field_frame:
  "ent_id (tip_user_entity_patch_field X kv e) = ent_id e"
  "ent_metadata (tip_user_entity_patch_field X kv e) = ent_metadata e"
  by (cases kv; simp add: tip_user_entity_patch_field_def split: option.split)+

interpretation tip_user_entity_patch: field_patch "tip_user_entity_patch_field X" for X
proof
  fix X k v k' v' e
  assume "k \<noteq> (k' :: string)"
  then show "tip_user_entity_patch_field X (k, v) (tip_user_entity_patch_field X (k', v') e) =
      tip_user_entity_patch_field X (k', v') (tip_user_entity_patch_field X (k, v) e)"
    by (intro tip_user_entity.equality) (auto simp: tip_user_entity_patch_fields tip_user_entity_patch_field_frame)
qed

lemma tip_user_entity_apply_patch_frame:
  "ent_id (tip_user_entity_apply_patch X kvs e) = ent_id e"
  "ent_metadata (tip_user_entity_apply_patch X kvs e) = ent_metadata e"
  unfolding tip_user_entity_apply_patch_def
  by (induction kvs arbitrary: e) (simp_all add: tip_user_entity_patch_field_frame)

section \<open>State changes\<close>

text \<open>The state crosses to the machine's own enum as text and comes back as text.\<close>

definition digest_transition_to ::
  "digest_machine_state \<Rightarrow> digest_entity \<Rightarrow> (state_machine_error + unit) \<times> digest_entity" where
  "digest_transition_to new_state e =
     (case digest_machine_state_from_str (show_digest_state (de_state e)) of
        Inl err \<Rightarrow> (Inl err, e)
      | Inr cur \<Rightarrow>
          (case digest_transition_to_state new_state (digest_from_state cur) of
             (Inl err, _) \<Rightarrow> (Inl err, e)
           | (Inr _, _) \<Rightarrow>
               (case digest_state_from_str (show_digest_machine_state new_state) of
                  Inl s \<Rightarrow> (Inl (InvalidState s), e)
                | Inr st \<Rightarrow> (Inr (), e\<lparr>de_state := st\<rparr>))))"

definition subscription_transition_to ::
  "subscription_machine_state \<Rightarrow> subscription_entity \<Rightarrow> (state_machine_error + unit) \<times> subscription_entity" where
  "subscription_transition_to new_state e =
     (case subscription_machine_state_from_str (show_subscription_state (se_state e)) of
        Inl err \<Rightarrow> (Inl err, e)
      | Inr cur \<Rightarrow>
          (case subscription_transition_to_state new_state (subscription_from_state cur) of
             (Inl err, _) \<Rightarrow> (Inl err, e)
           | (Inr _, _) \<Rightarrow>
               (case subscription_state_from_str (show_subscription_machine_state new_state) of
                  Inl s \<Rightarrow> (Inl (InvalidState s), e)
                | Inr st \<Rightarrow> (Inr (), e\<lparr>se_state := st\<rparr>))))"

fun digest_machine_of :: "digest_state \<Rightarrow> digest_machine_state" where
  "digest_machine_of Activated = StateActivated"
| "digest_machine_of Deactivated = StateDeactivated"

fun subscription_machine_of :: "subscription_state \<Rightarrow> subscription_machine_state" where
  "subscription_machine_of Subscribed = StateSubscribed"
| "subscription_machine_of Unsubscribed = StateUnsubscribed"

text \<open>The two enums share their texts, so crossing over is the obvious bijection.\<close>

lemma digest_state_crossing:
  "digest_machine_state_from_str (show_digest_state s) = Inr (digest_machine_of s)"
  "digest_state_from_str (show_digest_machine_state (digest_machine_of s)) = Inr s"
  using digest_machine_state_roundtrip [of "digest_machine_of s"] digest_state_roundtrip [of s]
  by (cases s; simp)+

lemma subscription_state_crossing:
  "subscription_machine_state_from_str (show_subscription_state s) = Inr (subscription_machine_of s)"
  "subscription_state_from_str (show_subscription_machine_state (subscription_machine_of s)) = Inr s"
  using subscription_machine_state_roundtrip [of "subscription_machine_of s"] subscription_state_roundtrip [of s]
  by (cases s; simp)+

lemma digest_to_state_always:
  "digest_transition_to_state t (digest_from_state s) = (Inr t, digest_from_state t)"
  by (cases s; cases t) (simp_all add: digest_transition_to_state_def digest_all_transitions_def
      digest_can_transition_def digest_from_state_def digest_do_transition_def)

lemma subscription_to_state_iff:
  "subscription_transition_to_state t (subscription_from_state s) =
     (if s = t then (Inl (TransitionNotAllowed (show_subscription_machine_state t)
        (show_subscription_machine_state s)), subscription_from_state s)
      else (Inr t, subscription_from_state t))"
  by (cases s; cases t) (simp_all add: subscription_transition_to_state_def subscription_all_transitions_def
      subscription_can_transition_def subscription_from_state_def subscription_do_transition_def)

lemma digest_transition_to_eq:
  "digest_transition_to (digest_machine_of s) e = (Inr (), e\<lparr>de_state := s\<rparr>)"
  by (simp add: digest_transition_to_def digest_state_crossing digest_to_state_always)

lemma subscription_machine_of_inj: "subscription_machine_of s = subscription_machine_of t \<longleftrightarrow> s = t"
  by (cases s; cases t) simp_all

lemma subscription_transition_to_eq:
  "subscription_transition_to (subscription_machine_of s) e =
     (if se_state e = s then (Inl (TransitionNotAllowed (show_subscription_state s) (show_subscription_state s)), e)
      else (Inr (), e\<lparr>se_state := s\<rparr>))"
proof -
  have "show_subscription_machine_state (subscription_machine_of s) = show_subscription_state s"
    by (cases s) simp_all
  then show ?thesis
    using subscription_state_crossing(2) [of s]
    by (auto simp: subscription_transition_to_def subscription_state_crossing
        subscription_to_state_iff subscription_machine_of_inj)
qed

end
