(* ===== verification/Module_Properties.thy ===== *)
theory Module_Properties
  imports Unsubscribe_Properties Entities
begin

text \<open>
  The properties of the composed module: the unique keys every operation keeps, the two subscribe
  verbs and the growth loop, KPI enablement against the composed registry, what the builder builds,
  and the row verbs as moves of the subscription machine.
\<close>

section \<open>Subscribing\<close>

lemma active_subscribe:
  assumes "sql_faults w = []" "case extra of None \<Rightarrow> True | Some m \<Rightarrow> not_deleted m"
  shows "active_pairs (snd (subscribe_user d u extra w)) = insert (d, u) (active_pairs w)"
proof -
  let ?m = "case extra of None \<Rightarrow> Map.empty | Some m \<Rightarrow> m"
  have meta: "not_deleted ?m" using assms(2) by (cases extra) simp_all
  have u: "unsubscribable d' u' (if sub_key r = (d, u) then resubscribe_row ?m r else r) \<longleftrightarrow>
      (if sub_key r = (d, u) then (d', u') = (d, u) else unsubscribable d' u' r)" for d' u' r
    using meta by (auto simp: unsubscribable_def resubscribe_row_def sub_key_def not_deleted_def map_add_def
        split: option.splits)
  show ?thesis
  proof (cases "(d, u) \<in> sub_key ` set (subscriptions w)")
    case True
    have "(d', u') \<in> active_pairs (snd (subscribe_user d u extra w)) \<longleftrightarrow> (d', u') \<in> insert (d, u) (active_pairs w)" for d' u'
    proof -
      have "(d', u') \<in> active_pairs (snd (subscribe_user d u extra w)) \<longleftrightarrow>
          (\<exists>r \<in> set (subscriptions w). if sub_key r = (d, u) then (d', u') = (d, u) else unsubscribable d' u' r)"
        using True assms(1)
        by (simp del: set_map add: active_pairs_iff subscribe_user_def sql_no_faults Let_def update_where_def bex_map u)
      also have "\<dots> \<longleftrightarrow> (d', u') = (d, u) \<or> (\<exists>r \<in> set (subscriptions w). unsubscribable d' u' r)"
        using True unsubscribable_key [of d' u'] by force
      finally show ?thesis by (simp add: active_pairs_iff)
    qed
    then show ?thesis by auto
  next
    case False
    with assms(1) meta have "(d', u') \<in> active_pairs (snd (subscribe_user d u extra w)) \<longleftrightarrow>
        (d', u') \<in> insert (d, u) (active_pairs w)" for d' u'
      by (auto simp: active_pairs_iff subscribe_user_def sql_no_faults Let_def unsubscribable_def)
    then show ?thesis by auto
  qed
qed

text \<open>
  Subscribing is a choice of the user, auto-subscribing a default. The explicit verb makes the
  pair active whatever its history, and says whether the row is new; the automatic one adds the pair
  only when no row of it exists, so an opt-out (or a tombstone) is never overridden.
\<close>

theorem subscribe_vs_auto_subscribe:
  assumes "sql_faults w = []" "case extra of None \<Rightarrow> True | Some m \<Rightarrow> not_deleted m"
  shows "(\<exists>w'. subscribe_user d u extra w = (Ok (find_sub d u w = None), w') \<and>
      active_pairs w' = insert (d, u) (active_pairs w)) \<and>
    (\<exists>w'. auto_subscribe_user d u meta w = (Ok (find_sub d u w = None), w') \<and>
      (if find_sub d u w = None then find_sub d u w' \<noteq> None \<and> take (length (subscriptions w)) (subscriptions w') = subscriptions w
       else w' = w))"
proof -
  have "subscribe_user d u extra w = (Ok (find_sub d u w = None), snd (subscribe_user d u extra w))"
    using subscribe_user_result [OF assms(1), of d u extra] by (metis prod.collapse)
  moreover have "find_sub d u (w\<lparr>subscriptions := subscriptions w @ [r]\<rparr>) \<noteq> None" if "sub_key r = (d, u)" for r
    unfolding find_sub_None_iff using that by simp
  ultimately show ?thesis
    using active_subscribe [OF assms] auto_subscribe_user_eq [OF assms(1), of d u meta]
    by (auto simp: sub_key_def)
qed

lemma subscribe_vs_auto_subscribe_witness:
  "\<exists>w'. subscribe_user 1 13 None demo_world = (Ok True, w') \<and>
     active_pairs w' = {(1, 11), (1, 12), (1, 13)}"
proof -
  have n: "find_sub 1 13 demo_world = None"
    by (simp add: find_sub_None_iff demo_world_def demo_subscription_def sub_key_def)
  show ?thesis
    using subscribe_vs_auto_subscribe [OF demo_no_faults(1), of None 1 13 Map.empty] n demo_active by auto
qed

section \<open>The growth loop\<close>

text \<open>
  C38: what a delivery of \<^verbatim>\<open>sapiens.user.created\<close> can do to the subscriptions, however its statements
  fail: nothing, or append one row, for the user the payload names and the module's default digest,
  and only when the port resolved that user as internal and no row of the pair existed.
\<close>

theorem growth_subscribes_internal_newcomers:
  "subscriptions (snd (handle_user_created X se h wall ev w)) = subscriptions w \<or>
   (\<exists>d u ctx. read_uuid X (payload_user (ev_payload ev)) = Some u \<and> gh_default_digest h = Some d \<and>
      resolve (slot_port (gh_port h)) u = Inr ctx \<and> rc_is_internal ctx \<and> find_sub d u w = None \<and>
      subscriptions (snd (handle_user_created X se h wall ev w)) =
        subscriptions w @ [new_subscription X wall ev d u])"
  using handle_user_created_subscriptions [of X se h wall ev w] unfolding find_sub_None_iff by blast

text \<open>
  Redelivery is harmless. If a delivery was acknowledged, delivering the event again (at any
  later instant, with the port unchanged) is acknowledged and leaves the subscriptions as the first
  delivery left them.
\<close>

theorem growth_redelivery:
  assumes "handle_user_created X se h wall ev w = (Acked, w1)" "sql_faults w = []"
  shows "\<exists>w2. handle_user_created X se h wall' ev w1 = (Acked, w2) \<and> subscriptions w2 = subscriptions w1"
proof -
  obtain u where u: "read_uuid X (payload_user (ev_payload ev)) = Some u"
    using assms(1) by (cases "read_uuid X (payload_user (ev_payload ev))") (auto simp: handle_user_created_def)
  show ?thesis
  proof (cases "gh_default_digest h")
    case None
    with u show ?thesis by (simp add: handle_user_created_def)
  next
    case (Some d)
    obtain ctx where ctx: "resolve (slot_port (gh_port h)) u = Inr ctx"
      using assms(1) u Some
      by (cases "resolve (slot_port (gh_port h)) u") (auto simp: handle_user_created_def split: if_splits)
    show ?thesis
    proof (cases "rc_is_internal ctx")
      case False
      with u Some ctx show ?thesis by (simp add: handle_user_created_def)
    next
      case True
      note new = handle_user_created_new [OF u Some ctx True]
      have w1: "w1 = snd (handle_user_created X se h wall ev w)" using assms(1) by simp
      have "sql_faults w1 = []" "(d, u) \<in> sub_key ` set (subscriptions w1)"
        using new [OF assms(2), of se wall] assms(2) w1
        by (auto simp: new_subscription_def sub_key_def)
      with new [of w1 se wall'] show ?thesis by simp
    qed
  qed
qed

definition demo_event :: envelope where
  "demo_event = \<lparr> ev_id = 99, ev_payload = JObj [(''user_id'', JStr (demo_uuid_show 11))] \<rparr>"

lemma demo_payload: "read_uuid demo_externals (payload_user (ev_payload demo_event)) = Some 11"
  using demo_uuid_roundtrip [of 11]
  by (simp add: demo_event_def payload_user_def read_uuid_def demo_externals_def)

definition demo_serde_error :: "json \<Rightarrow> string" where
  "demo_serde_error v = ''invalid type''"

lemma growth_redelivery_witness:
  "\<exists>w1 w2. handle_user_created demo_externals demo_serde_error (user_created_handler demo_module) 0 demo_event idle_world =
      (Acked, w1) \<and>
     handle_user_created demo_externals demo_serde_error (user_created_handler demo_module) 5 demo_event w1 = (Acked, w2) \<and>
     length (subscriptions w1) = 1 \<and> subscriptions w2 = subscriptions w1"
proof -
  have d: "gh_default_digest (user_created_handler demo_module) = Some 1"
    and p: "slot_port (gh_port (user_created_handler demo_module)) = demo_port"
    by (simp_all add: user_created_handler_def demo_module_def demo_slot_def slot_install_current)
  obtain ctx where ctx: "resolve demo_port 11 = Inr ctx" "rc_is_internal ctx"
    by (auto simp: demo_port_def sql_port_def sql_resolve_def demo_sapiens_def Let_def active_company_def
        active_membership_def)
  have "(1, 11) \<notin> sub_key ` set (subscriptions idle_world)" by (simp add: idle_world_def)
  with handle_user_created_new [OF demo_payload d, of ctx idle_world demo_serde_error 0] p ctx demo_no_faults(2)
  obtain w1 where run: "handle_user_created demo_externals demo_serde_error (user_created_handler demo_module) 0 demo_event idle_world =
      (Acked, w1)" "length (subscriptions w1) = 1" by (auto simp: idle_world_def)
  from growth_redelivery [OF run(1) demo_no_faults(2)] run show ?thesis by blast
qed

section \<open>KPI enablement\<close>

text \<open>
  The KPI switch of a digest. On a registered key with no tombstoned row, enabling adds the key to
  the enabled set, enabling again changes nothing, and disabling removes exactly it. An
  unregistered key is refused and nothing is written.
\<close>

theorem kpi_switch:
  assumes "sql_faults w = []" "\<forall>r \<in> set (digest_kpis w). kpi_key r = (i, k) \<longrightarrow> not_deleted (kp_metadata r)"
  shows "(if registered k
      then \<exists>w1 w2. enable_kpi registered i k w = (Ok (), w1) \<and>
        set (enabled_keys i w1) = insert k (set (enabled_keys i w)) \<and>
        enable_kpi registered i k w1 = (Ok (), w1) \<and>
        disable_kpi i k w1 = (Ok (), w2) \<and> set (enabled_keys i w2) = set (enabled_keys i w) - {k}
      else \<exists>why. enable_kpi registered i k w = (Err (Invalid why), w))"
proof (cases "registered k")
  case True
  let ?r = "\<lparr> kp_digest_id = i, kp_key = k, kp_metadata = Map.empty \<rparr>"
  let ?w1 = "w\<lparr>digest_kpis := snd (insert_or_ignore kpi_key ?r (digest_kpis w))\<rparr>"
  have key: "kpi_key ?r = (i, k)" by (simp add: kpi_key_def)
  have e1: "enable_kpi registered i k w = (Ok (), ?w1)"
    using True assms(1) by (simp add: enable_kpi_def sql_no_faults)
  have "snd (insert_or_ignore kpi_key ?r (digest_kpis ?w1)) = digest_kpis ?w1"
    using kpt.insert_has_key [of ?r "digest_kpis w"] by (auto simp: insert_or_ignore_def)
  then have e2: "enable_kpi registered i k ?w1 = (Ok (), ?w1)"
    using True assms(1) by (simp add: enable_kpi_def sql_no_faults)
  have s1: "set (enabled_keys i ?w1) = insert k (set (enabled_keys i w))"
  proof (cases "(i, k) \<in> kpi_key ` set (digest_kpis w)")
    case True
    then obtain r where r: "r \<in> set (digest_kpis w)" "kpi_key r = (i, k)" by auto
    with assms(2) have "k \<in> set (enabled_keys i w)" by (force simp: enabled_keys_def kpi_key_def)
    moreover have "digest_kpis ?w1 = digest_kpis w" using True key by (simp add: insert_or_ignore_def)
    ultimately show ?thesis by (auto simp: enabled_keys_def)
  next
    case False
    then have "digest_kpis ?w1 = digest_kpis w @ [?r]" using key by (simp add: insert_or_ignore_def)
    then show ?thesis by (auto simp: enabled_keys_def)
  qed
  let ?w2 = "?w1\<lparr>digest_kpis := filter (\<lambda>r. \<not> (kp_digest_id r = i \<and> kp_key r = k)) (digest_kpis ?w1)\<rparr>"
  have d: "disable_kpi i k ?w1 = (Ok (), ?w2)" using assms(1) by (simp add: disable_kpi_def sql_no_faults)
  have "set (enabled_keys i ?w2) = set (enabled_keys i ?w1) - {k}" by (auto simp: enabled_keys_def)
  with s1 have "set (enabled_keys i ?w2) = set (enabled_keys i w) - {k}" by blast
  with True e1 e2 s1 d show ?thesis by auto
next
  case False
  then show ?thesis by (simp add: enable_kpi_def throw_def)
qed

lemma kpi_switch_witness:
  "\<exists>w1 w2. module_enable_kpi demo_module 1 kpi_messages_sent demo_world = (Ok (), w1) \<and>
     set (enabled_keys 1 w1) = {kpi_messages_sent} \<and>
     disable_kpi 1 kpi_messages_sent w1 = (Ok (), w2) \<and> set (enabled_keys 1 w2) = {}"
proof -
  have n: "\<forall>r \<in> set (digest_kpis demo_world). kpi_key r = (1, kpi_messages_sent) \<longrightarrow> not_deleted (kp_metadata r)"
    and k: "set (enabled_keys 1 demo_world) = {}"
    by (simp_all add: demo_world_def idle_world_def enabled_keys_def)
  have "registry_get (kpi_registry_of demo_module) kpi_messages_sent \<noteq> None"
    by (simp add: kpi_registry_of_def demo_module_def registry_get_def)
  with kpi_switch [OF demo_no_faults(1) n, of "\<lambda>k. registry_get (kpi_registry_of demo_module) k \<noteq> None"] k
  show ?thesis unfolding module_enable_kpi_def by auto
qed

section \<open>What the builder builds\<close>

lemma registry_register_names:
  "registry_register d r = Registered r' \<Longrightarrow> set (map fst r') = insert (kd_name d) (set (map fst r))"
  by (auto simp: registry_register_def set_btree_insert simp del: set_map split: if_splits)

lemma register_all_names:
  "register_all ds r = Registered r' \<Longrightarrow> set (map fst r') = set (map fst r) \<union> kd_name ` set ds"
proof (induction ds r rule: register_all.induct)
  case (2 d ds r)
  then obtain r1 where "registry_register d r = Registered r1" "register_all ds r1 = Registered r'"
    by (auto split: registration.splits)
  with 2(1) [OF this] registry_register_names [of d r r1] show ?case by auto
qed simp

text \<open>The registry of a built module over any tenant of the slot.\<close>

lemma built_registry:
  assumes "build env b = Built m" "bl_db_pool b = Some pl"
  shows "composed_registry port (pl_messages pl) (bl_kpis b) = Registered (dm_registry_of m port)"
proof -
  let ?base = "\<lambda>port. [(kpi_messages_sent, messages_sent_kpi (pl_messages pl)), (kpi_connected_users, connected_users_kpi port)]"
  have c: "composed_registry port (pl_messages pl) (bl_kpis b) = register_all (bl_kpis b) (?base port)" for port
    by (simp add: composed_registry_def register_base_kpis_new)
  have names: "set (map fst (?base port)) = set (map fst (?base port'))" for port port' by simp
  obtain r where "register_all (bl_kpis b) (?base (slot_port (built_slot b))) = Registered r"
    using assms by (auto simp: build_def c split: registration.splits)
  then have "\<exists>r'. register_all (bl_kpis b) (?base port) = Registered r'"
    unfolding register_all_registers(1) names [of port "slot_port (built_slot b)"]
    using register_all_registers(1) by blast
  moreover have "dm_registry_of m port = (case composed_registry port (pl_messages pl) (bl_kpis b) of
      Registered r \<Rightarrow> r | _ \<Rightarrow> registry_new)"
    using assms by (auto simp: build_def split: registration.splits)
  ultimately show ?thesis unfolding c by auto
qed

lemma built_pool: "build env b = Built m \<Longrightarrow> \<exists>pl. bl_db_pool b = Some pl"
  by (auto simp: build_def split: option.splits)

text \<open>
  C20: a built module stays well typed under whatever its host does afterwards, in any order:
  registering KPIs (accepted, refused or panicking) and replacing the recipient port. Its registry
  is sorted with unique prefixed names, holds the base pair with connected users reading the current
  tenant, and every definition present at the build is still the one under its name; its mail seam
  keeps the contract; and calls of the port go to the tenant installed last.
\<close>

theorem module_stays_typed:
  assumes "build env b = Built m" "\<And>s. bl_mail_seam b = Some s \<Longrightarrow> mail_seam s"
    and "m' = fold host_step calls m" "eng = render_service m'"
  shows "registry_ok (en_registry eng) \<and> mail_seam (en_mail_seam eng) \<and>
    registry_get (en_registry eng) kpi_connected_users = Some (connected_users_kpi (slot_port (en_port eng))) \<and>
    (\<exists>pl. bl_db_pool b = Some pl \<and>
      registry_get (en_registry eng) kpi_messages_sent = Some (messages_sent_kpi (pl_messages pl))) \<and>
    (\<forall>k d. registry_get (dm_registry_of m (slot_port (en_port eng))) k = Some d \<longrightarrow>
      registry_get (en_registry eng) k = Some d) \<and>
    slot_port (dm_recipient_port (host_step (SetRecipientPort p) m')) = p"
proof -
  obtain pl where pl: "bl_db_pool b = Some pl" using built_pool [OF assms(1)] by blast
  have "wired (dm_registry_of m) (pl_messages pl) m"
    using composed_registry_keeps_base [OF built_registry [OF assms(1) pl]] by (simp add: wired_def Let_def)
  then have "wired (dm_registry_of m) (pl_messages pl) m'" unfolding assms(3) by (rule host_steps_wired)
  moreover have "mail_seam (dm_mail_seam m')"
    using built_mail_seam [OF assms(1,2)] by (simp add: assms(3) host_steps_seam)
  ultimately show ?thesis
    using pl by (simp add: assms(4) wired_def Let_def render_service_def kpi_registry_of_def
        set_recipient_port_def slot_install_current)
qed

text \<open>A builder with only a pool: everything else takes its default.\<close>

definition bare_pool :: pool where
  "bare_pool = \<lparr> pl_messages = Inr [], pl_mail = \<lparr> message_post = (\<lambda>_. Inr 5), enqueue = (\<lambda>_. Inr 6) \<rparr> \<rparr>"

definition bare_builder :: builder where
  "bare_builder = with_token_secret [] (with_database bare_pool builder_new)"

lemma bare_builds: "\<exists>m. build env bare_builder = Built m"
  by (simp add: build_def bare_builder_def with_token_secret_def with_database_def builder_new_def
      composed_registry_def register_base_kpis_new)

lemma module_stays_typed_witness:
  "\<exists>m eng. build None bare_builder = Built m \<and>
     eng = render_service (fold host_step [SetRecipientPort demo_port,
       RegisterKpi \<lparr> kd_name = ''kpi_a'', kd_label = ''A'', kd_fence = SharedData, kd_computer = (\<lambda>_. Inr kpi_zero) \<rparr>] m) \<and>
     registry_ok (en_registry eng) \<and>
     registry_get (en_registry eng) kpi_connected_users = Some (connected_users_kpi (slot_port (en_port eng)))"
proof -
  obtain m where m: "build None bare_builder = Built m" using bare_builds by blast
  have s: "mail_seam s" if "bl_mail_seam bare_builder = Some s" for s
    using that by (simp add: bare_builder_def with_token_secret_def with_database_def builder_new_def)
  from module_stays_typed [OF m s refl refl] m show ?thesis by blast
qed

text \<open>
  A built module enables exactly its registered KPIs: its enable verb refuses a key as invalid,
  writing nothing, if and only if the key is neither one of the two base KPIs nor the name of a
  definition given to the builder.
\<close>

theorem enable_whitelist_is_registry:
  assumes "build env b = Built m"
  shows "(\<exists>why. module_enable_kpi m i k w = (Err (Invalid why), w)) \<longleftrightarrow>
    k \<notin> {kpi_messages_sent, kpi_connected_users} \<union> kd_name ` set (bl_kpis b)"
proof -
  obtain pl where pl: "bl_db_pool b = Some pl" using built_pool [OF assms] by blast
  have "register_all (bl_kpis b) [(kpi_messages_sent, messages_sent_kpi (pl_messages pl)),
      (kpi_connected_users, connected_users_kpi (slot_port (dm_recipient_port m)))] = Registered (kpi_registry_of m)"
    using built_registry [OF assms pl, of "slot_port (dm_recipient_port m)"]
    by (simp add: composed_registry_def register_base_kpis_new kpi_registry_of_def)
  from register_all_names [OF this]
  have "registry_get (kpi_registry_of m) k = None \<longleftrightarrow>
      k \<notin> {kpi_messages_sent, kpi_connected_users} \<union> kd_name ` set (bl_kpis b)"
    by (auto simp: registry_get_def map_of_eq_None_iff)
  moreover have "(\<exists>why. enable_kpi g i k w = (Err (Invalid why), w)) \<longleftrightarrow> \<not> g k" for g
    by (cases "g k") (auto simp: enable_kpi_def throw_def dest: sql_Err_Db)
  ultimately show ?thesis by (simp add: module_enable_kpi_def)
qed

lemma enable_whitelist_is_registry_witness:
  "\<exists>m. build None bare_builder = Built m \<and>
     (\<exists>why. module_enable_kpi m 1 ''kpi_other'' demo_world = (Err (Invalid why), demo_world))"
proof -
  obtain m where m: "build None bare_builder = Built m" using bare_builds by blast
  have "''kpi_other'' \<notin> {kpi_messages_sent, kpi_connected_users} \<union> kd_name ` set (bl_kpis bare_builder)"
    by (simp add: kpi_messages_sent_def kpi_connected_users_def bare_builder_def with_token_secret_def
        with_database_def builder_new_def)
  with enable_whitelist_is_registry [OF m] m show ?thesis by blast
qed

text \<open>
  A module that mails links and honours none: every link it is asked for within the calendar is
  minted, every mail it renders carries one, and no token is ever accepted, so that no request to the
  acting leg changes anything.
\<close>

definition dead_links :: "digest_module \<Rightarrow> bool" where
  "dead_links m \<longleftrightarrow>
     (\<forall>X wall d u. if plus_time (cal X) wall (token_ttl_days * day_nanos) = None
        then unsubscribe_url X (render_service m) wall d u = Panic
        else \<exists>tok. unsubscribe_url X (render_service m) wall d u =
          Ok (trim_end_matches (CHR ''/'') (dm_public_base_url m) @ ''/digest/unsubscribe?t='' @ tok)) \<and>
     (\<forall>X wall dg r now w plan w'. render X (render_service m) wall dg r now w = (Ok plan, w') \<longrightarrow>
        (\<exists>tok. map_of (rp_headers plan) ''List-Unsubscribe'' =
          Some (''<'' @ trim_end_matches (CHR ''/'') (dm_public_base_url m) @ ''/digest/unsubscribe?t='' @ tok @ ''>''))) \<and>
     (\<exists>svc. unsubscribe_service m = Some svc \<and>
        (\<forall>X s now inst bk. fst (check_token X svc s now inst bk) = RefusedToken)) \<and>
     (\<forall>X wall inst params form bk w. snd (snd (unsubscribe_post X m wall inst params form bk w)) = w)"

lemma empty_secret_dead:
  assumes "dm_unsubscribe m = Some (with_secret [])" "trim (dm_public_base_url m) \<noteq> []"
  shows "dead_links m"
  unfolding dead_links_def
proof (intro conjI allI impI)
  fix X wall d u
  show "if plus_time (cal X) wall (token_ttl_days * day_nanos) = None
        then unsubscribe_url X (render_service m) wall d u = Panic
        else \<exists>tok. unsubscribe_url X (render_service m) wall d u =
          Ok (trim_end_matches (CHR ''/'') (dm_public_base_url m) @ ''/digest/unsubscribe?t='' @ tok)"
    using assms by (auto simp: unsubscribe_url_def render_service_def mint_link_token_def mint_def)
next
  fix X wall dg r now w plan w'
  assume "render X (render_service m) wall dg r now w = (Ok plan, w')"
  then obtain url where "unsubscribe_url X (render_service m) wall (dr_id dg) (rr_user_id r) = Ok url"
    "rp_headers plan = mail_headers url" by (rule render_Ok) simp
  moreover from unsubscribe_url_Ok [OF this(1)] obtain tok where
    "url = trim_end_matches (CHR ''/'') (dm_public_base_url m) @ ''/digest/unsubscribe?t='' @ tok"
    by (auto simp: render_service_def)
  ultimately show "\<exists>tok. map_of (rp_headers plan) ''List-Unsubscribe'' =
      Some (''<'' @ trim_end_matches (CHR ''/'') (dm_public_base_url m) @ ''/digest/unsubscribe?t='' @ tok @ ''>'')"
    by (simp add: mail_headers_def)
next
  show "\<exists>svc. unsubscribe_service m = Some svc \<and>
      (\<forall>X s now inst bk. fst (check_token X svc s now inst bk) = RefusedToken)"
    using assms(1)
    by (auto simp: unsubscribe_service_def check_token_def verify_def with_secret_def split: option.split)
next
  fix X wall inst params form bk w
  show "snd (snd (unsubscribe_post X m wall inst params form bk w)) = w"
    by (cases rule: post_cases [of X m wall inst params form bk w])
      (use assms(1) in \<open>auto simp: unsubscribe_service_def with_secret_def\<close>)
qed

text \<open>
  C39: an empty token secret builds, and what it builds is useless. Take any configuration that
  builds and has a public base URL. Setting its secret to the empty one builds too, and so does
  leaving the secret to an environment variable that is set and empty, which \<^verbatim>\<open>from_env\<close> refuses; and
  both modules put a link in every mail and refuse every link.
\<close>

theorem empty_secret_refuses_every_link:
  assumes "build env0 b = Built m0" "trim (dm_public_base_url m0) \<noteq> []"
  shows "service_from_env (Some []) = Inl SecretNotConfigured \<and>
    (\<exists>m. build env (with_token_secret [] b) = Built m \<and> dead_links m) \<and>
    (\<exists>m. build (Some []) (b\<lparr>bl_token_secret := None\<rparr>) = Built m \<and> dead_links m)"
proof -
  let ?m = "m0\<lparr>dm_unsubscribe := Some (with_secret [])\<rparr>"
  have "build env (with_token_secret [] b) = Built ?m" "build (Some []) (b\<lparr>bl_token_secret := None\<rparr>) = Built ?m"
    using assms(1)
    by (auto simp: build_def with_token_secret_def built_secret_def built_slot_def string_bytes_def
        split: option.splits registration.splits)
  moreover have "dead_links ?m" by (rule empty_secret_dead) (use assms(2) in simp_all)
  moreover have "trim [] = []" by code_simp
  ultimately show ?thesis by (simp add: service_from_env_def)
qed

lemma empty_secret_refuses_every_link_witness:
  "\<exists>m url. build None bare_builder = Built m \<and> unsubscribe_url demo_externals (render_service m) demo_now 1 11 = Ok url \<and>
     (\<forall>tok. snd (snd (unsubscribe_post demo_externals m demo_now 0 \<lparr>tp_t = Some tok, tp_confirm = None\<rparr>
        \<lparr>tp_t = None, tp_confirm = None\<rparr> book_new demo_world)) = demo_world)"
proof -
  obtain m0 where m0: "build None bare_builder = Built m0" using bare_builds by blast
  have "dm_public_base_url m0 = ''http://localhost:8080''"
    using m0 by (auto simp: build_def bare_builder_def with_token_secret_def with_database_def builder_new_def
        split: registration.splits)
  moreover have "trim ''http://localhost:8080'' \<noteq> []" by code_simp
  ultimately obtain m where m: "build None (with_token_secret [] bare_builder) = Built m" "dead_links m"
    using empty_secret_refuses_every_link [OF m0, of None] by auto
  have same: "with_token_secret [] bare_builder = bare_builder" by (simp add: bare_builder_def with_token_secret_def)
  have "plus_time (cal demo_externals) demo_now (token_ttl_days * day_nanos) \<noteq> None" by code_simp
  with m(2) obtain url where "unsubscribe_url demo_externals (render_service m) demo_now 1 11 = Ok url"
    unfolding dead_links_def by meson
  moreover have "snd (snd (unsubscribe_post demo_externals m demo_now 0 \<lparr>tp_t = Some tok, tp_confirm = None\<rparr>
        \<lparr>tp_t = None, tp_confirm = None\<rparr> book_new demo_world)) = demo_world" for tok
    using m(2) unfolding dead_links_def by blast
  ultimately show ?thesis using m(1) unfolding same by blast
qed

section \<open>The keys of the tables\<close>

lemma post_keeps_keys:
  assumes "world_ok w"
  shows "world_ok (snd (snd (unsubscribe_post X m wall inst params form bk w)))"
proof (cases rule: post_cases [of X m wall inst params form bk w])
  case (applied svc t)
  then show ?thesis using apply_unsubscribe_ok assms by (simp add: preserves_def)
qed (use assms in simp)

text \<open>
  Every operation that writes keeps the unique keys of all four keyed tables, whatever
  statements fail: the verbs, the unsubscribe pair, the growth loop's insert, a send, a manual send
  and a POST; creating a digest does so for a fresh id.
\<close>

theorem operations_keep_keys:
  assumes "mail_seam (en_mail_seam eng)" "world_ok w" "new_id \<notin> dg_id ` set (digests w)"
  shows "world_ok (snd (create_digest cl new_id nm p today w)) \<and> world_ok (snd (set_periodicity cl i v today w)) \<and>
    world_ok (snd (set_state i on w)) \<and> world_ok (snd (enable_kpi g i k w)) \<and> world_ok (snd (disable_kpi i k w)) \<and>
    world_ok (snd (subscribe_user i u extra w)) \<and> world_ok (snd (auto_subscribe_user i u meta w)) \<and>
    world_ok (snd (stamp_subscription_metadata i u meta w)) \<and> world_ok (snd (apply_unsubscribe wall i u w)) \<and>
    world_ok (snd (resubscribe i u w)) \<and> world_ok (snd (send_to_recipient X eng wall d r now w)) \<and>
    world_ok (snd (send_now X eng clock i now w)) \<and>
    world_ok (snd (snd (unsubscribe_post X m wall inst params form bk w)))"
  using create_digest_ok [OF assms(2,3)] set_periodicity_ok set_state_ok enable_kpi_ok disable_kpi_ok subscribe_user_ok
    auto_subscribe_user_ok stamp_ok apply_unsubscribe_ok resubscribe_ok
    send_to_recipient_preserves [OF assms(1) world_ok_stable] send_now_preserves [OF assms(1) world_ok_stable]
    post_keeps_keys [OF assms(2)] assms(2)
  by (simp add: preserves_def)

lemma operations_keep_keys_witness:
  "world_ok (snd (create_digest gregorian 7 ''New'' Weekly 20000 demo_world)) \<and>
   world_ok (snd (send_now demo_externals demo_engine demo_clock 1 demo_now demo_world))"
proof -
  have "7 \<notin> dg_id ` set (digests demo_world)" by (simp add: demo_world_def idle_world_def demo_digest_def)
  from operations_keep_keys [OF demo_seam demo_world_ok this, where cl = gregorian and nm = "''New''" and p = Weekly
      and today = 20000 and X = demo_externals and clock = demo_clock and i = 1 and now = demo_now]
  show ?thesis by simp
qed

section \<open>The subscription rows and their machine\<close>

lemma find_map_if:
  assumes "\<And>x. key (f x) = key x"
  shows "find (\<lambda>r. key r = k) (map (\<lambda>x. if p x then f x else x) rows) =
    map_option (\<lambda>x. if p x then f x else x) (find (\<lambda>r. key r = k) rows)"
  by (induction rows) (auto simp: assms)

lemma count_matching:
  assumes "unique_key key rows" "find (\<lambda>r. key r = k) rows = Some r" "\<And>x. p x \<Longrightarrow> key x = k"
  shows "length (filter p rows) = (if p r then 1 else 0)"
proof -
  have r: "r \<in> set rows" "key r = k" using assms(2) by (auto simp: find_Some_iff)
  have only: "x = r" if "x \<in> set rows" "p x" for x
    using keyed_table.key_inj [OF assms(1) that(1) r(1)] assms(3) [OF that(2)] r(2) by simp
  show ?thesis
  proof (cases "p r")
    case True
    then have "filter p rows \<noteq> []" using r(1) by (auto simp: filter_empty_conv)
    moreover have "length (filter p rows) \<le> 1" by (rule keyed_table.at_most_one [OF assms(1,3)])
    ultimately show ?thesis using True by (cases "filter p rows") auto
  next
    case False
    then show ?thesis using only by (auto simp: filter_empty_conv)
  qed
qed

text \<open>
  C30: the two row verbs refine the subscription machine. On a live row, and when no statement fails,
  they report whether the
  machine allows the transition from the row's state, and leave the row in the state the machine
  moves to: unsubscribing an unsubscribed row, or resubscribing a subscribed one, is refused
  without effect on its state.
\<close>

theorem row_verbs_follow_machine:
  assumes "world_ok w" "sql_faults w = []" "find_sub d u w = Some r" "not_deleted (su_metadata r)"
  shows "let m = subscription_from_state (subscription_machine_of (su_state r));
      row_state = (\<lambda>w. map_option (\<lambda>r. subscription_machine_of (su_state r)) (find_sub d u w)) in
    fst (apply_unsubscribe wall d u w) = Ok (subscription_can_transition m Unsubscribe) \<and>
    row_state (snd (apply_unsubscribe wall d u w)) =
      Some (subscription_current_state (snd (subscription_do_transition Unsubscribe m))) \<and>
    fst (resubscribe d u w) = Ok (subscription_can_transition m Resubscribe) \<and>
    row_state (snd (resubscribe d u w)) =
      Some (subscription_current_state (snd (subscription_do_transition Resubscribe m)))"
proof -
  let ?gone = "\<lambda>r. su_digest_id r = d \<and> su_user_id r = u \<and> su_state r = Unsubscribed \<and> not_deleted (su_metadata r)"
  let ?off = "\<lambda>r. r\<lparr>su_state := Unsubscribed, su_unsubscribed_at := Some wall\<rparr>"
  let ?on = "\<lambda>r. r\<lparr>su_state := Subscribed, su_unsubscribed_at := None\<rparr>"
  have uk: "unique_key sub_key (subscriptions w)" using assms(1) by (simp add: world_ok_def)
  have row: "find (\<lambda>r. sub_key r = (d, u)) (subscriptions w) = Some r" using assms(3) by (simp add: find_sub_def)
  then have key: "su_digest_id r = d" "su_user_id r = u" by (auto simp: find_Some_iff sub_key_def)
  have n1: "length (filter (unsubscribable d u) (subscriptions w)) = (if unsubscribable d u r then 1 else 0)"
    by (rule count_matching [OF uk row]) (rule unsubscribable_key)
  have n2: "length (filter ?gone (subscriptions w)) = (if ?gone r then 1 else 0)"
    by (rule count_matching [OF uk row]) (simp add: sub_key_def)
  have f: "find_sub d u (w\<lparr>subscriptions := map (\<lambda>x. if unsubscribable d u x then ?off x else x) (subscriptions w)\<rparr>) =
      Some (if unsubscribable d u r then ?off r else r)"
    "find_sub d u (w\<lparr>subscriptions := map (\<lambda>x. if ?gone x then ?on x else x) (subscriptions w)\<rparr>) =
      Some (if ?gone r then ?on r else r)"
    using find_map_if [of sub_key ?off "(d, u)" "unsubscribable d u" "subscriptions w"]
      find_map_if [of sub_key ?on "(d, u)" ?gone "subscriptions w"] row
    by (simp_all add: find_sub_def)
  have audit: "find_sub d u (write_audit ev w) = find_sub d u w" for ev w by (simp add: find_sub_def)
  have off: "unsubscribable d u r \<longleftrightarrow> su_state r = Subscribed" "?gone r \<longleftrightarrow> su_state r = Unsubscribed"
    using key assms(4) by (auto simp: unsubscribable_def)
  have a: "apply_unsubscribe wall d u w = (Ok (su_state r = Subscribed), snd (apply_unsubscribe wall d u w))"
    "find_sub d u (snd (apply_unsubscribe wall d u w)) = Some (if unsubscribable d u r then ?off r else r)"
    using n1 f(1) assms(2) off(1)
    by (auto simp: apply_unsubscribe_def and_then_def sql_no_faults update_where_def audit)
  have b: "resubscribe d u w = (Ok (su_state r = Unsubscribed), snd (resubscribe d u w))"
    "find_sub d u (snd (resubscribe d u w)) = Some (if ?gone r then ?on r else r)"
    using n2 f(2) assms(2) off(2)
    by (auto simp: resubscribe_def and_then_def return_def sql_no_faults update_where_def)
  show ?thesis
    using arg_cong [OF a(1), of fst] arg_cong [OF b(1), of fst] a(2) b(2) off
    by (cases "su_state r") (simp_all add: Let_def subscription_can_transition_def subscription_from_state_def
        subscription_do_transition_def)
qed

lemma row_verbs_follow_machine_witness:
  "fst (apply_unsubscribe 0 1 11 demo_world) = Ok True \<and> fst (resubscribe 1 11 demo_world) = Ok False"
proof -
  have "find_sub 1 11 demo_world = Some (demo_subscription 11)" "not_deleted (su_metadata (demo_subscription 11))"
    "su_state (demo_subscription 11) = Subscribed"
    by (simp_all add: find_sub_def demo_world_def demo_subscription_def sub_key_def)
  from row_verbs_follow_machine [OF demo_world_ok demo_no_faults(1) this(1,2), of 0] this(3)
  show ?thesis by (simp add: Let_def subscription_can_transition_def subscription_from_state_def)
qed

section \<open>The recipient port\<close>

text \<open>
  What the SQL adapter resolves. A resolved context is about the user asked for, who exists and
  is not tombstoned; they are internal exactly when they hold an active membership, and the company
  is that of the earliest one they hold.
\<close>

theorem sql_context_is_earliest_company:
  assumes "resolve (sql_port sh s) u = Inr c"
  shows "rc_user_id c = u \<and>
    (\<exists>x \<in> set (users s). us_id x = u \<and> not_deleted (us_metadata x) \<and> rc_email c = us_email x \<and>
       rc_last_login c = us_last_login x) \<and>
    rc_is_internal c = (\<exists>m \<in> set (organization_users s). active_membership u m) \<and>
    (case rc_company_id c of
       None \<Rightarrow> \<not> rc_is_internal c
     | Some k \<Rightarrow> \<exists>m \<in> set (organization_users s). active_membership u m \<and> ou_org_unit_id m = k \<and>
         (\<forall>m' \<in> set (organization_users s). active_membership u m' \<longrightarrow> ou_joined_at m \<le> ou_joined_at m'))"
proof -
  obtain x where x: "find (\<lambda>x. us_id x = u \<and> not_deleted (us_metadata x)) (users s) = Some x"
    and c: "c = \<lparr> rc_user_id = u, rc_email = us_email x, rc_company_id = active_company s u,
      rc_is_internal = (active_company s u \<noteq> None), rc_last_login = us_last_login x \<rparr>"
    using assms by (auto simp: sql_port_def sql_resolve_def Let_def split: option.splits)
  have "x \<in> set (users s)" "us_id x = u" "not_deleted (us_metadata x)"
    using x by (auto simp: find_Some_iff in_set_conv_nth)
  moreover have "(active_company s u \<noteq> None) = (\<exists>m \<in> set (organization_users s). active_membership u m)"
    using active_company_None_iff [of s u] by simp
  ultimately show ?thesis
    using c active_company_earliest [of s u] by (auto split: option.split)
qed

lemma sql_context_is_earliest_company_witness:
  "\<exists>c. resolve (sql_port demo_uuid_show demo_sapiens) 11 = Inr c \<and> rc_is_internal c"
proof -
  obtain c where c: "resolve (sql_port demo_uuid_show demo_sapiens) 11 = Inr c"
    using demo_resolve by (auto simp: demo_port_def)
  have "\<exists>m \<in> set (organization_users demo_sapiens). active_membership 11 m"
    by (simp add: demo_sapiens_def active_membership_def)
  with sql_context_is_earliest_company [OF c] c show ?thesis by blast
qed

end
