(* ===== verification/Dtos.thy ===== *)
theory Dtos
  imports Entities F64
begin

text \<open>
  The wire types of the generated API (\<^verbatim>\<open>presentation/dto/\<close>): per entity the create, update, patch,
  response, list and summary DTO with their conversions, and the shared pagination and envelope
  types of \<^verbatim>\<open>dto/mod.rs\<close>. A patch of a nullable column is a double option (absent, \<^verbatim>\<open>null\<close>, value).
  The list constructors compute the page count through \<^verbatim>\<open>f64\<close>; the locale \<open>paged\<close> holds what all
  five promise and shows when the count is exact.
\<close>

section \<open>Service errors\<close>

text \<open>
  \<^verbatim>\<open>backbone_core::ServiceError\<close> and \<^verbatim>\<open>Violation\<close>, as the crate matches and builds them: the \<^verbatim>\<open>From\<close>
  implementations of the handlers match every variant without a wildcard.
\<close>

record violation =
  v_field :: string
  v_code :: string
  v_message :: string
  v_params :: "(string \<times> json) list"

definition violation_new :: "string \<Rightarrow> string \<Rightarrow> string \<Rightarrow> violation" where
  "violation_new field code message =
     \<lparr> v_field = field, v_code = code, v_message = message, v_params = [] \<rparr>"

definition with_param :: "string \<Rightarrow> json \<Rightarrow> violation \<Rightarrow> violation" where
  "with_param k x v = v\<lparr>v_params := v_params v @ [(k, x)]\<rparr>"

datatype service_error =
  SE_NotFound
| SE_Validation string
| SE_AlreadyExists string
| SE_Repository string
| SE_Internal string
| SE_Violations "violation list"

section \<open>Pagination and envelope\<close>

record pagination_params =
  pp_page :: "32 word"
  pp_per_page :: "32 word"
  pp_sort_by :: "string option"
  pp_sort_order :: "string option"

definition default_page :: "32 word" where
  "default_page = 1"

definition default_per_page :: "32 word" where
  "default_per_page = 20"

text \<open>Reading the query: an absent number takes its serde default.\<close>

definition read_pagination ::
  "32 word option \<Rightarrow> 32 word option \<Rightarrow> string option \<Rightarrow> string option \<Rightarrow> pagination_params" where
  "read_pagination page per_page sort_by sort_order =
     \<lparr> pp_page = (case page of None \<Rightarrow> default_page | Some n \<Rightarrow> n),
       pp_per_page = (case per_page of None \<Rightarrow> default_per_page | Some n \<Rightarrow> n),
       pp_sort_by = sort_by, pp_sort_order = sort_order \<rparr>"

text \<open>The derived \<^verbatim>\<open>Default\<close> does not use the serde defaults.\<close>

definition pagination_default :: pagination_params where
  "pagination_default =
     \<lparr> pp_page = 0, pp_per_page = 0, pp_sort_by = None, pp_sort_order = None \<rparr>"

lemma pagination_default_differs: "read_pagination None None None None \<noteq> pagination_default"
  by (simp add: read_pagination_def pagination_default_def default_page_def)

text \<open>A present PATCH field, \<^verbatim>\<open>null\<close> included.\<close>

definition double_option :: "(json \<Rightarrow> 'a option) \<Rightarrow> json \<Rightarrow> 'a option option option" where
  "double_option f v = map_option Some (read_option f v)"

lemma double_option_null: "double_option f JNull = Some (Some None)"
  by (simp add: double_option_def read_option_def)

record api_error =
  ae_code :: string
  ae_message :: string
  ae_details :: "json option"

record 'a api_response =
  ar_success :: bool
  ar_data :: "'a option"
  ar_error :: "api_error option"

definition api_ok :: "'a \<Rightarrow> 'a api_response" where
  "api_ok x = \<lparr> ar_success = True, ar_data = Some x, ar_error = None \<rparr>"

definition api_err :: "string \<Rightarrow> string \<Rightarrow> 'a api_response" where
  "api_err code message =
     \<lparr> ar_success = False, ar_data = None,
       ar_error = Some \<lparr> ae_code = code, ae_message = message, ae_details = None \<rparr> \<rparr>"

section \<open>The page count\<close>

definition total_pages_of :: "64 word \<Rightarrow> 32 word \<Rightarrow> 32 word" where
  "total_pages_of tot per_page =
     (if 0 < per_page
      then f64_as_u32 (f64_ceil (f64_div (f64_of_int (uint tot)) (f64_of_int (uint per_page))))
      else 0)"

text \<open>The number of pages that hold \<open>n\<close> items, in integer arithmetic.\<close>

definition pages_needed :: "nat \<Rightarrow> nat \<Rightarrow> nat" where
  "pages_needed n k = (if k = 0 then 0 else (n + k - 1) div k)"

lemma pages_needed_iff:
  assumes "0 < k"
  shows "m < pages_needed n k \<longleftrightarrow> m * k < n"
proof -
  have "m < pages_needed n k \<longleftrightarrow> Suc m \<le> (n + k - 1) div k"
    using assms by (simp add: pages_needed_def Suc_le_eq)
  also have "\<dots> \<longleftrightarrow> Suc m * k \<le> n + k - 1"
    using assms by (simp only: less_eq_div_iff_mult_less_eq)
  also have "\<dots> \<longleftrightarrow> m * k < n" using assms by auto
  finally show ?thesis .
qed

lemma pages_needed_ceiling:
  assumes "0 < k"
  shows "\<lceil>of_nat n / of_nat k :: rat\<rceil> = int (pages_needed n k)"
proof (rule ceiling_unique)
  let ?p = "pages_needed n k"
  have "n \<le> ?p * k" using pages_needed_iff [OF assms, of ?p n] by simp
  then have "(of_nat n :: rat) \<le> of_nat (?p * k)" by (simp only: of_nat_le_iff)
  then show "(of_nat n / of_nat k :: rat) \<le> of_int (int ?p)" using assms by (simp add: divide_le_eq)
  show "of_int (int ?p) - 1 < (of_nat n / of_nat k :: rat)"
  proof (cases "?p = 0")
    case True
    have "(- 1 :: rat) < 0" by simp
    also have "0 \<le> (of_nat n / of_nat k :: rat)" by simp
    finally show ?thesis using True by simp
  next
    case False
    then have "(?p - 1) * k < n" using pages_needed_iff [OF assms, of "?p - 1" n] by simp
    then have "(of_nat ((?p - 1) * k) :: rat) < of_nat n" by (simp only: of_nat_less_iff)
    with False assms show ?thesis by (simp add: less_divide_eq of_nat_diff)
  qed
qed

lemma total_pages_exact:
  assumes "unat tot < 2 ^ 53" and "0 < per_page"
  shows "unat (total_pages_of tot per_page) = min (2 ^ 32 - 1) (pages_needed (unat tot) (unat per_page))"
proof -
  let ?n = "unat tot" and ?k = "unat per_page"
  have k: "0 < ?k" using assms(2) by (simp add: word_less_nat_alt)
  have "?k < 2 ^ 32" using unsigned_less [of per_page, where 'a = nat] by simp
  then have "f64_of_int (uint per_page) = F64 False (of_nat ?k)"
    by (subst uint_nat, intro f64_of_int_nat) simp
  moreover have "f64_of_int (uint tot) = F64 False (of_nat ?n)"
    using assms(1) by (subst uint_nat, intro f64_of_int_nat) simp
  ultimately have "f64_div (f64_of_int (uint tot)) (f64_of_int (uint per_page))
      = F64 False (round53 (of_nat ?n / of_nat ?k))"
    by (simp only: f64_div_def f64.sel not_False_eq_True simp_thms)
  then have "total_pages_of tot per_page
      = word_of_int (min (2 ^ 32 - 1) \<lceil>round53 (of_nat ?n / of_nat ?k)\<rceil>)"
    using assms(2) by (simp add: total_pages_of_def f64_ceil_def f64_as_u32_def)
  also have "\<dots> = word_of_int (min (2 ^ 32 - 1) (int (pages_needed ?n ?k)))"
    by (simp only: ceiling_round53_quotient [OF assms(1) k] pages_needed_ceiling [OF k])
  also have "\<dots> = word_of_nat (min (2 ^ 32 - 1) (pages_needed ?n ?k))"
    by (simp add: min_def)
  finally show ?thesis by (simp add: unat_of_nat min_def)
qed

text \<open>What the list DTOs promise, whatever their items.\<close>

locale paged =
  fixes make :: "'i list \<Rightarrow> 64 word \<Rightarrow> 32 word \<Rightarrow> 32 word \<Rightarrow> 'l"
    and tot :: "'l \<Rightarrow> 64 word"
    and page :: "'l \<Rightarrow> 32 word"
    and per_page :: "'l \<Rightarrow> 32 word"
    and total_pages :: "'l \<Rightarrow> 32 word"
    and has_next :: "'l \<Rightarrow> bool"
    and has_prev :: "'l \<Rightarrow> bool"
  assumes kept_total: "tot (make xs n p k) = n"
    and kept_page: "page (make xs n p k) = p"
    and kept_per_page: "per_page (make xs n p k) = k"
    and counted: "total_pages (make xs n p k) = total_pages_of n k"
    and next_def: "has_next (make xs n p k) = (p < total_pages_of n k)"
    and prev_def: "has_prev (make xs n p k) = (1 < p)"
begin

lemma next_iff_items_follow:
  assumes "unat n < 2 ^ 53" and "0 < k" and "pages_needed (unat n) (unat k) < 2 ^ 32"
  shows "has_next (make xs n p k) \<longleftrightarrow> unat p * unat k < unat n"
proof -
  have "unat (total_pages_of n k) = pages_needed (unat n) (unat k)"
    using total_pages_exact [OF assms(1,2)] assms(3) by simp
  moreover have "0 < unat k" using assms(2) by (simp add: word_less_nat_alt)
  ultimately show ?thesis by (simp add: next_def word_less_nat_alt pages_needed_iff)
qed

lemma zero_page_size: "\<not> has_next (make xs n p 0)" "total_pages (make xs n p 0) = 0"
  by (simp_all add: next_def counted total_pages_of_def)

end

section \<open>Digests\<close>

record create_digest_dto =
  cd_name :: string
  cd_periodicity :: periodicity
  cd_next_run_date :: "date option"

definition default_create_digest_periodicity :: periodicity where
  "default_create_digest_periodicity = Daily"

record update_digest_dto =
  ud_name :: string
  ud_periodicity :: periodicity
  ud_next_run_date :: "date option"
  ud_state :: digest_state

record patch_digest_dto =
  pd_name :: "string option"
  pd_periodicity :: "periodicity option"
  pd_next_run_date :: "date option option"
  pd_state :: "digest_state option"

definition patch_digest_default :: patch_digest_dto where
  "patch_digest_default = \<lparr> pd_name = None, pd_periodicity = None, pd_next_run_date = None, pd_state = None \<rparr>"

definition patch_digest_has_changes :: "patch_digest_dto \<Rightarrow> bool" where
  "patch_digest_has_changes x \<longleftrightarrow>
     pd_name x \<noteq> None \<or> pd_periodicity x \<noteq> None \<or> pd_next_run_date x \<noteq> None \<or> pd_state x \<noteq> None"

record digest_response_dto =
  rd_id :: uuid
  rd_name :: string
  rd_periodicity :: periodicity
  rd_next_run_date :: "date option"
  rd_state :: digest_state
  rd_metadata :: audit_metadata

record digest_list_dto =
  ld_items :: "digest_response_dto list"
  ld_total :: "64 word"
  ld_page :: "32 word"
  ld_per_page :: "32 word"
  ld_total_pages :: "32 word"
  ld_has_next :: bool
  ld_has_prev :: bool

definition digest_list :: "digest_response_dto list \<Rightarrow> 64 word \<Rightarrow> 32 word \<Rightarrow> 32 word \<Rightarrow> digest_list_dto" where
  "digest_list items tot page per_page =
     (let total_pages = total_pages_of tot per_page in
      \<lparr> ld_items = items, ld_total = tot, ld_page = page, ld_per_page = per_page,
        ld_total_pages = total_pages, ld_has_next = page < total_pages, ld_has_prev = 1 < page \<rparr>)"

record digest_summary_dto =
  sd_id :: uuid
  sd_name :: string
  sd_periodicity :: periodicity
  sd_next_run_date :: "date option"
  sd_created_at :: "datetime option"

definition digest_response :: "digest_entity \<Rightarrow> digest_response_dto" where
  "digest_response e =
     \<lparr> rd_id = ent_id e, rd_name = de_name e, rd_periodicity = de_periodicity e, rd_next_run_date = de_next_run_date e, rd_state = de_state e,
       rd_metadata = ent_metadata e \<rparr>"

definition digest_response_of_ref :: "digest_entity \<Rightarrow> digest_response_dto" where
  "digest_response_of_ref e =
     \<lparr> rd_id = ent_id e, rd_name = de_name e, rd_periodicity = de_periodicity e, rd_next_run_date = de_next_run_date e, rd_state = de_state e,
       rd_metadata = ent_metadata e \<rparr>"

definition digest_summary :: "digest_entity \<Rightarrow> digest_summary_dto" where
  "digest_summary e =
     \<lparr> sd_id = ent_id e, sd_name = de_name e, sd_periodicity = de_periodicity e, sd_next_run_date = de_next_run_date e,
       sd_created_at = am_created_at (ent_metadata e) \<rparr>"

definition digest_of_create :: "uuid \<Rightarrow> create_digest_dto \<Rightarrow> digest_entity" where
  "digest_of_create new_id d =
     \<lparr> ent_id = new_id, ent_metadata = audit_default,
       de_name = cd_name d, de_periodicity = cd_periodicity d, de_next_run_date = cd_next_run_date d, de_state = Activated \<rparr>"

definition digest_from_create_dto :: "uuid \<Rightarrow> create_digest_dto \<Rightarrow> service_error + digest_entity" where
  "digest_from_create_dto new_id d = Inr (digest_of_create new_id d)"

definition digest_apply_update :: "digest_entity \<Rightarrow> update_digest_dto \<Rightarrow> service_error + digest_entity" where
  "digest_apply_update e d =
     Inr (e\<lparr>de_name := ud_name d, de_periodicity := ud_periodicity d, de_next_run_date := ud_next_run_date d, de_state := ud_state d\<rparr>)"

lemma digest_response_ref [simp]: "digest_response_of_ref = digest_response"
  by (rule ext) (simp add: digest_response_of_ref_def digest_response_def)

lemma patch_digest_has_changes_iff: "patch_digest_has_changes x \<longleftrightarrow> x \<noteq> patch_digest_default"
  by (cases x) (simp add: patch_digest_has_changes_def patch_digest_default_def)

interpretation digest_pages: paged digest_list ld_total ld_page ld_per_page ld_total_pages ld_has_next ld_has_prev
  by unfold_locales (simp_all add: digest_list_def Let_def)

section \<open>Subscriptions\<close>

record create_subscription_dto =
  cs_digest_id :: uuid
  cs_user_id :: uuid
  cs_unsubscribed_at :: "datetime option"

record update_subscription_dto =
  us_digest_id :: uuid
  us_user_id :: uuid
  us_state :: subscription_state
  us_unsubscribed_at :: "datetime option"

record patch_subscription_dto =
  ps_digest_id :: "uuid option"
  ps_user_id :: "uuid option"
  ps_state :: "subscription_state option"
  ps_unsubscribed_at :: "datetime option option"

definition patch_subscription_default :: patch_subscription_dto where
  "patch_subscription_default = \<lparr> ps_digest_id = None, ps_user_id = None, ps_state = None, ps_unsubscribed_at = None \<rparr>"

definition patch_subscription_has_changes :: "patch_subscription_dto \<Rightarrow> bool" where
  "patch_subscription_has_changes x \<longleftrightarrow>
     ps_digest_id x \<noteq> None \<or> ps_user_id x \<noteq> None \<or> ps_state x \<noteq> None \<or> ps_unsubscribed_at x \<noteq> None"

record subscription_response_dto =
  rs_id :: uuid
  rs_digest_id :: uuid
  rs_user_id :: uuid
  rs_state :: subscription_state
  rs_unsubscribed_at :: "datetime option"
  rs_metadata :: audit_metadata

record subscription_list_dto =
  ls_items :: "subscription_response_dto list"
  ls_total :: "64 word"
  ls_page :: "32 word"
  ls_per_page :: "32 word"
  ls_total_pages :: "32 word"
  ls_has_next :: bool
  ls_has_prev :: bool

definition subscription_list :: "subscription_response_dto list \<Rightarrow> 64 word \<Rightarrow> 32 word \<Rightarrow> 32 word \<Rightarrow> subscription_list_dto" where
  "subscription_list items tot page per_page =
     (let total_pages = total_pages_of tot per_page in
      \<lparr> ls_items = items, ls_total = tot, ls_page = page, ls_per_page = per_page,
        ls_total_pages = total_pages, ls_has_next = page < total_pages, ls_has_prev = 1 < page \<rparr>)"

record subscription_summary_dto =
  ss_id :: uuid
  ss_digest_id :: uuid
  ss_user_id :: uuid
  ss_state :: subscription_state
  ss_created_at :: "datetime option"

definition subscription_response :: "subscription_entity \<Rightarrow> subscription_response_dto" where
  "subscription_response e =
     \<lparr> rs_id = ent_id e, rs_digest_id = se_digest_id e, rs_user_id = se_user_id e, rs_state = se_state e, rs_unsubscribed_at = se_unsubscribed_at e,
       rs_metadata = ent_metadata e \<rparr>"

definition subscription_response_of_ref :: "subscription_entity \<Rightarrow> subscription_response_dto" where
  "subscription_response_of_ref e =
     \<lparr> rs_id = ent_id e, rs_digest_id = se_digest_id e, rs_user_id = se_user_id e, rs_state = se_state e, rs_unsubscribed_at = se_unsubscribed_at e,
       rs_metadata = ent_metadata e \<rparr>"

definition subscription_summary :: "subscription_entity \<Rightarrow> subscription_summary_dto" where
  "subscription_summary e =
     \<lparr> ss_id = ent_id e, ss_digest_id = se_digest_id e, ss_user_id = se_user_id e, ss_state = se_state e,
       ss_created_at = am_created_at (ent_metadata e) \<rparr>"

definition subscription_of_create :: "uuid \<Rightarrow> create_subscription_dto \<Rightarrow> subscription_entity" where
  "subscription_of_create new_id d =
     \<lparr> ent_id = new_id, ent_metadata = audit_default,
       se_digest_id = cs_digest_id d, se_user_id = cs_user_id d, se_state = Subscribed, se_unsubscribed_at = cs_unsubscribed_at d \<rparr>"

definition subscription_from_create_dto :: "uuid \<Rightarrow> create_subscription_dto \<Rightarrow> service_error + subscription_entity" where
  "subscription_from_create_dto new_id d = Inr (subscription_of_create new_id d)"

definition subscription_apply_update :: "subscription_entity \<Rightarrow> update_subscription_dto \<Rightarrow> service_error + subscription_entity" where
  "subscription_apply_update e d =
     Inr (e\<lparr>se_digest_id := us_digest_id d, se_user_id := us_user_id d, se_state := us_state d, se_unsubscribed_at := us_unsubscribed_at d\<rparr>)"

lemma subscription_response_ref [simp]: "subscription_response_of_ref = subscription_response"
  by (rule ext) (simp add: subscription_response_of_ref_def subscription_response_def)

lemma patch_subscription_has_changes_iff: "patch_subscription_has_changes x \<longleftrightarrow> x \<noteq> patch_subscription_default"
  by (cases x) (simp add: patch_subscription_has_changes_def patch_subscription_default_def)

interpretation subscription_pages: paged subscription_list ls_total ls_page ls_per_page ls_total_pages ls_has_next ls_has_prev
  by unfold_locales (simp_all add: subscription_list_def Let_def)

section \<open>Enabled KPIs\<close>

record create_kpi_dto =
  ck_digest_id :: uuid
  ck_kpi_key :: string

record update_kpi_dto =
  uk_digest_id :: uuid
  uk_kpi_key :: string

record patch_kpi_dto =
  pk_digest_id :: "uuid option"
  pk_kpi_key :: "string option"

definition patch_kpi_default :: patch_kpi_dto where
  "patch_kpi_default = \<lparr> pk_digest_id = None, pk_kpi_key = None \<rparr>"

definition patch_kpi_has_changes :: "patch_kpi_dto \<Rightarrow> bool" where
  "patch_kpi_has_changes x \<longleftrightarrow>
     pk_digest_id x \<noteq> None \<or> pk_kpi_key x \<noteq> None"

record kpi_response_dto =
  rk_id :: uuid
  rk_digest_id :: uuid
  rk_kpi_key :: string
  rk_metadata :: audit_metadata

record kpi_list_dto =
  lk_items :: "kpi_response_dto list"
  lk_total :: "64 word"
  lk_page :: "32 word"
  lk_per_page :: "32 word"
  lk_total_pages :: "32 word"
  lk_has_next :: bool
  lk_has_prev :: bool

definition kpi_list :: "kpi_response_dto list \<Rightarrow> 64 word \<Rightarrow> 32 word \<Rightarrow> 32 word \<Rightarrow> kpi_list_dto" where
  "kpi_list items tot page per_page =
     (let total_pages = total_pages_of tot per_page in
      \<lparr> lk_items = items, lk_total = tot, lk_page = page, lk_per_page = per_page,
        lk_total_pages = total_pages, lk_has_next = page < total_pages, lk_has_prev = 1 < page \<rparr>)"

record kpi_summary_dto =
  sk_id :: uuid
  sk_digest_id :: uuid
  sk_kpi_key :: string
  sk_created_at :: "datetime option"

definition kpi_response :: "kpi_entity \<Rightarrow> kpi_response_dto" where
  "kpi_response e =
     \<lparr> rk_id = ent_id e, rk_digest_id = ke_digest_id e, rk_kpi_key = ke_kpi_key e,
       rk_metadata = ent_metadata e \<rparr>"

definition kpi_response_of_ref :: "kpi_entity \<Rightarrow> kpi_response_dto" where
  "kpi_response_of_ref e =
     \<lparr> rk_id = ent_id e, rk_digest_id = ke_digest_id e, rk_kpi_key = ke_kpi_key e,
       rk_metadata = ent_metadata e \<rparr>"

definition kpi_summary :: "kpi_entity \<Rightarrow> kpi_summary_dto" where
  "kpi_summary e =
     \<lparr> sk_id = ent_id e, sk_digest_id = ke_digest_id e, sk_kpi_key = ke_kpi_key e,
       sk_created_at = am_created_at (ent_metadata e) \<rparr>"

definition kpi_of_create :: "uuid \<Rightarrow> create_kpi_dto \<Rightarrow> kpi_entity" where
  "kpi_of_create new_id d =
     \<lparr> ent_id = new_id, ent_metadata = audit_default,
       ke_digest_id = ck_digest_id d, ke_kpi_key = ck_kpi_key d \<rparr>"

definition kpi_from_create_dto :: "uuid \<Rightarrow> create_kpi_dto \<Rightarrow> service_error + kpi_entity" where
  "kpi_from_create_dto new_id d = Inr (kpi_of_create new_id d)"

definition kpi_apply_update :: "kpi_entity \<Rightarrow> update_kpi_dto \<Rightarrow> service_error + kpi_entity" where
  "kpi_apply_update e d =
     Inr (e\<lparr>ke_digest_id := uk_digest_id d, ke_kpi_key := uk_kpi_key d\<rparr>)"

lemma kpi_response_ref [simp]: "kpi_response_of_ref = kpi_response"
  by (rule ext) (simp add: kpi_response_of_ref_def kpi_response_def)

lemma patch_kpi_has_changes_iff: "patch_kpi_has_changes x \<longleftrightarrow> x \<noteq> patch_kpi_default"
  by (cases x) (simp add: patch_kpi_has_changes_def patch_kpi_default_def)

interpretation kpi_pages: paged kpi_list lk_total lk_page lk_per_page lk_total_pages lk_has_next lk_has_prev
  by unfold_locales (simp_all add: kpi_list_def Let_def)

section \<open>Tips\<close>

record create_tip_dto =
  ct_sequence :: int
  ct_name :: string
  ct_tip_description :: string
  ct_group_key :: "string option"

definition default_create_tip_sequence :: int where
  "default_create_tip_sequence = 1"

record update_tip_dto =
  ut_sequence :: int
  ut_name :: string
  ut_tip_description :: string
  ut_group_key :: "string option"

record patch_tip_dto =
  pt_sequence :: "int option"
  pt_name :: "string option"
  pt_tip_description :: "string option"
  pt_group_key :: "string option option"

definition patch_tip_default :: patch_tip_dto where
  "patch_tip_default = \<lparr> pt_sequence = None, pt_name = None, pt_tip_description = None, pt_group_key = None \<rparr>"

definition patch_tip_has_changes :: "patch_tip_dto \<Rightarrow> bool" where
  "patch_tip_has_changes x \<longleftrightarrow>
     pt_sequence x \<noteq> None \<or> pt_name x \<noteq> None \<or> pt_tip_description x \<noteq> None \<or> pt_group_key x \<noteq> None"

record tip_response_dto =
  rt_id :: uuid
  rt_sequence :: int
  rt_name :: string
  rt_tip_description :: string
  rt_group_key :: "string option"
  rt_metadata :: audit_metadata

record tip_list_dto =
  lt_items :: "tip_response_dto list"
  lt_total :: "64 word"
  lt_page :: "32 word"
  lt_per_page :: "32 word"
  lt_total_pages :: "32 word"
  lt_has_next :: bool
  lt_has_prev :: bool

definition tip_list :: "tip_response_dto list \<Rightarrow> 64 word \<Rightarrow> 32 word \<Rightarrow> 32 word \<Rightarrow> tip_list_dto" where
  "tip_list items tot page per_page =
     (let total_pages = total_pages_of tot per_page in
      \<lparr> lt_items = items, lt_total = tot, lt_page = page, lt_per_page = per_page,
        lt_total_pages = total_pages, lt_has_next = page < total_pages, lt_has_prev = 1 < page \<rparr>)"

record tip_summary_dto =
  st_id :: uuid
  st_sequence :: int
  st_name :: string
  st_tip_description :: string
  st_created_at :: "datetime option"

definition tip_response :: "tip_entity \<Rightarrow> tip_response_dto" where
  "tip_response e =
     \<lparr> rt_id = ent_id e, rt_sequence = te_sequence e, rt_name = te_name e, rt_tip_description = te_tip_description e, rt_group_key = te_group_key e,
       rt_metadata = ent_metadata e \<rparr>"

definition tip_response_of_ref :: "tip_entity \<Rightarrow> tip_response_dto" where
  "tip_response_of_ref e =
     \<lparr> rt_id = ent_id e, rt_sequence = te_sequence e, rt_name = te_name e, rt_tip_description = te_tip_description e, rt_group_key = te_group_key e,
       rt_metadata = ent_metadata e \<rparr>"

definition tip_summary :: "tip_entity \<Rightarrow> tip_summary_dto" where
  "tip_summary e =
     \<lparr> st_id = ent_id e, st_sequence = te_sequence e, st_name = te_name e, st_tip_description = te_tip_description e,
       st_created_at = am_created_at (ent_metadata e) \<rparr>"

definition tip_of_create :: "uuid \<Rightarrow> create_tip_dto \<Rightarrow> tip_entity" where
  "tip_of_create new_id d =
     \<lparr> ent_id = new_id, ent_metadata = audit_default,
       te_sequence = ct_sequence d, te_name = ct_name d, te_tip_description = ct_tip_description d, te_group_key = ct_group_key d \<rparr>"

definition tip_from_create_dto :: "uuid \<Rightarrow> create_tip_dto \<Rightarrow> service_error + tip_entity" where
  "tip_from_create_dto new_id d = Inr (tip_of_create new_id d)"

definition tip_apply_update :: "tip_entity \<Rightarrow> update_tip_dto \<Rightarrow> service_error + tip_entity" where
  "tip_apply_update e d =
     Inr (e\<lparr>te_sequence := ut_sequence d, te_name := ut_name d, te_tip_description := ut_tip_description d, te_group_key := ut_group_key d\<rparr>)"

lemma tip_response_ref [simp]: "tip_response_of_ref = tip_response"
  by (rule ext) (simp add: tip_response_of_ref_def tip_response_def)

lemma patch_tip_has_changes_iff: "patch_tip_has_changes x \<longleftrightarrow> x \<noteq> patch_tip_default"
  by (cases x) (simp add: patch_tip_has_changes_def patch_tip_default_def)

interpretation tip_pages: paged tip_list lt_total lt_page lt_per_page lt_total_pages lt_has_next lt_has_prev
  by unfold_locales (simp_all add: tip_list_def Let_def)

section \<open>Consumed tips\<close>

record create_tip_user_dto =
  cu_tip_id :: uuid
  cu_user_id :: uuid

record update_tip_user_dto =
  uu_tip_id :: uuid
  uu_user_id :: uuid

record patch_tip_user_dto =
  pu_tip_id :: "uuid option"
  pu_user_id :: "uuid option"

definition patch_tip_user_default :: patch_tip_user_dto where
  "patch_tip_user_default = \<lparr> pu_tip_id = None, pu_user_id = None \<rparr>"

definition patch_tip_user_has_changes :: "patch_tip_user_dto \<Rightarrow> bool" where
  "patch_tip_user_has_changes x \<longleftrightarrow>
     pu_tip_id x \<noteq> None \<or> pu_user_id x \<noteq> None"

record tip_user_response_dto =
  ru_id :: uuid
  ru_tip_id :: uuid
  ru_user_id :: uuid
  ru_metadata :: audit_metadata

record tip_user_list_dto =
  lu_items :: "tip_user_response_dto list"
  lu_total :: "64 word"
  lu_page :: "32 word"
  lu_per_page :: "32 word"
  lu_total_pages :: "32 word"
  lu_has_next :: bool
  lu_has_prev :: bool

definition tip_user_list :: "tip_user_response_dto list \<Rightarrow> 64 word \<Rightarrow> 32 word \<Rightarrow> 32 word \<Rightarrow> tip_user_list_dto" where
  "tip_user_list items tot page per_page =
     (let total_pages = total_pages_of tot per_page in
      \<lparr> lu_items = items, lu_total = tot, lu_page = page, lu_per_page = per_page,
        lu_total_pages = total_pages, lu_has_next = page < total_pages, lu_has_prev = 1 < page \<rparr>)"

record tip_user_summary_dto =
  su_id :: uuid
  su_tip_id :: uuid
  su_user_id :: uuid
  su_created_at :: "datetime option"

definition tip_user_response :: "tip_user_entity \<Rightarrow> tip_user_response_dto" where
  "tip_user_response e =
     \<lparr> ru_id = ent_id e, ru_tip_id = ue_tip_id e, ru_user_id = ue_user_id e,
       ru_metadata = ent_metadata e \<rparr>"

definition tip_user_response_of_ref :: "tip_user_entity \<Rightarrow> tip_user_response_dto" where
  "tip_user_response_of_ref e =
     \<lparr> ru_id = ent_id e, ru_tip_id = ue_tip_id e, ru_user_id = ue_user_id e,
       ru_metadata = ent_metadata e \<rparr>"

definition tip_user_summary :: "tip_user_entity \<Rightarrow> tip_user_summary_dto" where
  "tip_user_summary e =
     \<lparr> su_id = ent_id e, su_tip_id = ue_tip_id e, su_user_id = ue_user_id e,
       su_created_at = am_created_at (ent_metadata e) \<rparr>"

definition tip_user_of_create :: "uuid \<Rightarrow> create_tip_user_dto \<Rightarrow> tip_user_entity" where
  "tip_user_of_create new_id d =
     \<lparr> ent_id = new_id, ent_metadata = audit_default,
       ue_tip_id = cu_tip_id d, ue_user_id = cu_user_id d \<rparr>"

definition tip_user_from_create_dto :: "uuid \<Rightarrow> create_tip_user_dto \<Rightarrow> service_error + tip_user_entity" where
  "tip_user_from_create_dto new_id d = Inr (tip_user_of_create new_id d)"

definition tip_user_apply_update :: "tip_user_entity \<Rightarrow> update_tip_user_dto \<Rightarrow> service_error + tip_user_entity" where
  "tip_user_apply_update e d =
     Inr (e\<lparr>ue_tip_id := uu_tip_id d, ue_user_id := uu_user_id d\<rparr>)"

lemma tip_user_response_ref [simp]: "tip_user_response_of_ref = tip_user_response"
  by (rule ext) (simp add: tip_user_response_of_ref_def tip_user_response_def)

lemma patch_tip_user_has_changes_iff: "patch_tip_user_has_changes x \<longleftrightarrow> x \<noteq> patch_tip_user_default"
  by (cases x) (simp add: patch_tip_user_has_changes_def patch_tip_user_default_def)

interpretation tip_user_pages: paged tip_user_list lu_total lu_page lu_per_page lu_total_pages lu_has_next lu_has_prev
  by unfold_locales (simp_all add: tip_user_list_def Let_def)

end
