(* ===== verification/Row_Rules.thy ===== *)
theory Row_Rules
  imports Dtos
begin

text \<open>
  The row rules of the generated services (\<^verbatim>\<open>application/service/digest_*_service.rs\<close>): what a create
  or an update through the generic CRUD service has to satisfy. The rule vocabulary
  (\<^verbatim>\<open>backbone_core::row_rule\<close>) and the serialization of a row are parameters; \<open>rules_ok\<close> and
  \<open>shows_field\<close> state what is documented of them. \<open>plain_rules\<close> is a concrete vocabulary.
\<close>

text \<open>The rules tell creates and updates from every other kind of write.\<close>

datatype write_kind = WriteCreate | WriteUpdate | WriteOther

record 'e write_ctx =
  wc_kind :: write_kind
  wc_before :: "'e option"
  wc_after :: "'e option"
  wc_transition :: "string option"

record guard_outcome =
  go_refuse :: "violation list"
  go_shadow :: "violation list"

definition guard_allow :: guard_outcome where
  "guard_allow = \<lparr> go_refuse = [], go_shadow = [] \<rparr>"

record ('v, 'f) row_rule =
  rr_changed :: "json option \<Rightarrow> json \<Rightarrow> string list \<Rightarrow> bool"
  rr_field :: "json \<Rightarrow> string \<Rightarrow> 'v"
  rr_is_not_null :: "'v \<Rightarrow> 'f"
  rr_is_empty :: "'v \<Rightarrow> 'f"
  rr_trim :: "'v \<Rightarrow> 'v"
  rr_length :: "'v \<Rightarrow> 'v"
  rr_num :: "f64 \<Rightarrow> 'v"
  rr_le :: "'v \<Rightarrow> 'v \<Rightarrow> 'f"
  rr_and :: "'f \<Rightarrow> 'f \<Rightarrow> 'f"
  rr_not :: "'f \<Rightarrow> 'f"
  rr_holds :: "'f \<Rightarrow> bool"

text \<open>The value of a field in a serialized row.\<close>

definition json_field :: "json \<Rightarrow> string \<Rightarrow> json option" where
  "json_field row f = (case row of JObj kvs \<Rightarrow> map_of kvs f | _ \<Rightarrow> None)"

text \<open>A field has changed when the row before has another value there; without a row before, it has.\<close>

definition rules_ok :: "('v, 'f) row_rule \<Rightarrow> bool" where
  "rules_ok r \<longleftrightarrow>
     (\<forall>old row f. rr_changed r (Some old) row [f] \<longleftrightarrow> json_field old f \<noteq> json_field row f)"

definition shows_field :: "('e \<Rightarrow> json option) \<Rightarrow> string \<Rightarrow> ('e \<Rightarrow> json) \<Rightarrow> bool" where
  "shows_field to_value f v \<longleftrightarrow> (\<forall>e. \<exists>row. to_value e = Some row \<and> json_field row f = Some (v e))"

text \<open>A concrete vocabulary, on values of JSON fields.\<close>

definition plain_rules :: "(json option, bool) row_rule" where
  "plain_rules =
     \<lparr> rr_changed = (\<lambda>old row fs. case old of
           None \<Rightarrow> True | Some ob \<Rightarrow> list_ex (\<lambda>f. json_field ob f \<noteq> json_field row f) fs),
       rr_field = json_field,
       rr_is_not_null = (\<lambda>v. v \<noteq> None \<and> v \<noteq> Some JNull),
       rr_is_empty = (\<lambda>v. v = Some (JStr [])),
       rr_trim = map_option (\<lambda>v. case v of JStr s \<Rightarrow> JStr (trim s) | _ \<Rightarrow> v),
       rr_length = map_option (\<lambda>v. case v of JStr s \<Rightarrow> JNum (int (length s)) | _ \<Rightarrow> v),
       rr_num = (\<lambda>x. Some (JFloat (f64_val x))),
       rr_le = (\<lambda>a b. case (a, b) of (Some (JNum x), Some (JFloat y)) \<Rightarrow> of_int x \<le> y | _ \<Rightarrow> True),
       rr_and = (\<and>), rr_not = Not, rr_holds = (\<lambda>b. b) \<rparr>"

lemma plain_rules_ok: "rules_ok plain_rules"
  by (simp add: rules_ok_def plain_rules_def)

text \<open>The shape of every rule: it is checked on a create, and on an update that changes its field.\<close>

definition rule_applies :: "('v, 'f) row_rule \<Rightarrow> write_kind \<Rightarrow> json option \<Rightarrow> json \<Rightarrow> string \<Rightarrow> bool" where
  "rule_applies r k old row f \<longleftrightarrow> k = WriteCreate \<or> (k = WriteUpdate \<and> rr_changed r old row [f])"

definition required_rule ::
  "('v, 'f) row_rule \<Rightarrow> write_kind \<Rightarrow> json option \<Rightarrow> json \<Rightarrow> string \<Rightarrow> violation list" where
  "required_rule r k old row f =
     (if rule_applies r k old row f \<and>
         \<not> rr_holds r (rr_and r (rr_is_not_null r (rr_field r row f))
             (rr_not r (rr_is_empty r (rr_trim r (rr_field r row f)))))
      then [violation_new f ''required'' (f @ '' is required'')] else [])"

definition max_length_rule ::
  "('v, 'f) row_rule \<Rightarrow> write_kind \<Rightarrow> json option \<Rightarrow> json \<Rightarrow> string \<Rightarrow> nat \<Rightarrow> violation list" where
  "max_length_rule r k old row f n =
     (if rule_applies r k old row f \<and>
         \<not> rr_holds r (rr_le r (rr_length r (rr_field r row f)) (rr_num r (f64_of_int (int n))))
      then [with_param ''max'' (JNum (int n))
              (violation_new f ''max_length'' (f @ '' must be at most '' @ show_nat n @ '' characters''))]
      else [])"

definition state_verbs_only ::
  "('v, 'f) row_rule \<Rightarrow> write_kind \<Rightarrow> string option \<Rightarrow> json option \<Rightarrow> json \<Rightarrow> violation list" where
  "state_verbs_only r k transition old row =
     (if k = WriteUpdate \<and> transition = None \<and> rr_changed r old row [''state'']
      then [violation_new ''state'' ''state_field_verbs_only'' ''the state field moves only through its verbs'']
      else [])"

lemma rule_codes:
  "v \<in> set (required_rule r k old row f) \<Longrightarrow> v_field v = f \<and> v_code v = ''required''"
  "v \<in> set (max_length_rule r k old row f n) \<Longrightarrow> v_field v = f \<and> v_code v = ''max_length''"
  "v \<in> set (state_verbs_only r k t old row) \<Longrightarrow> v_field v = ''state'' \<and> v_code v = ''state_field_verbs_only''"
  by (auto simp: required_rule_def max_length_rule_def state_verbs_only_def violation_new_def with_param_def
      split: if_splits)

lemma rules_silent_on_verb [simp]:
  "state_verbs_only r k (Some t) old row = []" "state_verbs_only r WriteCreate tr old row = []"
  by (simp_all add: state_verbs_only_def)

definition digest_row_rules ::
  "('v, 'f) row_rule \<Rightarrow> (digest_entity \<Rightarrow> json option) \<Rightarrow> digest_entity write_ctx \<Rightarrow> guard_outcome" where
  "digest_row_rules r to_value c =
     (case (if wc_kind c = WriteCreate \<or> wc_kind c = WriteUpdate then wc_after c else None) of
        None \<Rightarrow> guard_allow
      | Some after \<Rightarrow>
          (case to_value after of
             None \<Rightarrow> guard_allow
           | Some row \<Rightarrow>
               let old = (case wc_before c of None \<Rightarrow> None | Some b \<Rightarrow> to_value b) in
               \<lparr> go_refuse =
                   state_verbs_only r (wc_kind c) (wc_transition c) old row @
                   required_rule r (wc_kind c) old row ''name'' @
                   max_length_rule r (wc_kind c) old row ''name'' 255,
                 go_shadow = [] \<rparr>))"

definition subscription_row_rules ::
  "('v, 'f) row_rule \<Rightarrow> (subscription_entity \<Rightarrow> json option) \<Rightarrow> subscription_entity write_ctx \<Rightarrow> guard_outcome" where
  "subscription_row_rules r to_value c =
     (case (if wc_kind c = WriteCreate \<or> wc_kind c = WriteUpdate then wc_after c else None) of
        None \<Rightarrow> guard_allow
      | Some after \<Rightarrow>
          (case to_value after of
             None \<Rightarrow> guard_allow
           | Some row \<Rightarrow>
               let old = (case wc_before c of None \<Rightarrow> None | Some b \<Rightarrow> to_value b) in
               \<lparr> go_refuse =
                   state_verbs_only r (wc_kind c) (wc_transition c) old row,
                 go_shadow = [] \<rparr>))"

definition kpi_row_rules ::
  "('v, 'f) row_rule \<Rightarrow> (kpi_entity \<Rightarrow> json option) \<Rightarrow> kpi_entity write_ctx \<Rightarrow> guard_outcome" where
  "kpi_row_rules r to_value c =
     (case (if wc_kind c = WriteCreate \<or> wc_kind c = WriteUpdate then wc_after c else None) of
        None \<Rightarrow> guard_allow
      | Some after \<Rightarrow>
          (case to_value after of
             None \<Rightarrow> guard_allow
           | Some row \<Rightarrow>
               let old = (case wc_before c of None \<Rightarrow> None | Some b \<Rightarrow> to_value b) in
               \<lparr> go_refuse =
                   required_rule r (wc_kind c) old row ''kpi_key'' @
                   max_length_rule r (wc_kind c) old row ''kpi_key'' 120,
                 go_shadow = [] \<rparr>))"

definition tip_row_rules ::
  "('v, 'f) row_rule \<Rightarrow> (tip_entity \<Rightarrow> json option) \<Rightarrow> tip_entity write_ctx \<Rightarrow> guard_outcome" where
  "tip_row_rules r to_value c =
     (case (if wc_kind c = WriteCreate \<or> wc_kind c = WriteUpdate then wc_after c else None) of
        None \<Rightarrow> guard_allow
      | Some after \<Rightarrow>
          (case to_value after of
             None \<Rightarrow> guard_allow
           | Some row \<Rightarrow>
               let old = (case wc_before c of None \<Rightarrow> None | Some b \<Rightarrow> to_value b) in
               \<lparr> go_refuse =
                   required_rule r (wc_kind c) old row ''name'' @
                   max_length_rule r (wc_kind c) old row ''name'' 255 @
                   max_length_rule r (wc_kind c) old row ''group_key'' 120,
                 go_shadow = [] \<rparr>))"

text \<open>
  What the two entities with a state machine promise: an update that is not a verb is refused for
  its state exactly when it changes it, and a verb is never refused for it.
\<close>

definition refuses_state :: "guard_outcome \<Rightarrow> bool" where
  "refuses_state g \<longleftrightarrow> (\<exists>v \<in> set (go_refuse g). v_code v = ''state_field_verbs_only'')"

locale verb_guarded =
  fixes r :: "('v, 'f) row_rule"
    and to_value :: "'e \<Rightarrow> json option"
    and guard :: "'e write_ctx \<Rightarrow> guard_outcome"
    and state_text :: "'e \<Rightarrow> string"
  assumes plain_update:
      "rules_ok r \<Longrightarrow> shows_field to_value ''state'' (\<lambda>e. JStr (state_text e)) \<Longrightarrow>
       refuses_state (guard \<lparr> wc_kind = WriteUpdate, wc_before = Some b, wc_after = Some a, wc_transition = None \<rparr>)
         \<longleftrightarrow> state_text a \<noteq> state_text b"
    and verb_update: "\<not> refuses_state (guard \<lparr> wc_kind = k, wc_before = bf, wc_after = af, wc_transition = Some t \<rparr>)"
    and create: "\<not> refuses_state (guard \<lparr> wc_kind = WriteCreate, wc_before = bf, wc_after = af, wc_transition = tr \<rparr>)"
begin

lemma unrefused_keeps_state:
  assumes "rules_ok r" "shows_field to_value ''state'' (\<lambda>e. JStr (state_text e))"
    and "go_refuse (guard \<lparr> wc_kind = WriteUpdate, wc_before = Some b, wc_after = Some a, wc_transition = None \<rparr>) = []"
  shows "state_text a = state_text b"
  using plain_update [OF assms(1,2), of b a] assms(3) by (simp add: refuses_state_def)

end

lemma state_rule_iff:
  assumes "rules_ok r" "shows_field to_value ''state'' (\<lambda>e. JStr (st e))" "to_value a = Some row"
  shows "state_verbs_only r WriteUpdate None (to_value b) row = [] \<longleftrightarrow> st a = st b"
proof -
  obtain old where old: "to_value b = Some old" "json_field old ''state'' = Some (JStr (st b))"
    using assms(2) by (auto simp: shows_field_def)
  obtain row' where "to_value a = Some row'" "json_field row' ''state'' = Some (JStr (st a))"
    using assms(2) by (auto simp: shows_field_def)
  with assms(3) have "json_field row ''state'' = Some (JStr (st a))" by simp
  with old assms(1) show ?thesis by (auto simp: state_verbs_only_def rules_ok_def)
qed

lemma rule_code_simps:
  "(\<exists>v \<in> set (state_verbs_only r k t old row). v_code v = ''state_field_verbs_only'')
     \<longleftrightarrow> state_verbs_only r k t old row \<noteq> []"
  "\<not> (\<exists>v \<in> set (required_rule r k old row f). v_code v = ''state_field_verbs_only'')"
  "\<not> (\<exists>v \<in> set (max_length_rule r k old row f n). v_code v = ''state_field_verbs_only'')"
  by (simp add: state_verbs_only_def violation_new_def) (use rule_codes in fastforce)+

lemma option_to_value: "(case Some b of None \<Rightarrow> None | Some x \<Rightarrow> to_value x) = to_value b"
  by simp

lemma digest_row_rules_state:
  "refuses_state (digest_row_rules r to_value c) \<longleftrightarrow>
     wc_kind c \<in> {WriteCreate, WriteUpdate} \<and>
     (\<exists>after row. wc_after c = Some after \<and> to_value after = Some row \<and>
        state_verbs_only r (wc_kind c) (wc_transition c) (Option.bind (wc_before c) to_value) row \<noteq> [])"
  by (cases "wc_before c"; cases "wc_after c"; cases "to_value (the (wc_after c))"; cases "wc_kind c")
    (simp_all add: digest_row_rules_def refuses_state_def guard_allow_def bex_Un rule_code_simps Let_def)

interpretation digest_guard: verb_guarded r to_value "digest_row_rules r to_value" "\<lambda>e. show_digest_state (de_state e)"
  for r to_value
proof (unfold_locales, goal_cases)
  case (1 b a)
  then obtain row where row: "to_value a = Some row" by (auto simp: shows_field_def)
  then show ?case using state_rule_iff [OF 1 row, of b] by (simp add: digest_row_rules_state)
qed (simp_all add: digest_row_rules_state)

lemma subscription_row_rules_state:
  "refuses_state (subscription_row_rules r to_value c) \<longleftrightarrow>
     wc_kind c \<in> {WriteCreate, WriteUpdate} \<and>
     (\<exists>after row. wc_after c = Some after \<and> to_value after = Some row \<and>
        state_verbs_only r (wc_kind c) (wc_transition c) (Option.bind (wc_before c) to_value) row \<noteq> [])"
  by (cases "wc_before c"; cases "wc_after c"; cases "to_value (the (wc_after c))"; cases "wc_kind c")
    (simp_all add: subscription_row_rules_def refuses_state_def guard_allow_def bex_Un rule_code_simps Let_def)

interpretation subscription_guard: verb_guarded r to_value "subscription_row_rules r to_value" "\<lambda>e. show_subscription_state (se_state e)"
  for r to_value
proof (unfold_locales, goal_cases)
  case (1 b a)
  then obtain row where row: "to_value a = Some row" by (auto simp: shows_field_def)
  then show ?case using state_rule_iff [OF 1 row, of b] by (simp add: subscription_row_rules_state)
qed (simp_all add: subscription_row_rules_state)

end
