(* ===== verification/Http_Handlers.thy ===== *)
theory Http_Handlers
  imports Dtos
begin

text \<open>
  The generated HTTP handlers (\<^verbatim>\<open>presentation/http/*_handler.rs\<close>): the error type of each entity with
  its wire form, the authentication layer of the protected routes, and the four state-transition
  routes. The CRUD service behind a route, the permission check and the response constructors of
  the framework are parameters (\<open>crud_service\<close>, \<open>http_kit\<close>); \<open>'s\<close> is the state the service works
  on. The route tables are in \<open>Routing\<close>.
\<close>

section \<open>Error types\<close>

text \<open>
  What the five error types share: a client error is told from a server error by its status, and
  the body names the code. \<open>of_service\<close> is the conversion from \<^verbatim>\<open>ServiceError\<close>.
\<close>

locale error_table =
  fixes of_service :: "service_error \<Rightarrow> 'e"
    and status_code :: "'e \<Rightarrow> nat \<times> string"
    and response :: "'e \<Rightarrow> nat \<times> json"
  assumes response_status: "fst (response e) = fst (status_code e)"
    and response_body: "\<exists>m. snd (response e) =
      JObj [(''success'', JBool False), (''error'', JStr (snd (status_code e))), (''message'', JStr m)]"
    and not_found: "fst (status_code (of_service SE_NotFound)) = 404"
    and invalid: "fst (status_code (of_service (SE_Validation m))) = 400"
      "fst (status_code (of_service (SE_AlreadyExists m))) = 400"
      "fst (status_code (of_service (SE_Violations vs))) = 400"
    and server: "fst (status_code (of_service (SE_Repository m))) = 500"
      "fst (status_code (of_service (SE_Internal m))) = 500"
begin

lemma server_error_iff:
  "fst (response (of_service err)) = 500 \<longleftrightarrow> (\<exists>m. err = SE_Repository m \<or> err = SE_Internal m)"
  by (cases err) (simp_all add: response_status not_found invalid server)

lemma never_success: "fst (response (of_service err)) \<in> {400, 404, 500}"
  by (cases err) (simp_all add: response_status not_found invalid server)

end

text \<open>The token of an \<^verbatim>\<open>Authorization\<close> header, given the header's text when it is readable.\<close>

definition strip_prefix :: "string \<Rightarrow> string \<Rightarrow> string option" where
  "strip_prefix p s = (if starts_with p s then Some (drop (length p) s) else None)"

definition bearer_token :: "string option \<Rightarrow> string" where
  "bearer_token authorization =
     (case authorization of
        None \<Rightarrow> []
      | Some raw \<Rightarrow>
          (case strip_prefix ''Bearer '' raw of
             Some t \<Rightarrow> t
           | None \<Rightarrow> (case strip_prefix ''bearer '' raw of Some t \<Rightarrow> t | None \<Rightarrow> [])))"

definition authentication_required :: json where
  "authentication_required =
     JObj [(''success'', JBool False), (''error'', JStr ''unauthorized''),
           (''message'', JStr ''Authentication required'')]"

datatype digest_http_error =
  DigestNotFound string
| DigestValidation string
| DigestDatabase string
| DigestInternal string

fun show_digest_http_error :: "digest_http_error \<Rightarrow> string" where
  "show_digest_http_error (DigestNotFound s) = ''Not found: '' @ s"
| "show_digest_http_error (DigestValidation s) = ''Validation error: '' @ s"
| "show_digest_http_error (DigestDatabase s) = ''Database error: '' @ s"
| "show_digest_http_error (DigestInternal s) = ''Internal error: '' @ s"

fun digest_of_service_error :: "(service_error \<Rightarrow> string) \<Rightarrow> service_error \<Rightarrow> digest_http_error" where
  "digest_of_service_error sh SE_NotFound = DigestNotFound (sh SE_NotFound)"
| "digest_of_service_error sh (SE_Validation m) = DigestValidation m"
| "digest_of_service_error sh (SE_AlreadyExists m) = DigestValidation m"
| "digest_of_service_error sh (SE_Repository m) = DigestDatabase m"
| "digest_of_service_error sh (SE_Internal m) = DigestInternal m"
| "digest_of_service_error sh (SE_Violations vs) = DigestValidation (sh (SE_Violations vs))"

fun digest_status_code :: "digest_http_error \<Rightarrow> nat \<times> string" where
  "digest_status_code (DigestNotFound _) = (404, ''DIGESTDIGEST_NOT_FOUND'')"
| "digest_status_code (DigestValidation _) = (400, ''DIGESTDIGEST_VALIDATION_ERROR'')"
| "digest_status_code (DigestDatabase _) = (500, ''DIGESTDIGEST_DATABASE_ERROR'')"
| "digest_status_code (DigestInternal _) = (500, ''DIGESTDIGEST_INTERNAL_ERROR'')"

definition digest_error_response :: "digest_http_error \<Rightarrow> nat \<times> json" where
  "digest_error_response e =
     (let (status, code) = digest_status_code e in
      (status, JObj [(''success'', JBool False), (''error'', JStr code), (''message'', JStr (show_digest_http_error e))]))"

interpretation digest_errors: error_table "digest_of_service_error sh" digest_status_code digest_error_response for sh
  by unfold_locales (auto simp: digest_error_response_def split: prod.splits elim: digest_status_code.elims)

definition protected_digest_routes ::
  "(string \<Rightarrow> 'ctx option) \<Rightarrow> ('ctx \<Rightarrow> 's \<Rightarrow> (nat \<times> json) \<times> 's) \<Rightarrow> string option \<Rightarrow> 's \<Rightarrow> (nat \<times> json) \<times> 's" where
  "protected_digest_routes authenticate next authorization s =
     (case authenticate (bearer_token authorization) of
        Some ctx \<Rightarrow> next ctx s
      | None \<Rightarrow> ((401, authentication_required), s))"

datatype subscription_http_error =
  SubscriptionNotFound string
| SubscriptionValidation string
| SubscriptionDatabase string
| SubscriptionInternal string

fun show_subscription_http_error :: "subscription_http_error \<Rightarrow> string" where
  "show_subscription_http_error (SubscriptionNotFound s) = ''Not found: '' @ s"
| "show_subscription_http_error (SubscriptionValidation s) = ''Validation error: '' @ s"
| "show_subscription_http_error (SubscriptionDatabase s) = ''Database error: '' @ s"
| "show_subscription_http_error (SubscriptionInternal s) = ''Internal error: '' @ s"

fun subscription_of_service_error :: "(service_error \<Rightarrow> string) \<Rightarrow> service_error \<Rightarrow> subscription_http_error" where
  "subscription_of_service_error sh SE_NotFound = SubscriptionNotFound (sh SE_NotFound)"
| "subscription_of_service_error sh (SE_Validation m) = SubscriptionValidation m"
| "subscription_of_service_error sh (SE_AlreadyExists m) = SubscriptionValidation m"
| "subscription_of_service_error sh (SE_Repository m) = SubscriptionDatabase m"
| "subscription_of_service_error sh (SE_Internal m) = SubscriptionInternal m"
| "subscription_of_service_error sh (SE_Violations vs) = SubscriptionValidation (sh (SE_Violations vs))"

fun subscription_status_code :: "subscription_http_error \<Rightarrow> nat \<times> string" where
  "subscription_status_code (SubscriptionNotFound _) = (404, ''DIGESTSUBSCRIPTION_NOT_FOUND'')"
| "subscription_status_code (SubscriptionValidation _) = (400, ''DIGESTSUBSCRIPTION_VALIDATION_ERROR'')"
| "subscription_status_code (SubscriptionDatabase _) = (500, ''DIGESTSUBSCRIPTION_DATABASE_ERROR'')"
| "subscription_status_code (SubscriptionInternal _) = (500, ''DIGESTSUBSCRIPTION_INTERNAL_ERROR'')"

definition subscription_error_response :: "subscription_http_error \<Rightarrow> nat \<times> json" where
  "subscription_error_response e =
     (let (status, code) = subscription_status_code e in
      (status, JObj [(''success'', JBool False), (''error'', JStr code), (''message'', JStr (show_subscription_http_error e))]))"

interpretation subscription_errors: error_table "subscription_of_service_error sh" subscription_status_code subscription_error_response for sh
  by unfold_locales (auto simp: subscription_error_response_def split: prod.splits elim: subscription_status_code.elims)

definition protected_subscription_routes ::
  "(string \<Rightarrow> 'ctx option) \<Rightarrow> ('ctx \<Rightarrow> 's \<Rightarrow> (nat \<times> json) \<times> 's) \<Rightarrow> string option \<Rightarrow> 's \<Rightarrow> (nat \<times> json) \<times> 's" where
  "protected_subscription_routes authenticate next authorization s =
     (case authenticate (bearer_token authorization) of
        Some ctx \<Rightarrow> next ctx s
      | None \<Rightarrow> ((401, authentication_required), s))"

datatype kpi_http_error =
  KpiNotFound string
| KpiValidation string
| KpiDatabase string
| KpiInternal string

fun show_kpi_http_error :: "kpi_http_error \<Rightarrow> string" where
  "show_kpi_http_error (KpiNotFound s) = ''Not found: '' @ s"
| "show_kpi_http_error (KpiValidation s) = ''Validation error: '' @ s"
| "show_kpi_http_error (KpiDatabase s) = ''Database error: '' @ s"
| "show_kpi_http_error (KpiInternal s) = ''Internal error: '' @ s"

fun kpi_of_service_error :: "(service_error \<Rightarrow> string) \<Rightarrow> service_error \<Rightarrow> kpi_http_error" where
  "kpi_of_service_error sh SE_NotFound = KpiNotFound (sh SE_NotFound)"
| "kpi_of_service_error sh (SE_Validation m) = KpiValidation m"
| "kpi_of_service_error sh (SE_AlreadyExists m) = KpiValidation m"
| "kpi_of_service_error sh (SE_Repository m) = KpiDatabase m"
| "kpi_of_service_error sh (SE_Internal m) = KpiInternal m"
| "kpi_of_service_error sh (SE_Violations vs) = KpiValidation (sh (SE_Violations vs))"

fun kpi_status_code :: "kpi_http_error \<Rightarrow> nat \<times> string" where
  "kpi_status_code (KpiNotFound _) = (404, ''DIGESTDIGESTKPI_NOT_FOUND'')"
| "kpi_status_code (KpiValidation _) = (400, ''DIGESTDIGESTKPI_VALIDATION_ERROR'')"
| "kpi_status_code (KpiDatabase _) = (500, ''DIGESTDIGESTKPI_DATABASE_ERROR'')"
| "kpi_status_code (KpiInternal _) = (500, ''DIGESTDIGESTKPI_INTERNAL_ERROR'')"

definition kpi_error_response :: "kpi_http_error \<Rightarrow> nat \<times> json" where
  "kpi_error_response e =
     (let (status, code) = kpi_status_code e in
      (status, JObj [(''success'', JBool False), (''error'', JStr code), (''message'', JStr (show_kpi_http_error e))]))"

interpretation kpi_errors: error_table "kpi_of_service_error sh" kpi_status_code kpi_error_response for sh
  by unfold_locales (auto simp: kpi_error_response_def split: prod.splits elim: kpi_status_code.elims)

definition protected_kpi_routes ::
  "(string \<Rightarrow> 'ctx option) \<Rightarrow> ('ctx \<Rightarrow> 's \<Rightarrow> (nat \<times> json) \<times> 's) \<Rightarrow> string option \<Rightarrow> 's \<Rightarrow> (nat \<times> json) \<times> 's" where
  "protected_kpi_routes authenticate next authorization s =
     (case authenticate (bearer_token authorization) of
        Some ctx \<Rightarrow> next ctx s
      | None \<Rightarrow> ((401, authentication_required), s))"

datatype tip_http_error =
  TipNotFound string
| TipValidation string
| TipDatabase string
| TipInternal string

fun show_tip_http_error :: "tip_http_error \<Rightarrow> string" where
  "show_tip_http_error (TipNotFound s) = ''Not found: '' @ s"
| "show_tip_http_error (TipValidation s) = ''Validation error: '' @ s"
| "show_tip_http_error (TipDatabase s) = ''Database error: '' @ s"
| "show_tip_http_error (TipInternal s) = ''Internal error: '' @ s"

fun tip_of_service_error :: "(service_error \<Rightarrow> string) \<Rightarrow> service_error \<Rightarrow> tip_http_error" where
  "tip_of_service_error sh SE_NotFound = TipNotFound (sh SE_NotFound)"
| "tip_of_service_error sh (SE_Validation m) = TipValidation m"
| "tip_of_service_error sh (SE_AlreadyExists m) = TipValidation m"
| "tip_of_service_error sh (SE_Repository m) = TipDatabase m"
| "tip_of_service_error sh (SE_Internal m) = TipInternal m"
| "tip_of_service_error sh (SE_Violations vs) = TipValidation (sh (SE_Violations vs))"

fun tip_status_code :: "tip_http_error \<Rightarrow> nat \<times> string" where
  "tip_status_code (TipNotFound _) = (404, ''DIGESTTIP_NOT_FOUND'')"
| "tip_status_code (TipValidation _) = (400, ''DIGESTTIP_VALIDATION_ERROR'')"
| "tip_status_code (TipDatabase _) = (500, ''DIGESTTIP_DATABASE_ERROR'')"
| "tip_status_code (TipInternal _) = (500, ''DIGESTTIP_INTERNAL_ERROR'')"

definition tip_error_response :: "tip_http_error \<Rightarrow> nat \<times> json" where
  "tip_error_response e =
     (let (status, code) = tip_status_code e in
      (status, JObj [(''success'', JBool False), (''error'', JStr code), (''message'', JStr (show_tip_http_error e))]))"

interpretation tip_errors: error_table "tip_of_service_error sh" tip_status_code tip_error_response for sh
  by unfold_locales (auto simp: tip_error_response_def split: prod.splits elim: tip_status_code.elims)

definition protected_tip_routes ::
  "(string \<Rightarrow> 'ctx option) \<Rightarrow> ('ctx \<Rightarrow> 's \<Rightarrow> (nat \<times> json) \<times> 's) \<Rightarrow> string option \<Rightarrow> 's \<Rightarrow> (nat \<times> json) \<times> 's" where
  "protected_tip_routes authenticate next authorization s =
     (case authenticate (bearer_token authorization) of
        Some ctx \<Rightarrow> next ctx s
      | None \<Rightarrow> ((401, authentication_required), s))"

datatype tip_user_http_error =
  TipUserNotFound string
| TipUserValidation string
| TipUserDatabase string
| TipUserInternal string

fun show_tip_user_http_error :: "tip_user_http_error \<Rightarrow> string" where
  "show_tip_user_http_error (TipUserNotFound s) = ''Not found: '' @ s"
| "show_tip_user_http_error (TipUserValidation s) = ''Validation error: '' @ s"
| "show_tip_user_http_error (TipUserDatabase s) = ''Database error: '' @ s"
| "show_tip_user_http_error (TipUserInternal s) = ''Internal error: '' @ s"

fun tip_user_of_service_error :: "(service_error \<Rightarrow> string) \<Rightarrow> service_error \<Rightarrow> tip_user_http_error" where
  "tip_user_of_service_error sh SE_NotFound = TipUserNotFound (sh SE_NotFound)"
| "tip_user_of_service_error sh (SE_Validation m) = TipUserValidation m"
| "tip_user_of_service_error sh (SE_AlreadyExists m) = TipUserValidation m"
| "tip_user_of_service_error sh (SE_Repository m) = TipUserDatabase m"
| "tip_user_of_service_error sh (SE_Internal m) = TipUserInternal m"
| "tip_user_of_service_error sh (SE_Violations vs) = TipUserValidation (sh (SE_Violations vs))"

fun tip_user_status_code :: "tip_user_http_error \<Rightarrow> nat \<times> string" where
  "tip_user_status_code (TipUserNotFound _) = (404, ''DIGESTTIPUSER_NOT_FOUND'')"
| "tip_user_status_code (TipUserValidation _) = (400, ''DIGESTTIPUSER_VALIDATION_ERROR'')"
| "tip_user_status_code (TipUserDatabase _) = (500, ''DIGESTTIPUSER_DATABASE_ERROR'')"
| "tip_user_status_code (TipUserInternal _) = (500, ''DIGESTTIPUSER_INTERNAL_ERROR'')"

definition tip_user_error_response :: "tip_user_http_error \<Rightarrow> nat \<times> json" where
  "tip_user_error_response e =
     (let (status, code) = tip_user_status_code e in
      (status, JObj [(''success'', JBool False), (''error'', JStr code), (''message'', JStr (show_tip_user_http_error e))]))"

interpretation tip_user_errors: error_table "tip_user_of_service_error sh" tip_user_status_code tip_user_error_response for sh
  by unfold_locales (auto simp: tip_user_error_response_def split: prod.splits elim: tip_user_status_code.elims)

definition protected_tip_user_routes ::
  "(string \<Rightarrow> 'ctx option) \<Rightarrow> ('ctx \<Rightarrow> 's \<Rightarrow> (nat \<times> json) \<times> 's) \<Rightarrow> string option \<Rightarrow> 's \<Rightarrow> (nat \<times> json) \<times> 's" where
  "protected_tip_user_routes authenticate next authorization s =
     (case authenticate (bearer_token authorization) of
        Some ctx \<Rightarrow> next ctx s
      | None \<Rightarrow> ((401, authentication_required), s))"

section \<open>State transitions\<close>

text \<open>
  \<open>require_with\<close> answers the refusal, if any. \<open>as_transition\<close> runs a write under the name of the
  verb, which the row rules see. A \<^verbatim>\<open>PermissionWaiver\<close> extension is the flag \<open>waiver\<close>.
\<close>

record ('s, 'e) crud_service =
  get_by_id :: "string \<Rightarrow> 's \<Rightarrow> (service_error + 'e option) \<times> 's"
  partial_update :: "string \<Rightarrow> (string \<times> json) list \<Rightarrow> 's \<Rightarrow> (service_error + 'e option) \<times> 's"
  as_transition :: "string \<Rightarrow> ('s \<Rightarrow> (service_error + 'e option) \<times> 's) \<Rightarrow> 's \<Rightarrow> (service_error + 'e option) \<times> 's"

record ('a, 'p, 'd, 'b) http_kit =
  require_with :: "'a \<Rightarrow> string \<Rightarrow> string list \<Rightarrow> 'p option"
  unauthenticated_refusal :: "nat \<times> 'b"
  permission_refusal :: "'p \<Rightarrow> nat \<times> 'b"
  service_error_response :: "service_error \<Rightarrow> nat \<times> 'b"
  not_found_body :: "string \<Rightarrow> string \<Rightarrow> 'b"
  error_body :: "string \<Rightarrow> 'b"
  ok_body :: "'d \<Rightarrow> 'b"

text \<open>
  The contract of a transition route: without a caller it refuses; a caller without the
  permission and without a waiver is refused; everyone else is \<open>admitted\<close>, and then the row's own
  machine decides.
\<close>

definition admitted ::
  "('a, 'p, 'd, 'b) http_kit \<Rightarrow> ('s, 'e) crud_service \<Rightarrow> string \<Rightarrow> string \<Rightarrow> string \<Rightarrow> ('e \<Rightarrow> bool) \<Rightarrow>
   ('e \<Rightarrow> service_error) \<Rightarrow> ('e \<Rightarrow> 'd) \<Rightarrow> string \<Rightarrow> 's \<Rightarrow> (nat \<times> 'b) \<times> 's" where
  "admitted K S label verb target allowed refusal respond key s =
     (case get_by_id S key s of
        (Inr None, s1) \<Rightarrow> ((404, not_found_body K label key), s1)
      | (Inl err, s1) \<Rightarrow> (service_error_response K err, s1)
      | (Inr (Some e), s1) \<Rightarrow>
          if allowed e
          then (case as_transition S verb (partial_update S key [(''state'', JStr target)]) s1 of
                  (Inr (Some u), s2) \<Rightarrow> ((200, ok_body K (respond u)), s2)
                | (Inr None, s2) \<Rightarrow> ((404, not_found_body K label key), s2)
                | (Inl err, s2) \<Rightarrow> (service_error_response K err, s2))
          else (service_error_response K (refusal e), s1))"

locale transition_route =
  fixes K :: "('a, 'p, 'd, 'b) http_kit"
    and S :: "('s, 'e) crud_service"
    and handle :: "string \<Rightarrow> 'a option \<Rightarrow> bool \<Rightarrow> 's \<Rightarrow> (nat \<times> 'b) \<times> 's"
    and permission :: string
    and alternatives :: "string list"
    and label :: string
    and verb :: string
    and target :: string
    and allowed :: "'e \<Rightarrow> bool"
    and refusal :: "'e \<Rightarrow> service_error"
    and respond :: "'e \<Rightarrow> 'd"
  assumes anonymous: "handle key None w s = (unauthenticated_refusal K, s)"
    and denied: "require_with K a permission alternatives = Some r \<Longrightarrow>
      handle key (Some a) False s = (permission_refusal K r, s)"
    and passed: "w \<or> require_with K a permission alternatives = None \<Longrightarrow>
      handle key (Some a) w s = admitted K S label verb target allowed refusal respond key s"
begin

lemma writes_only_when_allowed:
  assumes reads: "\<And>i s. snd (get_by_id S i s) = s"
    and moved: "snd (handle key auth w s) \<noteq> s"
  obtains a e where "auth = Some a" "w \<or> require_with K a permission alternatives = None"
    "fst (get_by_id S key s) = Inr (Some e)" "allowed e"
    "snd (handle key auth w s) = snd (as_transition S verb (partial_update S key [(''state'', JStr target)]) s)"
proof -
  from moved obtain a where a: "auth = Some a" by (cases auth) (auto simp: anonymous)
  have w: "w \<or> require_with K a permission alternatives = None"
    using moved denied [of a] unfolding a by (cases w; cases "require_with K a permission alternatives") auto
  note h = passed [OF w, of key s]
  obtain g s1 where g: "get_by_id S key s = (g, s1)" by (cases "get_by_id S key s")
  then have s1: "s1 = s" using reads [of key s] by simp
  from moved obtain e where e: "g = Inr (Some e)" "allowed e"
    unfolding a h by (auto simp: admitted_def g s1 split: sum.splits option.splits if_splits)
  have "snd (handle key auth w s) = snd (as_transition S verb (partial_update S key [(''state'', JStr target)]) s)"
    unfolding a h by (auto simp: admitted_def g s1 e split: sum.splits option.splits prod.splits)
  with a w e g show ?thesis by (intro that) auto
qed

lemma found_and_refused:
  assumes "w \<or> require_with K a permission alternatives = None"
    and "get_by_id S key s = (Inr (Some e), s1)" and "\<not> allowed e"
  shows "handle key (Some a) w s = (service_error_response K (refusal e), s1)"
  using assms by (simp add: passed [OF assms(1)] admitted_def)

end

definition action_activate_refusal :: "digest_entity \<Rightarrow> service_error" where
  "action_activate_refusal e = SE_Violations
     [with_param ''to'' (JStr ''activated'')
       (with_param ''from'' (JStr (show_digest_state (de_state e)))
         (with_param ''transition'' (JStr ''action_activate'')
           (violation_new ''state'' ''transition_not_allowed'' ''action_activate is not allowed from the current state'')))]"

definition action_activate_transition ::
  "('a, 'p, digest_response_dto, 'b) http_kit \<Rightarrow> ('s, digest_entity) crud_service \<Rightarrow>
   string \<Rightarrow> 'a option \<Rightarrow> bool \<Rightarrow> 's \<Rightarrow> (nat \<times> 'b) \<times> 's" where
  "action_activate_transition K S key auth waiver s =
     (case auth of
        None \<Rightarrow> (unauthenticated_refusal K, s)
      | Some a \<Rightarrow>
        (case (if waiver then None else require_with K a ''digest_digest:action_activate'' [''digest:action_activate'']) of
           Some refused \<Rightarrow> (permission_refusal K refused, s)
         | None \<Rightarrow>
           (case get_by_id S key s of
              (Inr None, s1) \<Rightarrow> ((404, not_found_body K ''DigestDigest'' key), s1)
            | (Inl err, s1) \<Rightarrow> (service_error_response K err, s1)
            | (Inr (Some entity), s1) \<Rightarrow>
              (case digest_machine_state_from_str (show_digest_state (de_state entity)) of
                 Inl _ \<Rightarrow> ((409, error_body K ''The stored state is not a state of this machine''), s1)
               | Inr cur \<Rightarrow>
                 if \<not> digest_can_transition (digest_from_state cur) ActionActivate
                 then (service_error_response K (action_activate_refusal entity), s1)
                 else (case as_transition S ''action_activate'' (partial_update S key [(''state'', JStr ''activated'')]) s1 of
                         (Inr (Some updated), s2) \<Rightarrow> ((200, ok_body K (digest_response updated)), s2)
                       | (Inr None, s2) \<Rightarrow> ((404, not_found_body K ''DigestDigest'' key), s2)
                       | (Inl err, s2) \<Rightarrow> (service_error_response K err, s2))))))"

interpretation action_activate_route: transition_route K S "action_activate_transition K S" "''digest_digest:action_activate''" "[''digest:action_activate'']" "''DigestDigest''" "''action_activate''" "''activated''"
    "\<lambda>e. digest_can_transition (digest_from_state (digest_machine_of (de_state e))) ActionActivate" action_activate_refusal digest_response for K S
  by unfold_locales
    (auto simp: action_activate_transition_def admitted_def digest_state_crossing split: option.splits sum.splits prod.splits)

definition action_deactivate_refusal :: "digest_entity \<Rightarrow> service_error" where
  "action_deactivate_refusal e = SE_Violations
     [with_param ''to'' (JStr ''deactivated'')
       (with_param ''from'' (JStr (show_digest_state (de_state e)))
         (with_param ''transition'' (JStr ''action_deactivate'')
           (violation_new ''state'' ''transition_not_allowed'' ''action_deactivate is not allowed from the current state'')))]"

definition action_deactivate_transition ::
  "('a, 'p, digest_response_dto, 'b) http_kit \<Rightarrow> ('s, digest_entity) crud_service \<Rightarrow>
   string \<Rightarrow> 'a option \<Rightarrow> bool \<Rightarrow> 's \<Rightarrow> (nat \<times> 'b) \<times> 's" where
  "action_deactivate_transition K S key auth waiver s =
     (case auth of
        None \<Rightarrow> (unauthenticated_refusal K, s)
      | Some a \<Rightarrow>
        (case (if waiver then None else require_with K a ''digest_digest:action_deactivate'' [''digest:action_deactivate'']) of
           Some refused \<Rightarrow> (permission_refusal K refused, s)
         | None \<Rightarrow>
           (case get_by_id S key s of
              (Inr None, s1) \<Rightarrow> ((404, not_found_body K ''DigestDigest'' key), s1)
            | (Inl err, s1) \<Rightarrow> (service_error_response K err, s1)
            | (Inr (Some entity), s1) \<Rightarrow>
              (case digest_machine_state_from_str (show_digest_state (de_state entity)) of
                 Inl _ \<Rightarrow> ((409, error_body K ''The stored state is not a state of this machine''), s1)
               | Inr cur \<Rightarrow>
                 if \<not> digest_can_transition (digest_from_state cur) ActionDeactivate
                 then (service_error_response K (action_deactivate_refusal entity), s1)
                 else (case as_transition S ''action_deactivate'' (partial_update S key [(''state'', JStr ''deactivated'')]) s1 of
                         (Inr (Some updated), s2) \<Rightarrow> ((200, ok_body K (digest_response updated)), s2)
                       | (Inr None, s2) \<Rightarrow> ((404, not_found_body K ''DigestDigest'' key), s2)
                       | (Inl err, s2) \<Rightarrow> (service_error_response K err, s2))))))"

interpretation action_deactivate_route: transition_route K S "action_deactivate_transition K S" "''digest_digest:action_deactivate''" "[''digest:action_deactivate'']" "''DigestDigest''" "''action_deactivate''" "''deactivated''"
    "\<lambda>e. digest_can_transition (digest_from_state (digest_machine_of (de_state e))) ActionDeactivate" action_deactivate_refusal digest_response for K S
  by unfold_locales
    (auto simp: action_deactivate_transition_def admitted_def digest_state_crossing split: option.splits sum.splits prod.splits)

definition unsubscribe_refusal :: "subscription_entity \<Rightarrow> service_error" where
  "unsubscribe_refusal e = SE_Violations
     [with_param ''to'' (JStr ''unsubscribed'')
       (with_param ''from'' (JStr (show_subscription_state (se_state e)))
         (with_param ''transition'' (JStr ''unsubscribe'')
           (violation_new ''state'' ''transition_not_allowed'' ''unsubscribe is not allowed from the current state'')))]"

definition unsubscribe_transition ::
  "('a, 'p, subscription_response_dto, 'b) http_kit \<Rightarrow> ('s, subscription_entity) crud_service \<Rightarrow>
   string \<Rightarrow> 'a option \<Rightarrow> bool \<Rightarrow> 's \<Rightarrow> (nat \<times> 'b) \<times> 's" where
  "unsubscribe_transition K S key auth waiver s =
     (case auth of
        None \<Rightarrow> (unauthenticated_refusal K, s)
      | Some a \<Rightarrow>
        (case (if waiver then None else require_with K a ''digest_subscription:unsubscribe'' [''digest:unsubscribe'']) of
           Some refused \<Rightarrow> (permission_refusal K refused, s)
         | None \<Rightarrow>
           (case get_by_id S key s of
              (Inr None, s1) \<Rightarrow> ((404, not_found_body K ''DigestSubscription'' key), s1)
            | (Inl err, s1) \<Rightarrow> (service_error_response K err, s1)
            | (Inr (Some entity), s1) \<Rightarrow>
              (case subscription_machine_state_from_str (show_subscription_state (se_state entity)) of
                 Inl _ \<Rightarrow> ((409, error_body K ''The stored state is not a state of this machine''), s1)
               | Inr cur \<Rightarrow>
                 if \<not> subscription_can_transition (subscription_from_state cur) Unsubscribe
                 then (service_error_response K (unsubscribe_refusal entity), s1)
                 else (case as_transition S ''unsubscribe'' (partial_update S key [(''state'', JStr ''unsubscribed'')]) s1 of
                         (Inr (Some updated), s2) \<Rightarrow> ((200, ok_body K (subscription_response updated)), s2)
                       | (Inr None, s2) \<Rightarrow> ((404, not_found_body K ''DigestSubscription'' key), s2)
                       | (Inl err, s2) \<Rightarrow> (service_error_response K err, s2))))))"

interpretation unsubscribe_route: transition_route K S "unsubscribe_transition K S" "''digest_subscription:unsubscribe''" "[''digest:unsubscribe'']" "''DigestSubscription''" "''unsubscribe''" "''unsubscribed''"
    "\<lambda>e. subscription_can_transition (subscription_from_state (subscription_machine_of (se_state e))) Unsubscribe" unsubscribe_refusal subscription_response for K S
  by unfold_locales
    (auto simp: unsubscribe_transition_def admitted_def subscription_state_crossing split: option.splits sum.splits prod.splits)

definition resubscribe_refusal :: "subscription_entity \<Rightarrow> service_error" where
  "resubscribe_refusal e = SE_Violations
     [with_param ''to'' (JStr ''subscribed'')
       (with_param ''from'' (JStr (show_subscription_state (se_state e)))
         (with_param ''transition'' (JStr ''resubscribe'')
           (violation_new ''state'' ''transition_not_allowed'' ''resubscribe is not allowed from the current state'')))]"

definition resubscribe_transition ::
  "('a, 'p, subscription_response_dto, 'b) http_kit \<Rightarrow> ('s, subscription_entity) crud_service \<Rightarrow>
   string \<Rightarrow> 'a option \<Rightarrow> bool \<Rightarrow> 's \<Rightarrow> (nat \<times> 'b) \<times> 's" where
  "resubscribe_transition K S key auth waiver s =
     (case auth of
        None \<Rightarrow> (unauthenticated_refusal K, s)
      | Some a \<Rightarrow>
        (case (if waiver then None else require_with K a ''digest_subscription:resubscribe'' [''digest:resubscribe'']) of
           Some refused \<Rightarrow> (permission_refusal K refused, s)
         | None \<Rightarrow>
           (case get_by_id S key s of
              (Inr None, s1) \<Rightarrow> ((404, not_found_body K ''DigestSubscription'' key), s1)
            | (Inl err, s1) \<Rightarrow> (service_error_response K err, s1)
            | (Inr (Some entity), s1) \<Rightarrow>
              (case subscription_machine_state_from_str (show_subscription_state (se_state entity)) of
                 Inl _ \<Rightarrow> ((409, error_body K ''The stored state is not a state of this machine''), s1)
               | Inr cur \<Rightarrow>
                 if \<not> subscription_can_transition (subscription_from_state cur) Resubscribe
                 then (service_error_response K (resubscribe_refusal entity), s1)
                 else (case as_transition S ''resubscribe'' (partial_update S key [(''state'', JStr ''subscribed'')]) s1 of
                         (Inr (Some updated), s2) \<Rightarrow> ((200, ok_body K (subscription_response updated)), s2)
                       | (Inr None, s2) \<Rightarrow> ((404, not_found_body K ''DigestSubscription'' key), s2)
                       | (Inl err, s2) \<Rightarrow> (service_error_response K err, s2))))))"

interpretation resubscribe_route: transition_route K S "resubscribe_transition K S" "''digest_subscription:resubscribe''" "[''digest:resubscribe'']" "''DigestSubscription''" "''resubscribe''" "''subscribed''"
    "\<lambda>e. subscription_can_transition (subscription_from_state (subscription_machine_of (se_state e))) Resubscribe" resubscribe_refusal subscription_response for K S
  by unfold_locales
    (auto simp: resubscribe_transition_def admitted_def subscription_state_crossing split: option.splits sum.splits prod.splits)

end
