(* ===== verification/Repositories.thy ===== *)
theory Repositories
  imports Entities
begin

text \<open>
  The query types of the repository traits (\<^verbatim>\<open>domain/repositories/\<close>): per entity the page request,
  the page of rows and the filter. The traits themselves have no implementation in the crate.
  \<open>offset\<close> multiplies at \<^verbatim>\<open>u32\<close> before it widens to \<^verbatim>\<open>u64\<close>; the model has the wrap-around of a
  release build. The locale \<open>page_request\<close> says when the offset is the right one.
\<close>

text \<open>\<^verbatim>\<open>saturating_sub\<close> at \<^verbatim>\<open>u32\<close>.\<close>

definition saturating_sub :: "32 word \<Rightarrow> 32 word \<Rightarrow> 32 word" where
  "saturating_sub a b = (if a < b then 0 else a - b)"

lemma unat_saturating_sub [simp]: "unat (saturating_sub a b) = unat a - unat b"
  by (simp add: saturating_sub_def word_less_nat_alt unat_sub_if')

lemma unat_widen [simp]: "unat (ucast (w :: 32 word) :: 64 word) = unat w"
proof -
  have "unat w < 2 ^ 32" using unsigned_less [of w, where 'a = nat] by simp
  then show ?thesis by (simp add: unsigned_ucast_eq take_bit_nat_eq_self)
qed

locale page_request =
  fixes make :: "32 word \<Rightarrow> 32 word \<Rightarrow> 'p"
    and offset :: "'p \<Rightarrow> 64 word"
    and limit :: "'p \<Rightarrow> 64 word"
  assumes offset_def: "offset (make page per_page) = ucast (saturating_sub page 1 * per_page)"
    and limit_def: "limit (make page per_page) = ucast per_page"
begin

lemma offset_value: "unat (offset (make page per_page)) = (unat page - 1) * unat per_page mod 2 ^ 32"
  by (simp add: offset_def unat_word_ariths)

lemma offset_exact_iff:
  "unat (offset (make page per_page)) = (unat page - 1) * unat per_page
     \<longleftrightarrow> (unat page - 1) * unat per_page < 2 ^ 32"
  unfolding offset_value by (metis mod_less mod_less_divisor zero_less_numeral zero_less_power)

lemma limit_value: "unat (limit (make page per_page)) = unat per_page"
  by (simp add: limit_def)

text \<open>Consecutive pages meet: one page's rows end where the next page's begin.\<close>

lemma pages_meet:
  assumes "0 < page" and "unat page * unat per_page < 2 ^ 32" and "unat page + 1 < 2 ^ 32"
  shows "unat (offset (make (page + 1) per_page))
    = unat (offset (make page per_page)) + unat (limit (make page per_page))"
proof -
  have p: "unat (page + 1) = unat page + 1" using assms(3) by (simp add: unat_word_ariths)
  have "0 < unat page" using assms(1) by (simp add: word_less_nat_alt)
  then have "(unat page - 1) * unat per_page + unat per_page = unat page * unat per_page"
    by (cases "unat page") simp_all
  with assms(2) p show ?thesis by (simp add: offset_value limit_value)
qed

end

section \<open>Digests\<close>

record digest_page_params =
  qd_page :: "32 word"
  qd_per_page :: "32 word"

definition digest_page_new :: "32 word \<Rightarrow> 32 word \<Rightarrow> digest_page_params" where
  "digest_page_new page per_page = \<lparr> qd_page = page, qd_per_page = per_page \<rparr>"

definition digest_offset :: "digest_page_params \<Rightarrow> 64 word" where
  "digest_offset q = ucast (saturating_sub (qd_page q) 1 * qd_per_page q)"

definition digest_limit :: "digest_page_params \<Rightarrow> 64 word" where
  "digest_limit q = ucast (qd_per_page q)"

record digest_page_result =
  gd_data :: "digest_entity list"
  gd_total :: "64 word"
  gd_page :: "32 word"
  gd_per_page :: "32 word"

record digest_filter =
  fd_name :: "string option"
  fd_periodicity :: "periodicity option"
  fd_state :: "digest_state option"

definition digest_filter_default :: digest_filter where
  "digest_filter_default = \<lparr> fd_name = None, fd_periodicity = None, fd_state = None \<rparr>"

definition digest_has_filters :: "digest_filter \<Rightarrow> bool" where
  "digest_has_filters x \<longleftrightarrow> fd_name x \<noteq> None \<or> fd_periodicity x \<noteq> None \<or> fd_state x \<noteq> None"

lemma digest_has_filters_iff: "digest_has_filters x \<longleftrightarrow> x \<noteq> digest_filter_default"
  by (cases x) (simp add: digest_has_filters_def digest_filter_default_def)

interpretation digest_request: page_request digest_page_new digest_offset digest_limit
  by unfold_locales (simp_all add: digest_page_new_def digest_offset_def digest_limit_def)

section \<open>Subscriptions\<close>

record subscription_page_params =
  qs_page :: "32 word"
  qs_per_page :: "32 word"

definition subscription_page_new :: "32 word \<Rightarrow> 32 word \<Rightarrow> subscription_page_params" where
  "subscription_page_new page per_page = \<lparr> qs_page = page, qs_per_page = per_page \<rparr>"

definition subscription_offset :: "subscription_page_params \<Rightarrow> 64 word" where
  "subscription_offset q = ucast (saturating_sub (qs_page q) 1 * qs_per_page q)"

definition subscription_limit :: "subscription_page_params \<Rightarrow> 64 word" where
  "subscription_limit q = ucast (qs_per_page q)"

record subscription_page_result =
  gs_data :: "subscription_entity list"
  gs_total :: "64 word"
  gs_page :: "32 word"
  gs_per_page :: "32 word"

record subscription_filter =
  fs_digest_id :: "uuid option"
  fs_user_id :: "uuid option"
  fs_state :: "subscription_state option"

definition subscription_filter_default :: subscription_filter where
  "subscription_filter_default = \<lparr> fs_digest_id = None, fs_user_id = None, fs_state = None \<rparr>"

definition subscription_has_filters :: "subscription_filter \<Rightarrow> bool" where
  "subscription_has_filters x \<longleftrightarrow> fs_digest_id x \<noteq> None \<or> fs_user_id x \<noteq> None \<or> fs_state x \<noteq> None"

lemma subscription_has_filters_iff: "subscription_has_filters x \<longleftrightarrow> x \<noteq> subscription_filter_default"
  by (cases x) (simp add: subscription_has_filters_def subscription_filter_default_def)

interpretation subscription_request: page_request subscription_page_new subscription_offset subscription_limit
  by unfold_locales (simp_all add: subscription_page_new_def subscription_offset_def subscription_limit_def)

section \<open>Enabled KPIs\<close>

record kpi_page_params =
  qk_page :: "32 word"
  qk_per_page :: "32 word"

definition kpi_page_new :: "32 word \<Rightarrow> 32 word \<Rightarrow> kpi_page_params" where
  "kpi_page_new page per_page = \<lparr> qk_page = page, qk_per_page = per_page \<rparr>"

definition kpi_offset :: "kpi_page_params \<Rightarrow> 64 word" where
  "kpi_offset q = ucast (saturating_sub (qk_page q) 1 * qk_per_page q)"

definition kpi_limit :: "kpi_page_params \<Rightarrow> 64 word" where
  "kpi_limit q = ucast (qk_per_page q)"

record kpi_page_result =
  gk_data :: "kpi_entity list"
  gk_total :: "64 word"
  gk_page :: "32 word"
  gk_per_page :: "32 word"

record kpi_filter =
  fk_digest_id :: "uuid option"
  fk_kpi_key :: "string option"

definition kpi_filter_default :: kpi_filter where
  "kpi_filter_default = \<lparr> fk_digest_id = None, fk_kpi_key = None \<rparr>"

definition kpi_has_filters :: "kpi_filter \<Rightarrow> bool" where
  "kpi_has_filters x \<longleftrightarrow> fk_digest_id x \<noteq> None \<or> fk_kpi_key x \<noteq> None"

lemma kpi_has_filters_iff: "kpi_has_filters x \<longleftrightarrow> x \<noteq> kpi_filter_default"
  by (cases x) (simp add: kpi_has_filters_def kpi_filter_default_def)

interpretation kpi_request: page_request kpi_page_new kpi_offset kpi_limit
  by unfold_locales (simp_all add: kpi_page_new_def kpi_offset_def kpi_limit_def)

section \<open>Tips\<close>

record tip_page_params =
  qt_page :: "32 word"
  qt_per_page :: "32 word"

definition tip_page_new :: "32 word \<Rightarrow> 32 word \<Rightarrow> tip_page_params" where
  "tip_page_new page per_page = \<lparr> qt_page = page, qt_per_page = per_page \<rparr>"

definition tip_offset :: "tip_page_params \<Rightarrow> 64 word" where
  "tip_offset q = ucast (saturating_sub (qt_page q) 1 * qt_per_page q)"

definition tip_limit :: "tip_page_params \<Rightarrow> 64 word" where
  "tip_limit q = ucast (qt_per_page q)"

record tip_page_result =
  gt_data :: "tip_entity list"
  gt_total :: "64 word"
  gt_page :: "32 word"
  gt_per_page :: "32 word"

record tip_filter =
  ft_name :: "string option"
  ft_tip_description :: "string option"
  ft_group_key :: "string option"

definition tip_filter_default :: tip_filter where
  "tip_filter_default = \<lparr> ft_name = None, ft_tip_description = None, ft_group_key = None \<rparr>"

definition tip_has_filters :: "tip_filter \<Rightarrow> bool" where
  "tip_has_filters x \<longleftrightarrow> ft_name x \<noteq> None \<or> ft_tip_description x \<noteq> None \<or> ft_group_key x \<noteq> None"

lemma tip_has_filters_iff: "tip_has_filters x \<longleftrightarrow> x \<noteq> tip_filter_default"
  by (cases x) (simp add: tip_has_filters_def tip_filter_default_def)

interpretation tip_request: page_request tip_page_new tip_offset tip_limit
  by unfold_locales (simp_all add: tip_page_new_def tip_offset_def tip_limit_def)

section \<open>Consumed tips\<close>

record tip_user_page_params =
  qu_page :: "32 word"
  qu_per_page :: "32 word"

definition tip_user_page_new :: "32 word \<Rightarrow> 32 word \<Rightarrow> tip_user_page_params" where
  "tip_user_page_new page per_page = \<lparr> qu_page = page, qu_per_page = per_page \<rparr>"

definition tip_user_offset :: "tip_user_page_params \<Rightarrow> 64 word" where
  "tip_user_offset q = ucast (saturating_sub (qu_page q) 1 * qu_per_page q)"

definition tip_user_limit :: "tip_user_page_params \<Rightarrow> 64 word" where
  "tip_user_limit q = ucast (qu_per_page q)"

record tip_user_page_result =
  gu_data :: "tip_user_entity list"
  gu_total :: "64 word"
  gu_page :: "32 word"
  gu_per_page :: "32 word"

record tip_user_filter =
  fu_tip_id :: "uuid option"
  fu_user_id :: "uuid option"

definition tip_user_filter_default :: tip_user_filter where
  "tip_user_filter_default = \<lparr> fu_tip_id = None, fu_user_id = None \<rparr>"

definition tip_user_has_filters :: "tip_user_filter \<Rightarrow> bool" where
  "tip_user_has_filters x \<longleftrightarrow> fu_tip_id x \<noteq> None \<or> fu_user_id x \<noteq> None"

lemma tip_user_has_filters_iff: "tip_user_has_filters x \<longleftrightarrow> x \<noteq> tip_user_filter_default"
  by (cases x) (simp add: tip_user_has_filters_def tip_user_filter_default_def)

interpretation tip_user_request: page_request tip_user_page_new tip_user_offset tip_user_limit
  by unfold_locales (simp_all add: tip_user_page_new_def tip_user_offset_def tip_user_limit_def)

end
