(* ===== verification/Api_Properties.thy ===== *)
theory Api_Properties
  imports Row_Rules Http_Handlers Repositories
begin

text \<open>
  Properties of the generated API: who may move a state and how, and what paging through a table
  returns.
\<close>

section \<open>States move through their verbs\<close>

text \<open>
  C31: the two transition routes of a subscription write only for those who may. If a route changes
  the service's state at all, the caller was authenticated, holds the verb's permission or a
  waiver, the row was found in the one state the machine lets the verb leave, and the change is
  that of one partial update of the \<open>state\<close> field alone, run under the verb's name. The time of
  unsubscribing is not part of the write. Reading a row is assumed not to change the state.
\<close>

theorem transition_routes_guarded:
  assumes reads: "\<And>k t. snd (get_by_id S k t) = t"
  shows "(snd (unsubscribe_transition K S key auth waiver s) \<noteq> s \<longrightarrow>
      (\<exists>a e. auth = Some a \<and>
        (waiver \<or> require_with K a ''digest_subscription:unsubscribe'' [''digest:unsubscribe''] = None) \<and>
        fst (get_by_id S key s) = Inr (Some e) \<and> se_state e = Subscribed \<and>
        snd (unsubscribe_transition K S key auth waiver s)
          = snd (as_transition S ''unsubscribe'' (partial_update S key [(''state'', JStr ''unsubscribed'')]) s)))
    \<and> (snd (resubscribe_transition K S key auth waiver s) \<noteq> s \<longrightarrow>
      (\<exists>a e. auth = Some a \<and>
        (waiver \<or> require_with K a ''digest_subscription:resubscribe'' [''digest:resubscribe''] = None) \<and>
        fst (get_by_id S key s) = Inr (Some e) \<and> se_state e = Unsubscribed \<and>
        snd (resubscribe_transition K S key auth waiver s)
          = snd (as_transition S ''resubscribe'' (partial_update S key [(''state'', JStr ''subscribed'')]) s)))"
    (is "?unsub \<and> ?resub")
proof (intro conjI impI)
  assume "snd (unsubscribe_transition K S key auth waiver s) \<noteq> s"
  then obtain a e where *: "auth = Some a"
    "waiver \<or> require_with K a ''digest_subscription:unsubscribe'' [''digest:unsubscribe''] = None"
    "fst (get_by_id S key s) = Inr (Some e)"
    "subscription_can_transition (subscription_from_state (subscription_machine_of (se_state e))) Unsubscribe"
    "snd (unsubscribe_transition K S key auth waiver s)
      = snd (as_transition S ''unsubscribe'' (partial_update S key [(''state'', JStr ''unsubscribed'')]) s)"
    by (rule unsubscribe_route.writes_only_when_allowed [OF reads])
  moreover have "se_state e = Subscribed"
    using *(4) by (cases "se_state e") (simp_all add: subscription_can_transition_def subscription_from_state_def)
  ultimately show "\<exists>a e. auth = Some a \<and>
    (waiver \<or> require_with K a ''digest_subscription:unsubscribe'' [''digest:unsubscribe''] = None) \<and>
    fst (get_by_id S key s) = Inr (Some e) \<and> se_state e = Subscribed \<and>
    snd (unsubscribe_transition K S key auth waiver s)
      = snd (as_transition S ''unsubscribe'' (partial_update S key [(''state'', JStr ''unsubscribed'')]) s)"
    by blast
next
  assume "snd (resubscribe_transition K S key auth waiver s) \<noteq> s"
  then obtain a e where *: "auth = Some a"
    "waiver \<or> require_with K a ''digest_subscription:resubscribe'' [''digest:resubscribe''] = None"
    "fst (get_by_id S key s) = Inr (Some e)"
    "subscription_can_transition (subscription_from_state (subscription_machine_of (se_state e))) Resubscribe"
    "snd (resubscribe_transition K S key auth waiver s)
      = snd (as_transition S ''resubscribe'' (partial_update S key [(''state'', JStr ''subscribed'')]) s)"
    by (rule resubscribe_route.writes_only_when_allowed [OF reads])
  moreover have "se_state e = Unsubscribed"
    using *(4) by (cases "se_state e") (simp_all add: subscription_can_transition_def subscription_from_state_def)
  ultimately show "\<exists>a e. auth = Some a \<and>
    (waiver \<or> require_with K a ''digest_subscription:resubscribe'' [''digest:resubscribe''] = None) \<and>
    fst (get_by_id S key s) = Inr (Some e) \<and> se_state e = Unsubscribed \<and>
    snd (resubscribe_transition K S key auth waiver s)
      = snd (as_transition S ''resubscribe'' (partial_update S key [(''state'', JStr ''subscribed'')]) s)"
    by blast
qed

text \<open>A one-row service, and a framework whose callers are lists of permissions.\<close>

definition demo_crud :: "(subscription_entity option, subscription_entity) crud_service" where
  "demo_crud =
     \<lparr> get_by_id = (\<lambda>k s. (Inr s, s)),
       partial_update = (\<lambda>k fields s.
         let s' = map_option (\<lambda>e. case map_of fields ''state'' of
             Some (JStr t) \<Rightarrow> (case subscription_state_from_str t of Inr st \<Rightarrow> e\<lparr>se_state := st\<rparr> | Inl _ \<Rightarrow> e)
           | _ \<Rightarrow> e) s
         in (Inr s', s')),
       as_transition = (\<lambda>verb f. f) \<rparr>"

definition demo_kit :: "(string list, string, subscription_response_dto, string) http_kit" where
  "demo_kit =
     \<lparr> require_with = (\<lambda>a p alts. if p \<in> set a then None else Some p),
       unauthenticated_refusal = (401, ''unauthenticated''),
       permission_refusal = (\<lambda>p. (403, p)),
       service_error_response = (\<lambda>_. (422, ''refused'')),
       not_found_body = (\<lambda>label k. label @ k),
       error_body = (\<lambda>m. m),
       ok_body = (\<lambda>_. ''ok'') \<rparr>"

definition demo_subscription_entity :: subscription_entity where
  "demo_subscription_entity = subscription_entity_new 5 1 11 Subscribed"

lemma transition_routes_guarded_witness:
  "unsubscribe_transition demo_kit demo_crud ''5'' (Some [''digest_subscription:unsubscribe'']) False
     (Some demo_subscription_entity) = ((200, ''ok''), Some (demo_subscription_entity\<lparr>se_state := Unsubscribed\<rparr>)) \<and>
   (\<exists>a e. Some [''digest_subscription:unsubscribe''] = Some a \<and>
      require_with demo_kit a ''digest_subscription:unsubscribe'' [''digest:unsubscribe''] = None \<and>
      fst (get_by_id demo_crud ''5'' (Some demo_subscription_entity)) = Inr (Some e) \<and> se_state e = Subscribed)"
proof -
  have run: "unsubscribe_transition demo_kit demo_crud ''5'' (Some [''digest_subscription:unsubscribe'']) False
     (Some demo_subscription_entity) = ((200, ''ok''), Some (demo_subscription_entity\<lparr>se_state := Unsubscribed\<rparr>))"
    by (simp add: unsubscribe_transition_def demo_kit_def demo_crud_def demo_subscription_entity_def
        subscription_entity_new_def subscription_machine_state_from_str_def lower_char_def
        subscription_can_transition_def subscription_from_state_def subscription_state_from_str_def Let_def)
  have reads: "\<And>k t. snd (get_by_id demo_crud k t) = t" by (simp add: demo_crud_def)
  have "demo_subscription_entity\<lparr>se_state := Unsubscribed\<rparr> \<noteq> demo_subscription_entity"
    by (simp add: demo_subscription_entity_def subscription_entity_new_def)
  with run transition_routes_guarded [OF reads, of demo_kit "''5''" "Some [''digest_subscription:unsubscribe'']" False
      "Some demo_subscription_entity"]
  show ?thesis by auto
qed

text \<open>
  C32: a full update through the generic API cannot move a state. The row that a PUT would store
  (the update applied to the row as it is) is refused for its state by the row rules exactly when
  its state differs from the stored one; the same write under a verb's name is never refused for
  it. This holds of digests and of subscriptions, for every rule vocabulary that compares fields
  and every serialization that shows the state under its name.
\<close>

theorem put_cannot_move_state:
  assumes "rules_ok r"
    and "shows_field dv ''state'' (\<lambda>e. JStr (show_digest_state (de_state e)))"
    and "shows_field sv ''state'' (\<lambda>e. JStr (show_subscription_state (se_state e)))"
    and "digest_apply_update d ud = Inr d'" "subscription_apply_update s us = Inr s'"
  shows "(refuses_state (digest_row_rules r dv
        \<lparr> wc_kind = WriteUpdate, wc_before = Some d, wc_after = Some d', wc_transition = None \<rparr>)
      \<longleftrightarrow> ud_state ud \<noteq> de_state d)
    \<and> (refuses_state (subscription_row_rules r sv
        \<lparr> wc_kind = WriteUpdate, wc_before = Some s, wc_after = Some s', wc_transition = None \<rparr>)
      \<longleftrightarrow> us_state us \<noteq> se_state s)
    \<and> \<not> refuses_state (digest_row_rules r dv
        \<lparr> wc_kind = WriteUpdate, wc_before = Some d, wc_after = Some d', wc_transition = Some verb \<rparr>)
    \<and> \<not> refuses_state (subscription_row_rules r sv
        \<lparr> wc_kind = WriteUpdate, wc_before = Some s, wc_after = Some s', wc_transition = Some verb \<rparr>)"
proof -
  have "show_digest_state x = show_digest_state y \<longleftrightarrow> x = y" for x y by (cases x; cases y) simp_all
  moreover have "show_subscription_state x = show_subscription_state y \<longleftrightarrow> x = y" for x y
    by (cases x; cases y) simp_all
  moreover have "de_state d' = ud_state ud" "se_state s' = us_state us"
    using assms(4,5) by (auto simp: digest_apply_update_def subscription_apply_update_def)
  ultimately show ?thesis
    using digest_guard.plain_update [OF assms(1,2)] subscription_guard.plain_update [OF assms(1,3)]
    by (simp add: digest_guard.verb_update subscription_guard.verb_update)
qed

definition demo_digest_entity :: digest_entity where
  "demo_digest_entity = digest_entity_new 1 ''team'' Daily Activated"

definition demo_digest_value :: "digest_entity \<Rightarrow> json option" where
  "demo_digest_value e = Some (JObj [(''name'', JStr (de_name e)), (''state'', JStr (show_digest_state (de_state e)))])"

definition demo_subscription_value :: "subscription_entity \<Rightarrow> json option" where
  "demo_subscription_value e = Some (JObj [(''state'', JStr (show_subscription_state (se_state e)))])"

lemma put_cannot_move_state_witness:
  "refuses_state (digest_row_rules plain_rules demo_digest_value
     \<lparr> wc_kind = WriteUpdate, wc_before = Some demo_digest_entity,
       wc_after = Some (demo_digest_entity\<lparr>de_state := Deactivated\<rparr>), wc_transition = None \<rparr>) \<and>
   \<not> refuses_state (digest_row_rules plain_rules demo_digest_value
     \<lparr> wc_kind = WriteUpdate, wc_before = Some demo_digest_entity,
       wc_after = Some (demo_digest_entity\<lparr>de_state := Deactivated\<rparr>), wc_transition = Some ''action_deactivate'' \<rparr>)"
proof -
  let ?ud = "\<lparr> ud_name = ''team'', ud_periodicity = Daily, ud_next_run_date = None, ud_state = Deactivated \<rparr>"
  let ?us = "\<lparr> us_digest_id = 1, us_user_id = 11, us_state = Subscribed, us_unsubscribed_at = None \<rparr>"
  have d: "shows_field demo_digest_value ''state'' (\<lambda>e. JStr (show_digest_state (de_state e)))"
    and s: "shows_field demo_subscription_value ''state'' (\<lambda>e. JStr (show_subscription_state (se_state e)))"
    by (simp_all add: shows_field_def demo_digest_value_def demo_subscription_value_def json_field_def)
  have ud: "digest_apply_update demo_digest_entity ?ud = Inr (demo_digest_entity\<lparr>de_state := Deactivated\<rparr>)"
    and us: "subscription_apply_update demo_subscription_entity ?us = Inr demo_subscription_entity"
    by (simp_all add: digest_apply_update_def subscription_apply_update_def demo_digest_entity_def
        digest_entity_new_def demo_subscription_entity_def subscription_entity_new_def)
  show ?thesis
    using put_cannot_move_state [OF plain_rules_ok d s ud us]
    by (simp add: demo_digest_entity_def digest_entity_new_def)
qed

section \<open>Paging\<close>

lemma concat_slices: "concat (map (\<lambda>i. take k (drop (i * k) xs)) [0..<m]) = take (m * k) xs"
proof (induction m)
  case (Suc m)
  have "take (Suc m * k) xs = take (m * k) xs @ take k (drop (m * k) xs)"
    by (metis add.commute mult_Suc take_add)
  with Suc show ?case by simp
qed simp

lemma pages_needed_le: "0 < k \<Longrightarrow> pages_needed n k \<le> n"
  using pages_needed_iff [of k n n] by (cases k) (simp_all add: not_less)

lemma pages_needed_covers: "0 < k \<Longrightarrow> n \<le> pages_needed n k * k"
  using pages_needed_iff [of k "pages_needed n k" n] by simp

text \<open>
  C33: paging through a table returns every row once, in order. With fewer than \<open>2\<^sup>3\<^sup>2\<close> rows and a
  positive page size, the slices that \<open>offset\<close> and \<open>limit\<close> select for the pages 1 to \<open>total_pages\<close>
  are together the table; and the list DTO of a page says that a next page exists exactly when
  rows remain after it.
\<close>

theorem pages_partition_rows:
  assumes "length rows < 2 ^ 32" and "0 < per_page"
  shows "concat (map (\<lambda>i. let q = digest_page_new (word_of_nat i) per_page in
        take (unat (digest_limit q)) (drop (unat (digest_offset q)) rows))
      [1..<Suc (unat (ld_total_pages (digest_list items (word_of_nat (length rows)) page per_page)))]) = rows
    \<and> (ld_has_next (digest_list items (word_of_nat (length rows)) page per_page)
        \<longleftrightarrow> unat page * unat per_page < length rows)
    \<and> (ld_has_prev (digest_list items (word_of_nat (length rows)) page per_page) \<longleftrightarrow> 1 < unat page)"
proof -
  let ?n = "length rows" and ?k = "unat per_page" and ?w = "word_of_nat (length rows) :: 64 word"
  let ?N = "pages_needed ?n ?k"
  have k: "0 < ?k" using assms(2) by (simp add: word_less_nat_alt)
  have w: "unat ?w = ?n" using assms(1) by (simp add: unat_of_nat)
  have N: "?N < 2 ^ 32" using pages_needed_le [OF k, of ?n] assms(1) by linarith
  then have tot: "unat (total_pages_of ?w per_page) = ?N"
    using total_pages_exact [OF _ assms(2), of ?w] assms(1) w by simp
  have slice: "(let q = digest_page_new (word_of_nat (Suc i)) per_page in
      take (unat (digest_limit q)) (drop (unat (digest_offset q)) rows)) = take ?k (drop (i * ?k) rows)"
    if "i < ?N" for i
  proof -
    have i: "unat (word_of_nat (Suc i) :: 32 word) = Suc i"
      using that N by (simp add: unat_of_nat del: of_nat_Suc)
    have "i * ?k < ?n" using that pages_needed_iff [OF k] by simp
    then have "unat (digest_offset (digest_page_new (word_of_nat (Suc i)) per_page)) = i * ?k"
      using assms(1) i by (simp only: digest_request.offset_value) simp
    then show ?thesis by (simp add: Let_def digest_request.limit_value)
  qed
  have shift: "[1..<Suc ?N] = map Suc [0..<?N]" by (simp add: map_Suc_upt)
  have "concat (map (\<lambda>i. let q = digest_page_new (word_of_nat i) per_page in
        take (unat (digest_limit q)) (drop (unat (digest_offset q)) rows)) [1..<Suc ?N])
      = concat (map (\<lambda>i. take ?k (drop (i * ?k) rows)) [0..<?N])"
    unfolding shift by (intro arg_cong [where f = concat]) (simp add: slice del: of_nat_Suc)
  also have "\<dots> = rows" using pages_needed_covers [OF k, of ?n] by (simp add: concat_slices)
  finally show ?thesis
    using digest_pages.next_iff_items_follow [OF _ assms(2), of ?w items page] N w assms(1)
    by (simp add: digest_pages.counted digest_pages.prev_def tot word_less_nat_alt del: upt_Suc)
qed

lemma pages_partition_rows_witness:
  "concat (map (\<lambda>i. let q = digest_page_new (word_of_nat i) 2 in
        take (unat (digest_limit q)) (drop (unat (digest_offset q)) ''abcde''))
      [1..<Suc (unat (ld_total_pages (digest_list [] (word_of_nat (length ''abcde'')) 3 2)))]) = ''abcde''
    \<and> \<not> ld_has_next (digest_list [] (word_of_nat (length ''abcde'')) 3 2)"
  using pages_partition_rows [of "''abcde''" 2 "[]" 3] by simp

text \<open>
  C40: in a release build the offset of a page, in all five repositories, is
  \<open>(page - 1) * per_page\<close> reduced modulo \<open>2\<^sup>3\<^sup>2\<close>, because the multiplication happens before the
  widening to 64 bits; page 0 counts as page 1. So it is the right one exactly when the product fits
  32 bits, and otherwise too small: page \<open>2\<^sup>3\<^sup>1 + 1\<close> of size 2 starts where page 1 starts.
\<close>

theorem page_offset_wraps:
  "unat (digest_offset (digest_page_new page per_page)) = ((unat page - 1) * unat per_page) mod 2 ^ 32
    \<and> unat (subscription_offset (subscription_page_new page per_page)) = ((unat page - 1) * unat per_page) mod 2 ^ 32
    \<and> unat (kpi_offset (kpi_page_new page per_page)) = ((unat page - 1) * unat per_page) mod 2 ^ 32
    \<and> unat (tip_offset (tip_page_new page per_page)) = ((unat page - 1) * unat per_page) mod 2 ^ 32
    \<and> unat (tip_user_offset (tip_user_page_new page per_page)) = ((unat page - 1) * unat per_page) mod 2 ^ 32
    \<and> (unat (digest_offset (digest_page_new page per_page)) = (unat page - 1) * unat per_page
        \<longleftrightarrow> (unat page - 1) * unat per_page < 2 ^ 32)
    \<and> digest_offset (digest_page_new (2 ^ 31 + 1) 2) = digest_offset (digest_page_new 1 2)"
proof -
  have "digest_offset (digest_page_new (2 ^ 31 + 1) 2) = digest_offset (digest_page_new 1 2)"
    by (simp add: digest_offset_def digest_page_new_def saturating_sub_def)
  then show ?thesis
    by (intro conjI digest_request.offset_exact_iff digest_request.offset_value subscription_request.offset_value
        kpi_request.offset_value tip_request.offset_value tip_user_request.offset_value)
qed

end
