(* ===== verification/Versioning.thy ===== *)
theory Versioning
  imports Prelude
begin

text \<open>
  API versions and their negotiation (\<^verbatim>\<open>presentation/versioning/\<close>): the version enum and its texts,
  the three places a request may name a version, the middleware around the inner service, the
  path helpers and the versioned response wrapper. A request is its path, a header lookup that
  answers readable values only, and the query; the framework's router is a parameter.
\<close>

section \<open>Versions\<close>

datatype api_version = V1

definition current_version :: api_version where
  "current_version = V1"

definition supported_versions :: "api_version list" where
  "supported_versions = [V1]"

fun version_text :: "api_version \<Rightarrow> string" where
  "version_text V1 = ''v1''"

fun version_major :: "api_version \<Rightarrow> 32 word" where
  "version_major V1 = 1"

fun is_deprecated :: "api_version \<Rightarrow> bool" where
  "is_deprecated V1 = False"

fun deprecation_message :: "api_version \<Rightarrow> string option" where
  "deprecation_message V1 = None"

fun sunset_date :: "api_version \<Rightarrow> string option" where
  "sunset_date V1 = None"

definition show_version :: "api_version \<Rightarrow> string" where
  "show_version v = version_text v"

datatype version_parse_error = VersionParseError string

fun show_version_parse_error :: "version_parse_error \<Rightarrow> string" where
  "show_version_parse_error (VersionParseError s) = ''Invalid API version: '' @ quote @ s @ quote"

definition version_from_str :: "string \<Rightarrow> version_parse_error + api_version" where
  "version_from_str s =
     (let t = to_lowercase s in
      if t = ''v1'' \<or> t = ''1'' then Inr V1 else Inl (VersionParseError s))"

lemma version_roundtrip: "version_from_str (show_version v) = Inr v"
  by (cases v) (simp add: version_from_str_def show_version_def lower_char_def)

lemma version_major_text: "version_text v = ''v'' @ show_nat (unat (version_major v))"
  by (cases v) (simp add: show_nat.simps digit_char_def char_of_def bit_0)

section \<open>Where a request names its version\<close>

fun contains_text :: "string \<Rightarrow> string \<Rightarrow> bool" where
  "contains_text p [] \<longleftrightarrow> p = []"
| "contains_text p (c # cs) \<longleftrightarrow> starts_with p (c # cs) \<or> contains_text p cs"

definition ends_with :: "string \<Rightarrow> string \<Rightarrow> bool" where
  "ends_with p s \<longleftrightarrow> starts_with (rev p) (rev s)"

definition extract_version_from_path :: "string \<Rightarrow> api_version option" where
  "extract_version_from_path path =
     find (\<lambda>v. contains_text (''/'' @ version_text v @ ''/'') path \<or> ends_with (''/'' @ version_text v) path)
       supported_versions"

text \<open>\<^verbatim>\<open>trim_start_matches\<close> drops the prefix as often as it occurs.\<close>

function trim_start_matches :: "string \<Rightarrow> string \<Rightarrow> string" where
  "trim_start_matches p s =
     (if p \<noteq> [] \<and> starts_with p s then trim_start_matches p (drop (length p) s) else s)"
  by pat_completeness auto
termination
proof (relation "measure (\<lambda>(p, s). length s)", goal_cases)
  case (2 p s)
  then have "p \<noteq> []" "s \<noteq> []" by (auto simp: starts_with_def)
  then show ?case by simp
qed simp

declare trim_start_matches.simps [simp del]

definition parsed :: "string \<Rightarrow> api_version option" where
  "parsed s = (case version_from_str s of Inr v \<Rightarrow> Some v | Inl _ \<Rightarrow> None)"

definition or_else :: "'a option \<Rightarrow> 'a option \<Rightarrow> 'a option" where
  "or_else a b = (case a of Some x \<Rightarrow> Some x | None \<Rightarrow> b)"

definition accept_version :: "string \<Rightarrow> api_version option" where
  "accept_version s =
     (case find (\<lambda>p. starts_with ''version='' (trim p)) (split_on (CHR '';'') s) of
        None \<Rightarrow> None
      | Some part \<Rightarrow> parsed (trim_start_matches ''version='' (trim part)))"

definition extract_version_from_header :: "(string \<Rightarrow> string option) \<Rightarrow> api_version option" where
  "extract_version_from_header headers =
     or_else (Option.bind (headers ''X-API-Version'') parsed)
       (Option.bind (headers ''Accept'') accept_version)"

fun first_version_param :: "string list \<Rightarrow> api_version option" where
  "first_version_param [] = None"
| "first_version_param (param # ps) =
     (if starts_with ''version='' param
      then or_else (parsed (drop 8 param)) (first_version_param ps)
      else first_version_param ps)"

definition extract_version_from_query :: "string option \<Rightarrow> api_version option" where
  "extract_version_from_query query =
     Option.bind query (\<lambda>q. first_version_param (split_on (CHR ''&'') q))"

definition negotiated_version ::
  "string \<Rightarrow> (string \<Rightarrow> string option) \<Rightarrow> string option \<Rightarrow> api_version" where
  "negotiated_version path headers query =
     (case or_else (or_else (extract_version_from_path path) (extract_version_from_header headers))
             (extract_version_from_query query) of
        Some v \<Rightarrow> v
      | None \<Rightarrow> current_version)"

section \<open>The middleware\<close>

text \<open>A response as its status, body and headers; setting a header replaces its value.\<close>

record 'b http_response =
  hr_status :: nat
  hr_body :: 'b
  hr_headers :: "string \<rightharpoonup> string"

definition insert_header :: "string \<Rightarrow> string \<Rightarrow> 'b http_response \<Rightarrow> 'b http_response" where
  "insert_header k v r = r\<lparr>hr_headers := (hr_headers r)(k \<mapsto> v)\<rparr>"

text \<open>\<open>ok\<close> tells which texts \<^verbatim>\<open>HeaderValue::from_str\<close> accepts; \<open>next\<close> is the inner service.\<close>

definition deprecation_headers :: "(string \<Rightarrow> bool) \<Rightarrow> api_version \<Rightarrow> 'b http_response \<Rightarrow> 'b http_response" where
  "deprecation_headers ok v r =
     (if \<not> is_deprecated v then r
      else
        let r1 = (case deprecation_message v of
                    None \<Rightarrow> r
                  | Some msg \<Rightarrow> insert_header ''Deprecation'' (if ok msg then msg else ''true'') r)
        in (case sunset_date v of
              None \<Rightarrow> r1
            | Some d \<Rightarrow> if ok d then insert_header ''Sunset'' d r1 else r1))"

definition version_negotiation_middleware ::
  "(string \<Rightarrow> bool) \<Rightarrow> (api_version \<Rightarrow> 's \<Rightarrow> 'b http_response \<times> 's) \<Rightarrow>
   string \<Rightarrow> (string \<Rightarrow> string option) \<Rightarrow> string option \<Rightarrow> 's \<Rightarrow> 'b http_response \<times> 's" where
  "version_negotiation_middleware ok inner path headers query s =
     (let v = negotiated_version path headers query in
      case inner v s of
        (r, s') \<Rightarrow>
          (insert_header ''X-API-Version'' (if ok (version_text v) then version_text v else ''v1'')
             (deprecation_headers ok v r), s'))"

text \<open>The middleware adds one header and nothing else: it neither answers nor hides a response.\<close>

lemma middleware_transparent:
  assumes "inner (negotiated_version path headers query) s = (r, s')"
  shows "version_negotiation_middleware ok inner path headers query s
    = (r\<lparr>hr_headers := (hr_headers r)(''X-API-Version'' \<mapsto> ''v1'')\<rparr>, s')"
proof -
  have v: "negotiated_version path headers query = V1" by (metis api_version.exhaust)
  show ?thesis
    using assms by (simp add: version_negotiation_middleware_def deprecation_headers_def insert_header_def v)
qed

section \<open>Paths and responses\<close>

definition versioned_path :: "string \<Rightarrow> api_version \<Rightarrow> string" where
  "versioned_path base v = base @ ''/'' @ version_text v"

definition versioned_resource_path :: "string \<Rightarrow> api_version \<Rightarrow> string \<Rightarrow> string" where
  "versioned_resource_path base v resource = base @ ''/'' @ version_text v @ ''/'' @ resource"

record 'r versioned_router =
  vr_base_path :: string
  vr_routers :: "(api_version \<times> 'r) list"

definition versioned_router_new :: "string \<Rightarrow> 'r versioned_router" where
  "versioned_router_new base = \<lparr> vr_base_path = base, vr_routers = [] \<rparr>"

definition add_version :: "api_version \<Rightarrow> 'r \<Rightarrow> 'r versioned_router \<Rightarrow> 'r versioned_router" where
  "add_version v router b = b\<lparr>vr_routers := vr_routers b @ [(v, router)]\<rparr>"

text \<open>\<open>nest\<close> mounts a router under a path of another; both it and the empty router are the framework's.\<close>

definition versioned_router_build :: "'r \<Rightarrow> (string \<Rightarrow> 'r \<Rightarrow> 'r \<Rightarrow> 'r) \<Rightarrow> 'r versioned_router \<Rightarrow> 'r" where
  "versioned_router_build blank nest b =
     fold (\<lambda>(v, router). nest (vr_base_path b @ ''/'' @ version_text v) router) (vr_routers b) blank"

record 'a versioned_response =
  vs_api_version :: string
  vs_data :: 'a
  vs_deprecation_warning :: "string option"

definition versioned_response_new :: "api_version \<Rightarrow> 'a \<Rightarrow> 'a versioned_response" where
  "versioned_response_new v x =
     \<lparr> vs_api_version = version_text v, vs_data = x,
       vs_deprecation_warning = (if is_deprecated v then deprecation_message v else None) \<rparr>"

datatype 'a renamed_field = Current 'a | Legacy 'a

fun renamed_inner :: "'a renamed_field \<Rightarrow> 'a" where
  "renamed_inner (Current x) = x"
| "renamed_inner (Legacy x) = x"

text \<open>A path built for a version is recognised as naming it, whatever follows.\<close>

lemma contains_text_append: "contains_text p (xs @ p @ ys)"
proof (induction xs)
  case Nil
  have "starts_with p (p @ ys)" by simp
  then show ?case by (cases "p @ ys") auto
qed (simp add: starts_with_def)

lemma versioned_resource_path_found:
  "extract_version_from_path (versioned_resource_path base v resource) = Some v"
proof (cases v)
  case V1
  have "contains_text (''/v1'' @ ''/'') (base @ (''/v1'' @ ''/'') @ resource)" by (rule contains_text_append)
  with V1 show ?thesis
    by (simp add: extract_version_from_path_def versioned_resource_path_def supported_versions_def)
qed

lemma versioned_path_found: "extract_version_from_path (versioned_path base v) = Some v"
  by (cases v) (simp add: extract_version_from_path_def versioned_path_def supported_versions_def ends_with_def starts_with_def)

end
