(* ===== verification/App_State.thy ===== *)
theory App_State
  imports Main
begin

text \<open>
  The handlers' shared services (\<^verbatim>\<open>handlers/mod.rs\<close>) and their builder. The services themselves are
  type parameters. A builder that lacks one panics with the name of the first it misses.
\<close>

record ('a, 'b, 'c, 'd, 'e) app_state =
  as_digest_service :: 'a
  as_subscription_service :: 'b
  as_kpi_service :: 'c
  as_tip_service :: 'd
  as_tip_user_service :: 'e

definition app_state_new :: "'a \<Rightarrow> 'b \<Rightarrow> 'c \<Rightarrow> 'd \<Rightarrow> 'e \<Rightarrow> ('a, 'b, 'c, 'd, 'e) app_state" where
  "app_state_new a b c d e =
     \<lparr> as_digest_service = a, as_subscription_service = b, as_kpi_service = c, as_tip_service = d, as_tip_user_service = e \<rparr>"

record ('a, 'b, 'c, 'd, 'e) app_state_builder =
  asb_digest_service :: "'a option"
  asb_subscription_service :: "'b option"
  asb_kpi_service :: "'c option"
  asb_tip_service :: "'d option"
  asb_tip_user_service :: "'e option"

definition app_state_builder_new :: "('a, 'b, 'c, 'd, 'e) app_state_builder" where
  "app_state_builder_new =
     \<lparr> asb_digest_service = None, asb_subscription_service = None, asb_kpi_service = None, asb_tip_service = None, asb_tip_user_service = None \<rparr>"

definition with_digest_service :: "'a \<Rightarrow> ('a, 'b, 'c, 'd, 'e) app_state_builder \<Rightarrow> ('a, 'b, 'c, 'd, 'e) app_state_builder" where
  "with_digest_service x b = b\<lparr>asb_digest_service := Some x\<rparr>"

definition with_subscription_service :: "'b \<Rightarrow> ('a, 'b, 'c, 'd, 'e) app_state_builder \<Rightarrow> ('a, 'b, 'c, 'd, 'e) app_state_builder" where
  "with_subscription_service x b = b\<lparr>asb_subscription_service := Some x\<rparr>"

definition with_kpi_service :: "'c \<Rightarrow> ('a, 'b, 'c, 'd, 'e) app_state_builder \<Rightarrow> ('a, 'b, 'c, 'd, 'e) app_state_builder" where
  "with_kpi_service x b = b\<lparr>asb_kpi_service := Some x\<rparr>"

definition with_tip_service :: "'d \<Rightarrow> ('a, 'b, 'c, 'd, 'e) app_state_builder \<Rightarrow> ('a, 'b, 'c, 'd, 'e) app_state_builder" where
  "with_tip_service x b = b\<lparr>asb_tip_service := Some x\<rparr>"

definition with_tip_user_service :: "'e \<Rightarrow> ('a, 'b, 'c, 'd, 'e) app_state_builder \<Rightarrow> ('a, 'b, 'c, 'd, 'e) app_state_builder" where
  "with_tip_user_service x b = b\<lparr>asb_tip_user_service := Some x\<rparr>"

definition expect_service :: "string \<Rightarrow> 'a option \<Rightarrow> string + 'a" where
  "expect_service what x = (case x of None \<Rightarrow> Inl (what @ '' is required'') | Some v \<Rightarrow> Inr v)"

definition app_state_build :: "('a, 'b, 'c, 'd, 'e) app_state_builder \<Rightarrow> string + ('a, 'b, 'c, 'd, 'e) app_state" where
  "app_state_build q =
     (case expect_service ''digest_digest_service'' (asb_digest_service q) of Inl m \<Rightarrow> Inl m | Inr a \<Rightarrow>
     (case expect_service ''digest_subscription_service'' (asb_subscription_service q) of Inl m \<Rightarrow> Inl m | Inr b \<Rightarrow>
     (case expect_service ''digest_digest_kpi_service'' (asb_kpi_service q) of Inl m \<Rightarrow> Inl m | Inr c \<Rightarrow>
     (case expect_service ''digest_tip_service'' (asb_tip_service q) of Inl m \<Rightarrow> Inl m | Inr d \<Rightarrow>
     (case expect_service ''digest_tip_user_service'' (asb_tip_user_service q) of Inl m \<Rightarrow> Inl m | Inr e \<Rightarrow>
     (Inr (app_state_new a b c d e)))))))"

lemma app_state_build_all:
  "app_state_build (with_tip_user_service e (with_tip_service d (with_kpi_service c (with_subscription_service b (with_digest_service a (app_state_builder_new)))))) = Inr (app_state_new a b c d e)"
  by (simp add: app_state_build_def expect_service_def app_state_builder_new_def
      with_digest_service_def with_subscription_service_def with_kpi_service_def with_tip_service_def with_tip_user_service_def)

lemma app_state_build_ok_iff:
  "isl (app_state_build q) \<longleftrightarrow> asb_digest_service q = None \<or> asb_subscription_service q = None \<or> asb_kpi_service q = None \<or> asb_tip_service q = None \<or> asb_tip_user_service q = None"
  by (auto simp: app_state_build_def expect_service_def split: option.splits)

end
