(* ===== verification/Ids.thy ===== *)
theory Ids
  imports Entities
begin

text \<open>
  The strongly typed ids of the entities (\<^verbatim>\<open>domain/entity/*.rs\<close>): a wrapper of a \<^verbatim>\<open>Uuid\<close> per entity
  with its text form. The locale \<open>typed_id\<close> states what all five promise.
\<close>

locale typed_id =
  fixes wrap :: "uuid \<Rightarrow> 'i"
    and unwrap :: "'i \<Rightarrow> uuid"
    and show_text :: "externals \<Rightarrow> 'i \<Rightarrow> string"
    and read_text :: "externals \<Rightarrow> string \<Rightarrow> 'i option"
  assumes unwrap_wrap: "unwrap (wrap u) = u"
    and wrap_unwrap: "wrap (unwrap i) = i"
    and shown: "show_text X i = uuid_show X (unwrap i)"
    and read: "read_text X s = map_option wrap (uuid_parse_str X s)"
begin

lemma text_roundtrip: "text_ok X \<Longrightarrow> read_text X (show_text X i) = Some i"
  by (simp add: shown read text_ok_def wrap_unwrap)

lemma show_inj: "text_ok X \<Longrightarrow> show_text X i = show_text X j \<Longrightarrow> i = j"
  by (metis text_roundtrip option.inject)

end

datatype digest_id = DigestId uuid

definition digest_id_new :: "uuid \<Rightarrow> digest_id" where
  "digest_id_new u = DigestId u"

definition digest_id_generate :: "uuid \<Rightarrow> digest_id" where
  "digest_id_generate new_id = DigestId new_id"

fun digest_id_into_inner :: "digest_id \<Rightarrow> uuid" where
  "digest_id_into_inner (DigestId u) = u"

definition show_digest_id :: "externals \<Rightarrow> digest_id \<Rightarrow> string" where
  "show_digest_id X i = uuid_show X (digest_id_into_inner i)"

definition digest_id_from_str :: "externals \<Rightarrow> string \<Rightarrow> digest_id option" where
  "digest_id_from_str X s =
     (case uuid_parse_str X s of None \<Rightarrow> None | Some u \<Rightarrow> Some (DigestId u))"

definition digest_typed_id :: "digest_entity \<Rightarrow> digest_id" where
  "digest_typed_id e = DigestId (ent_id e)"

interpretation digest_typed: typed_id digest_id_new digest_id_into_inner show_digest_id digest_id_from_str
proof
  fix i show "digest_id_new (digest_id_into_inner i) = i" by (cases i) (simp add: digest_id_new_def)
qed (simp_all add: digest_id_new_def show_digest_id_def digest_id_from_str_def split: option.split)

datatype subscription_id = SubscriptionId uuid

definition subscription_id_new :: "uuid \<Rightarrow> subscription_id" where
  "subscription_id_new u = SubscriptionId u"

definition subscription_id_generate :: "uuid \<Rightarrow> subscription_id" where
  "subscription_id_generate new_id = SubscriptionId new_id"

fun subscription_id_into_inner :: "subscription_id \<Rightarrow> uuid" where
  "subscription_id_into_inner (SubscriptionId u) = u"

definition show_subscription_id :: "externals \<Rightarrow> subscription_id \<Rightarrow> string" where
  "show_subscription_id X i = uuid_show X (subscription_id_into_inner i)"

definition subscription_id_from_str :: "externals \<Rightarrow> string \<Rightarrow> subscription_id option" where
  "subscription_id_from_str X s =
     (case uuid_parse_str X s of None \<Rightarrow> None | Some u \<Rightarrow> Some (SubscriptionId u))"

definition subscription_typed_id :: "subscription_entity \<Rightarrow> subscription_id" where
  "subscription_typed_id e = SubscriptionId (ent_id e)"

interpretation subscription_typed: typed_id subscription_id_new subscription_id_into_inner show_subscription_id subscription_id_from_str
proof
  fix i show "subscription_id_new (subscription_id_into_inner i) = i" by (cases i) (simp add: subscription_id_new_def)
qed (simp_all add: subscription_id_new_def show_subscription_id_def subscription_id_from_str_def split: option.split)

datatype kpi_id = KpiId uuid

definition kpi_id_new :: "uuid \<Rightarrow> kpi_id" where
  "kpi_id_new u = KpiId u"

definition kpi_id_generate :: "uuid \<Rightarrow> kpi_id" where
  "kpi_id_generate new_id = KpiId new_id"

fun kpi_id_into_inner :: "kpi_id \<Rightarrow> uuid" where
  "kpi_id_into_inner (KpiId u) = u"

definition show_kpi_id :: "externals \<Rightarrow> kpi_id \<Rightarrow> string" where
  "show_kpi_id X i = uuid_show X (kpi_id_into_inner i)"

definition kpi_id_from_str :: "externals \<Rightarrow> string \<Rightarrow> kpi_id option" where
  "kpi_id_from_str X s =
     (case uuid_parse_str X s of None \<Rightarrow> None | Some u \<Rightarrow> Some (KpiId u))"

definition kpi_typed_id :: "kpi_entity \<Rightarrow> kpi_id" where
  "kpi_typed_id e = KpiId (ent_id e)"

interpretation kpi_typed: typed_id kpi_id_new kpi_id_into_inner show_kpi_id kpi_id_from_str
proof
  fix i show "kpi_id_new (kpi_id_into_inner i) = i" by (cases i) (simp add: kpi_id_new_def)
qed (simp_all add: kpi_id_new_def show_kpi_id_def kpi_id_from_str_def split: option.split)

datatype tip_id = TipId uuid

definition tip_id_new :: "uuid \<Rightarrow> tip_id" where
  "tip_id_new u = TipId u"

definition tip_id_generate :: "uuid \<Rightarrow> tip_id" where
  "tip_id_generate new_id = TipId new_id"

fun tip_id_into_inner :: "tip_id \<Rightarrow> uuid" where
  "tip_id_into_inner (TipId u) = u"

definition show_tip_id :: "externals \<Rightarrow> tip_id \<Rightarrow> string" where
  "show_tip_id X i = uuid_show X (tip_id_into_inner i)"

definition tip_id_from_str :: "externals \<Rightarrow> string \<Rightarrow> tip_id option" where
  "tip_id_from_str X s =
     (case uuid_parse_str X s of None \<Rightarrow> None | Some u \<Rightarrow> Some (TipId u))"

definition tip_typed_id :: "tip_entity \<Rightarrow> tip_id" where
  "tip_typed_id e = TipId (ent_id e)"

interpretation tip_typed: typed_id tip_id_new tip_id_into_inner show_tip_id tip_id_from_str
proof
  fix i show "tip_id_new (tip_id_into_inner i) = i" by (cases i) (simp add: tip_id_new_def)
qed (simp_all add: tip_id_new_def show_tip_id_def tip_id_from_str_def split: option.split)

datatype tip_user_id = TipUserId uuid

definition tip_user_id_new :: "uuid \<Rightarrow> tip_user_id" where
  "tip_user_id_new u = TipUserId u"

definition tip_user_id_generate :: "uuid \<Rightarrow> tip_user_id" where
  "tip_user_id_generate new_id = TipUserId new_id"

fun tip_user_id_into_inner :: "tip_user_id \<Rightarrow> uuid" where
  "tip_user_id_into_inner (TipUserId u) = u"

definition show_tip_user_id :: "externals \<Rightarrow> tip_user_id \<Rightarrow> string" where
  "show_tip_user_id X i = uuid_show X (tip_user_id_into_inner i)"

definition tip_user_id_from_str :: "externals \<Rightarrow> string \<Rightarrow> tip_user_id option" where
  "tip_user_id_from_str X s =
     (case uuid_parse_str X s of None \<Rightarrow> None | Some u \<Rightarrow> Some (TipUserId u))"

definition tip_user_typed_id :: "tip_user_entity \<Rightarrow> tip_user_id" where
  "tip_user_typed_id e = TipUserId (ent_id e)"

interpretation tip_user_typed: typed_id tip_user_id_new tip_user_id_into_inner show_tip_user_id tip_user_id_from_str
proof
  fix i show "tip_user_id_new (tip_user_id_into_inner i) = i" by (cases i) (simp add: tip_user_id_new_def)
qed (simp_all add: tip_user_id_new_def show_tip_user_id_def tip_user_id_from_str_def split: option.split)

end
