(* ===== verification/Entity_Meta.thy ===== *)
theory Entity_Meta
  imports Entities
begin

text \<open>
  What the entities tell the framework (\<^verbatim>\<open>domain/entity/*.rs\<close>): their persistent interface (id and
  time stamps), the fields a write may not touch, their references, and the column table of the
  repositories. The locale \<open>persistent\<close> holds the laws of the interface, which every entity
  repeats; the first entity's functions are the generic ones of \<open>Entities\<close>.
\<close>

definition get_created_at :: "'a entity_scheme \<Rightarrow> datetime option" where
  "get_created_at e = am_created_at (ent_metadata e)"

definition get_updated_at :: "'a entity_scheme \<Rightarrow> datetime option" where
  "get_updated_at e = am_updated_at (ent_metadata e)"

definition get_deleted_at :: "'a entity_scheme \<Rightarrow> datetime option" where
  "get_deleted_at e = am_deleted_at (ent_metadata e)"

locale persistent =
  fixes eid :: "externals \<Rightarrow> 'e \<Rightarrow> string"
    and set_eid :: "externals \<Rightarrow> string \<Rightarrow> 'e \<Rightarrow> 'e"
    and created :: "'e \<Rightarrow> datetime option"
    and set_created :: "datetime \<Rightarrow> 'e \<Rightarrow> 'e"
    and updated :: "'e \<Rightarrow> datetime option"
    and set_updated :: "datetime \<Rightarrow> 'e \<Rightarrow> 'e"
    and deleted :: "'e \<Rightarrow> datetime option"
    and set_deleted :: "datetime option \<Rightarrow> 'e \<Rightarrow> 'e"
  assumes id_set: "uuid_parse_str X s = Some u \<Longrightarrow> eid X (set_eid X s e) = uuid_show X u"
    and id_bad: "uuid_parse_str X s = None \<Longrightarrow> set_eid X s e = e"
    and id_created: "eid X (set_created t e) = eid X e"
    and id_updated: "eid X (set_updated t e) = eid X e"
    and id_deleted: "eid X (set_deleted d e) = eid X e"
    and created_set: "created (set_created t e) = Some t"
    and updated_set: "updated (set_updated t e) = Some t"
    and deleted_set: "deleted (set_deleted d e) = d"
    and created_frame: "created (set_updated t e) = created e" "created (set_deleted d e) = created e"
    and deleted_frame: "deleted (set_created t e) = deleted e" "deleted (set_updated t e) = deleted e"
begin

text \<open>What a create and a soft delete leave behind, whatever the entity.\<close>

lemma stamped_create:
  "created (set_updated t (set_created t e)) = Some t" "updated (set_updated t (set_created t e)) = Some t"
  "deleted (set_updated t (set_created t e)) = deleted e"
  by (simp_all add: created_set updated_set created_frame deleted_frame)

lemma restored: "deleted (set_deleted None (set_deleted (Some t) e)) = None"
  "created (set_deleted None (set_deleted (Some t) e)) = created e"
  "eid X (set_deleted None (set_deleted (Some t) e)) = eid X e"
  by (simp_all add: deleted_set created_frame id_deleted)

lemma own_id: "text_ok X \<Longrightarrow> eid X (set_eid X (eid X (set_eid X (uuid_show X u) e)) e') = uuid_show X u"
  by (simp add: id_set text_ok_def)

end

section \<open>DigestDigest\<close>

definition digest_entity_type :: string where
  "digest_entity_type = ''DigestDigest''"

definition digest_protected_fields :: "string list" where
  "digest_protected_fields = [''state'']"

definition digest_state_fields :: "string list" where
  "digest_state_fields = [''state'']"

text \<open>A protected field is out of reach of a patch.\<close>

lemma digest_patch_protected:
  "fst kv \<in> set digest_protected_fields \<Longrightarrow> digest_entity_patch_field X kv e = e"
  by (cases kv) (simp add: digest_protected_fields_def digest_entity_patch_field_def)

definition digest_column_types :: "string \<rightharpoonup> string" where
  "digest_column_types =
     [''id'' \<mapsto> ''uuid'', ''periodicity'' \<mapsto> ''digest_periodicity'', ''state'' \<mapsto> ''digest_state'', ''next_run_date'' \<mapsto> ''date'']"

definition digest_search_fields :: "string list" where
  "digest_search_fields = [''name'']"

interpretation digest_persist: persistent "entity_id :: externals \<Rightarrow> digest_entity \<Rightarrow> string" set_entity_id
    get_created_at set_created_at get_updated_at set_updated_at get_deleted_at set_deleted_at
  by unfold_locales
    (simp_all add: entity_id_def set_entity_id_def get_created_at_def set_created_at_def get_updated_at_def
      set_updated_at_def get_deleted_at_def set_deleted_at_def)

section \<open>DigestSubscription\<close>

definition subscription_entity_type :: string where
  "subscription_entity_type = ''DigestSubscription''"

definition subscription_protected_fields :: "string list" where
  "subscription_protected_fields = [''state'']"

definition subscription_state_fields :: "string list" where
  "subscription_state_fields = [''state'']"

text \<open>A protected field is out of reach of a patch.\<close>

lemma subscription_patch_protected:
  "fst kv \<in> set subscription_protected_fields \<Longrightarrow> subscription_entity_patch_field X kv e = e"
  by (cases kv) (simp add: subscription_protected_fields_def subscription_entity_patch_field_def)

definition subscription_references :: "(string \<times> string \<times> string) list" where
  "subscription_references = [(''digest_id'', ''digest.digest_digests'', ''id'')]"

definition subscription_column_types :: "string \<rightharpoonup> string" where
  "subscription_column_types =
     [''id'' \<mapsto> ''uuid'', ''digest_id'' \<mapsto> ''uuid'', ''user_id'' \<mapsto> ''uuid'', ''state'' \<mapsto> ''digest_subscription_state'', ''unsubscribed_at'' \<mapsto> ''timestamptz'']"

definition subscription_search_fields :: "string list" where
  "subscription_search_fields = []"

definition subscription_relations :: "(string \<times> string \<times> string) list" where
  "subscription_relations = [(''digest'', ''digest_digests'', ''digestId'')]"

definition subscription_persistent_id :: "externals \<Rightarrow> subscription_entity \<Rightarrow> string" where
  "subscription_persistent_id X e = uuid_show X (ent_id e)"

definition subscription_set_persistent_id :: "externals \<Rightarrow> string \<Rightarrow> subscription_entity \<Rightarrow> subscription_entity" where
  "subscription_set_persistent_id X s e = (case uuid_parse_str X s of Some u \<Rightarrow> e\<lparr>ent_id := u\<rparr> | None \<Rightarrow> e)"

definition subscription_created_at :: "subscription_entity \<Rightarrow> datetime option" where
  "subscription_created_at e = am_created_at (ent_metadata e)"

definition subscription_set_created_at :: "datetime \<Rightarrow> subscription_entity \<Rightarrow> subscription_entity" where
  "subscription_set_created_at ts e = e\<lparr>ent_metadata := (ent_metadata e)\<lparr>am_created_at := Some ts\<rparr>\<rparr>"

definition subscription_updated_at :: "subscription_entity \<Rightarrow> datetime option" where
  "subscription_updated_at e = am_updated_at (ent_metadata e)"

definition subscription_set_updated_at :: "datetime \<Rightarrow> subscription_entity \<Rightarrow> subscription_entity" where
  "subscription_set_updated_at ts e = e\<lparr>ent_metadata := (ent_metadata e)\<lparr>am_updated_at := Some ts\<rparr>\<rparr>"

definition subscription_deleted_at :: "subscription_entity \<Rightarrow> datetime option" where
  "subscription_deleted_at e = am_deleted_at (ent_metadata e)"

definition subscription_set_deleted_at :: "datetime option \<Rightarrow> subscription_entity \<Rightarrow> subscription_entity" where
  "subscription_set_deleted_at ts e = e\<lparr>ent_metadata := (ent_metadata e)\<lparr>am_deleted_at := ts\<rparr>\<rparr>"

interpretation subscription_persist: persistent subscription_persistent_id subscription_set_persistent_id subscription_created_at subscription_set_created_at
  subscription_updated_at subscription_set_updated_at subscription_deleted_at subscription_set_deleted_at
  by unfold_locales
    (simp_all add: subscription_persistent_id_def subscription_set_persistent_id_def subscription_created_at_def subscription_set_created_at_def
      subscription_updated_at_def subscription_set_updated_at_def subscription_deleted_at_def subscription_set_deleted_at_def)

section \<open>DigestDigestKpi\<close>

definition kpi_entity_type :: string where
  "kpi_entity_type = ''DigestDigestKpi''"

definition kpi_references :: "(string \<times> string \<times> string) list" where
  "kpi_references = [(''digest_id'', ''digest.digest_digests'', ''id'')]"

definition kpi_column_types :: "string \<rightharpoonup> string" where
  "kpi_column_types =
     [''id'' \<mapsto> ''uuid'', ''digest_id'' \<mapsto> ''uuid'']"

definition kpi_search_fields :: "string list" where
  "kpi_search_fields = [''kpi_key'']"

definition kpi_relations :: "(string \<times> string \<times> string) list" where
  "kpi_relations = [(''digest'', ''digest_digests'', ''digestId'')]"

definition kpi_persistent_id :: "externals \<Rightarrow> kpi_entity \<Rightarrow> string" where
  "kpi_persistent_id X e = uuid_show X (ent_id e)"

definition kpi_set_persistent_id :: "externals \<Rightarrow> string \<Rightarrow> kpi_entity \<Rightarrow> kpi_entity" where
  "kpi_set_persistent_id X s e = (case uuid_parse_str X s of Some u \<Rightarrow> e\<lparr>ent_id := u\<rparr> | None \<Rightarrow> e)"

definition kpi_created_at :: "kpi_entity \<Rightarrow> datetime option" where
  "kpi_created_at e = am_created_at (ent_metadata e)"

definition kpi_set_created_at :: "datetime \<Rightarrow> kpi_entity \<Rightarrow> kpi_entity" where
  "kpi_set_created_at ts e = e\<lparr>ent_metadata := (ent_metadata e)\<lparr>am_created_at := Some ts\<rparr>\<rparr>"

definition kpi_updated_at :: "kpi_entity \<Rightarrow> datetime option" where
  "kpi_updated_at e = am_updated_at (ent_metadata e)"

definition kpi_set_updated_at :: "datetime \<Rightarrow> kpi_entity \<Rightarrow> kpi_entity" where
  "kpi_set_updated_at ts e = e\<lparr>ent_metadata := (ent_metadata e)\<lparr>am_updated_at := Some ts\<rparr>\<rparr>"

definition kpi_deleted_at :: "kpi_entity \<Rightarrow> datetime option" where
  "kpi_deleted_at e = am_deleted_at (ent_metadata e)"

definition kpi_set_deleted_at :: "datetime option \<Rightarrow> kpi_entity \<Rightarrow> kpi_entity" where
  "kpi_set_deleted_at ts e = e\<lparr>ent_metadata := (ent_metadata e)\<lparr>am_deleted_at := ts\<rparr>\<rparr>"

interpretation kpi_persist: persistent kpi_persistent_id kpi_set_persistent_id kpi_created_at kpi_set_created_at
  kpi_updated_at kpi_set_updated_at kpi_deleted_at kpi_set_deleted_at
  by unfold_locales
    (simp_all add: kpi_persistent_id_def kpi_set_persistent_id_def kpi_created_at_def kpi_set_created_at_def
      kpi_updated_at_def kpi_set_updated_at_def kpi_deleted_at_def kpi_set_deleted_at_def)

section \<open>DigestTip\<close>

definition tip_entity_type :: string where
  "tip_entity_type = ''DigestTip''"

definition tip_column_types :: "string \<rightharpoonup> string" where
  "tip_column_types =
     [''id'' \<mapsto> ''uuid'']"

definition tip_search_fields :: "string list" where
  "tip_search_fields = [''name'', ''tip_description'']"

definition tip_persistent_id :: "externals \<Rightarrow> tip_entity \<Rightarrow> string" where
  "tip_persistent_id X e = uuid_show X (ent_id e)"

definition tip_set_persistent_id :: "externals \<Rightarrow> string \<Rightarrow> tip_entity \<Rightarrow> tip_entity" where
  "tip_set_persistent_id X s e = (case uuid_parse_str X s of Some u \<Rightarrow> e\<lparr>ent_id := u\<rparr> | None \<Rightarrow> e)"

definition tip_created_at :: "tip_entity \<Rightarrow> datetime option" where
  "tip_created_at e = am_created_at (ent_metadata e)"

definition tip_set_created_at :: "datetime \<Rightarrow> tip_entity \<Rightarrow> tip_entity" where
  "tip_set_created_at ts e = e\<lparr>ent_metadata := (ent_metadata e)\<lparr>am_created_at := Some ts\<rparr>\<rparr>"

definition tip_updated_at :: "tip_entity \<Rightarrow> datetime option" where
  "tip_updated_at e = am_updated_at (ent_metadata e)"

definition tip_set_updated_at :: "datetime \<Rightarrow> tip_entity \<Rightarrow> tip_entity" where
  "tip_set_updated_at ts e = e\<lparr>ent_metadata := (ent_metadata e)\<lparr>am_updated_at := Some ts\<rparr>\<rparr>"

definition tip_deleted_at :: "tip_entity \<Rightarrow> datetime option" where
  "tip_deleted_at e = am_deleted_at (ent_metadata e)"

definition tip_set_deleted_at :: "datetime option \<Rightarrow> tip_entity \<Rightarrow> tip_entity" where
  "tip_set_deleted_at ts e = e\<lparr>ent_metadata := (ent_metadata e)\<lparr>am_deleted_at := ts\<rparr>\<rparr>"

interpretation tip_persist: persistent tip_persistent_id tip_set_persistent_id tip_created_at tip_set_created_at
  tip_updated_at tip_set_updated_at tip_deleted_at tip_set_deleted_at
  by unfold_locales
    (simp_all add: tip_persistent_id_def tip_set_persistent_id_def tip_created_at_def tip_set_created_at_def
      tip_updated_at_def tip_set_updated_at_def tip_deleted_at_def tip_set_deleted_at_def)

section \<open>DigestTipUser\<close>

definition tip_user_entity_type :: string where
  "tip_user_entity_type = ''DigestTipUser''"

definition tip_user_references :: "(string \<times> string \<times> string) list" where
  "tip_user_references = [(''tip_id'', ''digest.digest_tips'', ''id'')]"

definition tip_user_column_types :: "string \<rightharpoonup> string" where
  "tip_user_column_types =
     [''id'' \<mapsto> ''uuid'', ''tip_id'' \<mapsto> ''uuid'', ''user_id'' \<mapsto> ''uuid'']"

definition tip_user_search_fields :: "string list" where
  "tip_user_search_fields = []"

definition tip_user_relations :: "(string \<times> string \<times> string) list" where
  "tip_user_relations = [(''tip'', ''digest_tips'', ''tipId'')]"

definition tip_user_persistent_id :: "externals \<Rightarrow> tip_user_entity \<Rightarrow> string" where
  "tip_user_persistent_id X e = uuid_show X (ent_id e)"

definition tip_user_set_persistent_id :: "externals \<Rightarrow> string \<Rightarrow> tip_user_entity \<Rightarrow> tip_user_entity" where
  "tip_user_set_persistent_id X s e = (case uuid_parse_str X s of Some u \<Rightarrow> e\<lparr>ent_id := u\<rparr> | None \<Rightarrow> e)"

definition tip_user_created_at :: "tip_user_entity \<Rightarrow> datetime option" where
  "tip_user_created_at e = am_created_at (ent_metadata e)"

definition tip_user_set_created_at :: "datetime \<Rightarrow> tip_user_entity \<Rightarrow> tip_user_entity" where
  "tip_user_set_created_at ts e = e\<lparr>ent_metadata := (ent_metadata e)\<lparr>am_created_at := Some ts\<rparr>\<rparr>"

definition tip_user_updated_at :: "tip_user_entity \<Rightarrow> datetime option" where
  "tip_user_updated_at e = am_updated_at (ent_metadata e)"

definition tip_user_set_updated_at :: "datetime \<Rightarrow> tip_user_entity \<Rightarrow> tip_user_entity" where
  "tip_user_set_updated_at ts e = e\<lparr>ent_metadata := (ent_metadata e)\<lparr>am_updated_at := Some ts\<rparr>\<rparr>"

definition tip_user_deleted_at :: "tip_user_entity \<Rightarrow> datetime option" where
  "tip_user_deleted_at e = am_deleted_at (ent_metadata e)"

definition tip_user_set_deleted_at :: "datetime option \<Rightarrow> tip_user_entity \<Rightarrow> tip_user_entity" where
  "tip_user_set_deleted_at ts e = e\<lparr>ent_metadata := (ent_metadata e)\<lparr>am_deleted_at := ts\<rparr>\<rparr>"

interpretation tip_user_persist: persistent tip_user_persistent_id tip_user_set_persistent_id tip_user_created_at tip_user_set_created_at
  tip_user_updated_at tip_user_set_updated_at tip_user_deleted_at tip_user_set_deleted_at
  by unfold_locales
    (simp_all add: tip_user_persistent_id_def tip_user_set_persistent_id_def tip_user_created_at_def tip_user_set_created_at_def
      tip_user_updated_at_def tip_user_set_updated_at_def tip_user_deleted_at_def tip_user_set_deleted_at_def)

end
