(* ===== verification/Exports.thy ===== *)
theory Exports
  imports Entities
begin

text \<open>
  The types other modules see (\<^verbatim>\<open>exports/types.rs\<close>, \<^verbatim>\<open>exports/events.rs\<close>): per entity an id wrapper,
  the full record with its metadata as plain JSON, the summary and the reference, and the three
  events. Nothing in the crate fills or publishes them.
\<close>

datatype digest_ref_id = DigestRefId uuid

definition digest_ref_id_new :: "uuid \<Rightarrow> digest_ref_id" where
  "digest_ref_id_new u = DigestRefId u"

fun digest_ref_id_into_inner :: "digest_ref_id \<Rightarrow> uuid" where
  "digest_ref_id_into_inner (DigestRefId u) = u"

record digest_export_dto =
  xd_id :: digest_ref_id
  xd_name :: string
  xd_periodicity :: periodicity
  xd_next_run_date :: "date option"
  xd_state :: digest_state
  xd_metadata :: json

record digest_export_summary =
  yd_id :: digest_ref_id
  yd_name :: string

record digest_export_ref =
  zd_id :: digest_ref_id

record digest_created_event =
  ncd_id :: digest_ref_id
  ncd_data :: digest_export_dto
  ncd_occurred_at :: datetime

record digest_updated_event =
  nud_id :: digest_ref_id
  nud_data :: digest_export_dto
  nud_occurred_at :: datetime

record digest_deleted_event =
  ndd_id :: digest_ref_id
  ndd_occurred_at :: datetime

lemma digest_ref_id_roundtrip: "digest_ref_id_into_inner (digest_ref_id_new u) = u" "digest_ref_id_new (digest_ref_id_into_inner i) = i"
  by (simp add: digest_ref_id_new_def) (cases i, simp add: digest_ref_id_new_def)

datatype subscription_ref_id = SubscriptionRefId uuid

definition subscription_ref_id_new :: "uuid \<Rightarrow> subscription_ref_id" where
  "subscription_ref_id_new u = SubscriptionRefId u"

fun subscription_ref_id_into_inner :: "subscription_ref_id \<Rightarrow> uuid" where
  "subscription_ref_id_into_inner (SubscriptionRefId u) = u"

record subscription_export_dto =
  xs_id :: subscription_ref_id
  xs_digest_id :: uuid
  xs_user_id :: uuid
  xs_state :: subscription_state
  xs_unsubscribed_at :: "datetime option"
  xs_metadata :: json

record subscription_export_summary =
  ys_id :: subscription_ref_id

record subscription_export_ref =
  zs_id :: subscription_ref_id

record subscription_created_event =
  ncs_id :: subscription_ref_id
  ncs_data :: subscription_export_dto
  ncs_occurred_at :: datetime

record subscription_updated_event =
  nus_id :: subscription_ref_id
  nus_data :: subscription_export_dto
  nus_occurred_at :: datetime

record subscription_deleted_event =
  nds_id :: subscription_ref_id
  nds_occurred_at :: datetime

lemma subscription_ref_id_roundtrip: "subscription_ref_id_into_inner (subscription_ref_id_new u) = u" "subscription_ref_id_new (subscription_ref_id_into_inner i) = i"
  by (simp add: subscription_ref_id_new_def) (cases i, simp add: subscription_ref_id_new_def)

datatype kpi_ref_id = KpiRefId uuid

definition kpi_ref_id_new :: "uuid \<Rightarrow> kpi_ref_id" where
  "kpi_ref_id_new u = KpiRefId u"

fun kpi_ref_id_into_inner :: "kpi_ref_id \<Rightarrow> uuid" where
  "kpi_ref_id_into_inner (KpiRefId u) = u"

record kpi_export_dto =
  xk_id :: kpi_ref_id
  xk_digest_id :: uuid
  xk_kpi_key :: string
  xk_metadata :: json

record kpi_export_summary =
  yk_id :: kpi_ref_id

record kpi_export_ref =
  zk_id :: kpi_ref_id

record kpi_created_event =
  nck_id :: kpi_ref_id
  nck_data :: kpi_export_dto
  nck_occurred_at :: datetime

record kpi_updated_event =
  nuk_id :: kpi_ref_id
  nuk_data :: kpi_export_dto
  nuk_occurred_at :: datetime

record kpi_deleted_event =
  ndk_id :: kpi_ref_id
  ndk_occurred_at :: datetime

lemma kpi_ref_id_roundtrip: "kpi_ref_id_into_inner (kpi_ref_id_new u) = u" "kpi_ref_id_new (kpi_ref_id_into_inner i) = i"
  by (simp add: kpi_ref_id_new_def) (cases i, simp add: kpi_ref_id_new_def)

datatype tip_ref_id = TipRefId uuid

definition tip_ref_id_new :: "uuid \<Rightarrow> tip_ref_id" where
  "tip_ref_id_new u = TipRefId u"

fun tip_ref_id_into_inner :: "tip_ref_id \<Rightarrow> uuid" where
  "tip_ref_id_into_inner (TipRefId u) = u"

record tip_export_dto =
  xt_id :: tip_ref_id
  xt_sequence :: int
  xt_name :: string
  xt_tip_description :: string
  xt_group_key :: "string option"
  xt_metadata :: json

record tip_export_summary =
  yt_id :: tip_ref_id
  yt_name :: string

record tip_export_ref =
  zt_id :: tip_ref_id

record tip_created_event =
  nct_id :: tip_ref_id
  nct_data :: tip_export_dto
  nct_occurred_at :: datetime

record tip_updated_event =
  nut_id :: tip_ref_id
  nut_data :: tip_export_dto
  nut_occurred_at :: datetime

record tip_deleted_event =
  ndt_id :: tip_ref_id
  ndt_occurred_at :: datetime

lemma tip_ref_id_roundtrip: "tip_ref_id_into_inner (tip_ref_id_new u) = u" "tip_ref_id_new (tip_ref_id_into_inner i) = i"
  by (simp add: tip_ref_id_new_def) (cases i, simp add: tip_ref_id_new_def)

datatype tip_user_ref_id = TipUserRefId uuid

definition tip_user_ref_id_new :: "uuid \<Rightarrow> tip_user_ref_id" where
  "tip_user_ref_id_new u = TipUserRefId u"

fun tip_user_ref_id_into_inner :: "tip_user_ref_id \<Rightarrow> uuid" where
  "tip_user_ref_id_into_inner (TipUserRefId u) = u"

record tip_user_export_dto =
  xu_id :: tip_user_ref_id
  xu_tip_id :: uuid
  xu_user_id :: uuid
  xu_metadata :: json

record tip_user_export_summary =
  yu_id :: tip_user_ref_id

record tip_user_export_ref =
  zu_id :: tip_user_ref_id

record tip_user_created_event =
  ncu_id :: tip_user_ref_id
  ncu_data :: tip_user_export_dto
  ncu_occurred_at :: datetime

record tip_user_updated_event =
  nuu_id :: tip_user_ref_id
  nuu_data :: tip_user_export_dto
  nuu_occurred_at :: datetime

record tip_user_deleted_event =
  ndu_id :: tip_user_ref_id
  ndu_occurred_at :: datetime

lemma tip_user_ref_id_roundtrip: "tip_user_ref_id_into_inner (tip_user_ref_id_new u) = u" "tip_user_ref_id_new (tip_user_ref_id_into_inner i) = i"
  by (simp add: tip_user_ref_id_new_def) (cases i, simp add: tip_user_ref_id_new_def)

end
