(* ===== verification/Seeders.thy ===== *)
theory Seeders
  imports World Versioning
begin

text \<open>
  The seeders (\<^verbatim>\<open>seeders/\<close>) and the command that runs them (\<^verbatim>\<open>bin/seeder.rs\<close>), over the tables of
  \<open>World\<close>. What a seed file does is a parameter: a function from its name to a change of the
  tables. Deleting digests or tips cascades to the rows that refer to them, as the declared
  foreign keys say. Connecting and printing are not modelled.
\<close>

datatype seeder_type = Reference | Production | Development | Test

record seeder =
  sd_name :: string
  sd_order :: int
  sd_should_run :: "bool io"
  sd_run :: "unit io"
  sd_rollback :: "unit io"

definition seed_digest_seeder :: "(string \<Rightarrow> world \<Rightarrow> world) \<Rightarrow> seeder" where
  "seed_digest_seeder seed =
     \<lparr> sd_name = ''SeedDigestDigestSeeder'', sd_order = 1,
       sd_should_run = select (\<lambda>w. length (digests w) = 0),
       sd_run = sql (\<lambda>w. ((), seed ''digest_digest_seed.sql'' w)),
       sd_rollback = sql (\<lambda>w. ((), w\<lparr>digests := [], subscriptions := filter (\<lambda>s. su_digest_id s \<notin> dg_id ` set (digests w)) (subscriptions w),
           digest_kpis := filter (\<lambda>k. kp_digest_id k \<notin> dg_id ` set (digests w)) (digest_kpis w)\<rparr>)) \<rparr>"

definition seed_subscription_seeder :: "(string \<Rightarrow> world \<Rightarrow> world) \<Rightarrow> seeder" where
  "seed_subscription_seeder seed =
     \<lparr> sd_name = ''SeedDigestSubscriptionSeeder'', sd_order = 2,
       sd_should_run = select (\<lambda>w. length (subscriptions w) = 0),
       sd_run = sql (\<lambda>w. ((), seed ''digest_subscription_seed.sql'' w)),
       sd_rollback = sql (\<lambda>w. ((), w\<lparr>subscriptions := []\<rparr>)) \<rparr>"

definition seed_kpi_seeder :: "(string \<Rightarrow> world \<Rightarrow> world) \<Rightarrow> seeder" where
  "seed_kpi_seeder seed =
     \<lparr> sd_name = ''SeedDigestDigestKpiSeeder'', sd_order = 3,
       sd_should_run = select (\<lambda>w. length (digest_kpis w) = 0),
       sd_run = sql (\<lambda>w. ((), seed ''digest_digest_kpi_seed.sql'' w)),
       sd_rollback = sql (\<lambda>w. ((), w\<lparr>digest_kpis := []\<rparr>)) \<rparr>"

definition seed_tip_seeder :: "(string \<Rightarrow> world \<Rightarrow> world) \<Rightarrow> seeder" where
  "seed_tip_seeder seed =
     \<lparr> sd_name = ''SeedDigestTipSeeder'', sd_order = 4,
       sd_should_run = select (\<lambda>w. length (tips w) = 0),
       sd_run = sql (\<lambda>w. ((), seed ''digest_tip_seed.sql'' w)),
       sd_rollback = sql (\<lambda>w. ((), w\<lparr>tips := [], tip_users := filter (\<lambda>u. tu_tip_id u \<notin> ti_id ` set (tips w)) (tip_users w)\<rparr>)) \<rparr>"

definition seed_tip_user_seeder :: "(string \<Rightarrow> world \<Rightarrow> world) \<Rightarrow> seeder" where
  "seed_tip_user_seeder seed =
     \<lparr> sd_name = ''SeedDigestTipUserSeeder'', sd_order = 5,
       sd_should_run = select (\<lambda>w. length (tip_users w) = 0),
       sd_run = sql (\<lambda>w. ((), seed ''digest_tip_user_seed.sql'' w)),
       sd_rollback = sql (\<lambda>w. ((), w\<lparr>tip_users := []\<rparr>)) \<rparr>"

definition all_seeders :: "(string \<Rightarrow> world \<Rightarrow> world) \<Rightarrow> seeder list" where
  "all_seeders seed = sort_key sd_order
     [seed_digest_seeder seed, seed_subscription_seeder seed, seed_kpi_seeder seed,
      seed_tip_seeder seed, seed_tip_user_seeder seed]"

text \<open>The arguments: \<^verbatim>\<open>--force\<close> anywhere, and the first argument after the program that is no option.\<close>

definition seeder_force :: "string list \<Rightarrow> bool" where
  "seeder_force args = list_ex (\<lambda>a. a = ''--force'') args"

definition seeder_filter :: "string list \<Rightarrow> string option" where
  "seeder_filter args = find (\<lambda>a. \<not> starts_with ''-'' a) (drop 1 args)"

definition filtered_out :: "string option \<Rightarrow> seeder \<Rightarrow> bool" where
  "filtered_out filt s = (case filt of None \<Rightarrow> False | Some f \<Rightarrow> \<not> contains_text f (sd_name s))"

fun run_seeders :: "bool \<Rightarrow> string option \<Rightarrow> seeder list \<Rightarrow> unit io" where
  "run_seeders force filt [] = return ()"
| "run_seeders force filt (s # ss) =
     (if filtered_out filt s then run_seeders force filt ss
      else if force then and_then (sd_run s) (\<lambda>_. run_seeders force filt ss)
      else and_then (sd_should_run s) (\<lambda>todo.
        if todo then and_then (sd_run s) (\<lambda>_. run_seeders force filt ss)
        else run_seeders force filt ss))"

definition seeder_main :: "(string \<Rightarrow> world \<Rightarrow> world) \<Rightarrow> string list \<Rightarrow> unit io" where
  "seeder_main seed args = run_seeders (seeder_force args) (seeder_filter args) (all_seeders seed)"

text \<open>The seeders run parents first: digests before what refers to them, tips before their marks.\<close>

lemma all_seeders_order:
  "map sd_name (all_seeders seed) =
     [''SeedDigestDigestSeeder'', ''SeedDigestSubscriptionSeeder'', ''SeedDigestDigestKpiSeeder'',
      ''SeedDigestTipSeeder'', ''SeedDigestTipUserSeeder'']"
  by (simp add: all_seeders_def seed_digest_seeder_def seed_subscription_seeder_def seed_kpi_seeder_def
      seed_tip_seeder_def seed_tip_user_seeder_def)

lemma run_seeders_skip:
  assumes "sql_faults w = []"
    and "\<And>s. s \<in> set ss \<Longrightarrow> \<not> filtered_out filt s \<Longrightarrow> sd_should_run s w = (Ok False, w)"
  shows "run_seeders False filt ss w = (Ok (), w)"
  using assms(2) by (induction ss) (auto simp: return_def and_then_def)

text \<open>Without \<^verbatim>\<open>--force\<close>, a seeder whose table has rows is skipped, so seeding twice changes nothing.\<close>

lemma seeding_filled_tables:
  assumes "sql_faults w = []" "\<not> seeder_force args"
    and "digests w \<noteq> []" "subscriptions w \<noteq> []" "digest_kpis w \<noteq> []" "tips w \<noteq> []" "tip_users w \<noteq> []"
  shows "seeder_main seed args w = (Ok (), w)"
proof -
  have "run_seeders False (seeder_filter args) (all_seeders seed) w = (Ok (), w)"
    by (rule run_seeders_skip [OF assms(1)])
      (use assms in \<open>auto simp: all_seeders_def seed_digest_seeder_def seed_subscription_seeder_def
        seed_kpi_seeder_def seed_tip_seeder_def seed_tip_user_seeder_def select_no_faults\<close>)
  with assms(2) show ?thesis by (simp add: seeder_main_def)
qed

text \<open>A statement that fails ends the run: the seeders after it do not start.\<close>

lemma failing_seeder_stops:
  assumes "\<not> filtered_out filt s" "sd_run s w = (Err e, w')"
  shows "run_seeders True filt (s # ss) w = (Err e, w')"
  using assms by (simp add: and_then_def)

end
