(* ===== verification/Replicas.thy ===== *)
theory Replicas
  imports Sweep_Mails
begin

text \<open>
  Several sweeps at once (\<^verbatim>\<open>application/service/digest_cron_service.rs\<close>: two replicas run the daily
  pull on the same tables). A session is one call of \<^verbatim>\<open>run_daily_pull\<close>; its program counter is a
  \<open>phase\<close>, and a step runs it to the next point where another session can see or be seen: the
  claim, the read of the recipients, each recipient, the commit or rollback. The digest a session
  claimed stays locked until its transaction ends, so \<open>FOR UPDATE SKIP LOCKED\<close> of the others skips
  it; the updates of the row are part of the commit step, since nobody sees them before. A schedule
  is a list of events: a session starts, or one of them takes a step.
\<close>

section \<open>Sessions\<close>

datatype phase =
    Idle
  | Claimed digest_row
  | Sending digest_row "periodicity option" nat "recipient_row list" bool "string option"
  | Ended "unit res" "uuid option"

text \<open>\<open>Ended r (Some d)\<close> is a run that stopped inside the batch of \<open>d\<close>.\<close>

record session =
  se_now :: datetime
  se_clock :: "uuid \<Rightarrow> uuid \<Rightarrow> datetime"
  se_processed :: "uuid list"
  se_outcome :: sweep_outcome
  se_phase :: phase

definition new_session :: "datetime \<Rightarrow> (uuid \<Rightarrow> uuid \<Rightarrow> datetime) \<Rightarrow> session" where
  "new_session now clock =
     \<lparr> se_now = now, se_clock = clock, se_processed = [], se_outcome = empty_outcome, se_phase = Idle \<rparr>"

definition claim_step :: "uuid list \<Rightarrow> session \<Rightarrow> world \<Rightarrow> session \<times> world" where
  "claim_step others s w =
     (case and_then tx_statement (\<lambda>_. claim (date_naive (se_now s)) (se_processed s))
             (w\<lparr>row_locks := row_locks w @ others\<rparr>) of
        (r, w1) \<Rightarrow>
          ((case r of
              Ok None \<Rightarrow> s\<lparr>se_phase := Ended (Ok ()) None\<rparr>
            | Ok (Some d) \<Rightarrow>
                s\<lparr>se_processed := se_processed s @ [dr_id d],
                  se_outcome := (se_outcome s)\<lparr>so_claimed := so_claimed (se_outcome s) + 1\<rparr>,
                  se_phase := Claimed d\<rparr>
            | Err e \<Rightarrow> s\<lparr>se_phase := Ended (Err e) None\<rparr>
            | Panic \<Rightarrow> s\<lparr>se_phase := Ended Panic None\<rparr>), w1\<lparr>row_locks := row_locks w\<rparr>))"

text \<open>The \<^verbatim>\<open>Err\<close> arm of the batch: roll back, record, continue.\<close>

definition isolate_step :: "uuid \<Rightarrow> session \<Rightarrow> world \<Rightarrow> session \<times> world" where
  "isolate_step i s w =
     (case tx_statement w of
        (Ok _, w') \<Rightarrow>
          (s\<lparr>se_outcome := (se_outcome s)\<lparr>so_isolated_failures := so_isolated_failures (se_outcome s) @ [i]\<rparr>,
             se_phase := Idle\<rparr>, write_audit (DigestSendIsolated i) w')
      | (r, w') \<Rightarrow> (s\<lparr>se_phase := Ended r (Some i)\<rparr>, w'))"

text \<open>A stretch of the batch of digest \<open>i\<close> between two points of interleaving.\<close>

definition batch_step ::
  "uuid \<Rightarrow> 'a sweep \<Rightarrow> ('a \<Rightarrow> session \<Rightarrow> world \<Rightarrow> session \<times> world) \<Rightarrow> session \<Rightarrow> world \<Rightarrow> session \<times> world" where
  "batch_step i m k s w =
     (case m (se_outcome s) w of
        (Ok a, oc, w') \<Rightarrow> k a (s\<lparr>se_outcome := oc\<rparr>) w'
      | (Err e, oc, w') \<Rightarrow> isolate_step i (s\<lparr>se_outcome := oc\<rparr>) (rollback_to (digests w) w')
      | (Panic, oc, w') \<Rightarrow>
          (s\<lparr>se_outcome := oc, se_phase := Ended Panic (Some i)\<rparr>, rollback_to (digests w) w'))"

definition prepare ::
  "externals \<Rightarrow> engine \<Rightarrow> digest_row \<Rightarrow> datetime \<Rightarrow> (recipient_row list \<times> periodicity option) sweep" where
  "prepare X eng digest now =
     bind_sweep (run_io (active_recipients (dr_id digest))) (\<lambda>recipients.
     bind_sweep (run_io (expect (login_window_since (cal X) (dr_periodicity digest) now))) (\<lambda>since.
     bind_sweep (run_io (slowdown_check eng digest (map rr_user_id recipients) since)) (\<lambda>degrade_to.
     run_io (return (recipients, degrade_to)))))"

definition decide ::
  "externals \<Rightarrow> digest_row \<Rightarrow> periodicity option \<Rightarrow> nat \<Rightarrow> datetime \<Rightarrow> bool \<Rightarrow> string option \<Rightarrow> unit sweep" where
  "decide X digest degrade_to recipients now mail_failure digest_failure =
     (if mail_failure \<or> digest_failure \<noteq> None then retry_tomorrow X digest now mail_failure
      else advance_digest X digest degrade_to recipients now)"

definition commit_step :: "uuid \<Rightarrow> digest_rec list \<Rightarrow> session \<Rightarrow> world \<Rightarrow> session \<times> world" where
  "commit_step i saved s w =
     (case tx_statement w of
        (Ok _, w') \<Rightarrow> (s\<lparr>se_phase := Idle\<rparr>, w')
      | (r, w') \<Rightarrow> (s\<lparr>se_phase := Ended r (Some i)\<rparr>, rollback_to saved w'))"

definition session_step ::
  "externals \<Rightarrow> engine \<Rightarrow> uuid list \<Rightarrow> session \<Rightarrow> world \<Rightarrow> session \<times> world" where
  "session_step X eng others s w =
     (case se_phase s of
        Idle \<Rightarrow> claim_step others s w
      | Claimed d \<Rightarrow>
          batch_step (dr_id d) (prepare X eng d (se_now s))
            (\<lambda>(rs, deg) s' w'. (s'\<lparr>se_phase := Sending d deg (length rs) rs False None\<rparr>, w')) s w
      | Sending d deg n (r # rs) mf df \<Rightarrow>
          batch_step (dr_id d) (send_all X eng (se_clock s) d (se_now s) [r] mf df)
            (\<lambda>(mf', df') s' w'. (s'\<lparr>se_phase := Sending d deg n rs mf' df'\<rparr>, w')) s w
      | Sending d deg n [] mf df \<Rightarrow>
          batch_step (dr_id d) (decide X d deg n (se_now s) mf df)
            (\<lambda>_. commit_step (dr_id d) (digests w)) s w
      | Ended r i \<Rightarrow> (s, w))"

section \<open>The system\<close>

record replicas =
  re_world :: world
  re_sessions :: "session list"

datatype replica_event =
    Start datetime "uuid \<Rightarrow> uuid \<Rightarrow> datetime"
  | Step nat

fun held :: "phase \<Rightarrow> uuid list" where
  "held (Claimed d) = [dr_id d]"
| "held (Sending d deg n rs mf df) = [dr_id d]"
| "held Idle = []"
| "held (Ended r i) = []"

text \<open>The rows locked by the sessions other than the \<open>i\<close>-th.\<close>

definition held_by_others :: "nat \<Rightarrow> session list \<Rightarrow> uuid list" where
  "held_by_others i ss = concat (map (held \<circ> se_phase) (take i ss @ drop (Suc i) ss))"

fun replica_step :: "externals \<Rightarrow> engine \<Rightarrow> replica_event \<Rightarrow> replicas \<Rightarrow> replicas" where
  "replica_step X eng (Start now clock) sys =
     sys\<lparr>re_sessions := re_sessions sys @ [new_session now clock]\<rparr>"
| "replica_step X eng (Step i) sys =
     (if i < length (re_sessions sys) then
        (case session_step X eng (held_by_others i (re_sessions sys)) (re_sessions sys ! i) (re_world sys) of
           (s', w') \<Rightarrow> sys\<lparr>re_world := w', re_sessions := (re_sessions sys)[i := s']\<rparr>)
      else sys)"

definition run_replicas :: "externals \<Rightarrow> engine \<Rightarrow> replica_event list \<Rightarrow> replicas \<Rightarrow> replicas" where
  "run_replicas X eng = fold (replica_step X eng)"

definition quiet_start :: "world \<Rightarrow> replicas" where
  "quiet_start w = \<lparr> re_world = w, re_sessions = [] \<rparr>"

lemma run_replicas_simps [simp]:
  "run_replicas X eng [] sys = sys"
  "run_replicas X eng (e # es) sys = run_replicas X eng es (replica_step X eng e sys)"
  "run_replicas X eng (es @ fs) sys = run_replicas X eng fs (run_replicas X eng es sys)"
  by (simp_all add: run_replicas_def)

section \<open>What a step does\<close>

text \<open>What every step keeps, and how many batches of a digest were rolled back so far.\<close>

definition isolations :: "uuid \<Rightarrow> world \<Rightarrow> nat" where
  "isolations d w = count_list (audit w) (DigestSendIsolated d)"

fun died_in :: "uuid \<Rightarrow> phase \<Rightarrow> nat" where
  "died_in d (Ended r (Some i)) = (if i = d then 1 else 0)"
| "died_in d p = 0"

definition calm :: "world \<Rightarrow> world \<Rightarrow> bool" where
  "calm w w' \<longleftrightarrow> world_ok w' \<and> rest_view w' = rest_view w \<and> (\<forall>d. isolations d w \<le> isolations d w')"

lemma isolations_frame [simp]:
  "isolations d (w\<lparr>sql_faults := fs\<rparr>) = isolations d w"
  "isolations d (w\<lparr>row_locks := ls\<rparr>) = isolations d w"
  "isolations d (w\<lparr>tip_users := ts\<rparr>) = isolations d w"
  "isolations d (w\<lparr>subscriptions := ss\<rparr>) = isolations d w"
  "isolations d (rollback_to ds w) = isolations d w"
  "isolations d (snd (update_digest i f w)) = isolations d w"
  by (simp_all add: isolations_def rollback_to_def update_digest_def update_where_def)

lemma isolations_write: "isolations d w \<le> isolations d (write_audit ev w)"
  by (simp add: isolations_def)

lemma isolations_mails: "only_mails_differ w w' \<Longrightarrow> isolations d w' = isolations d w"
  by (simp add: isolations_def only_mails_differ_def)

lemma isolations_stable: "batch_stable (\<lambda>w. k \<le> isolations d w)"
  unfolding batch_stable_def delivery_stable_def
  by (simp add: isolations_mails le_trans [OF _ isolations_write])

lemma batch_stableD:
  assumes "batch_stable P" "P w"
  shows "P (w\<lparr>sql_faults := fs\<rparr>)" "only_mails_differ w w' \<Longrightarrow> P w'" "P (write_audit ev w)"
    "P (w\<lparr>tip_users := snd (insert_or_ignore tip_user_key t (tip_users w))\<rparr>)"
    "P (w\<lparr>subscriptions := snd (update_where (\<lambda>r. su_digest_id r = d \<and> su_user_id r = u)
         (\<lambda>r. r\<lparr>su_metadata := (su_metadata r)(''first_digest_sent_at'' \<mapsto> v)\<rparr>) (subscriptions w))\<rparr>)"
    "(\<And>r. dg_id (f r) = dg_id r) \<Longrightarrow> P (snd (update_digest i f w))"
  using assms unfolding batch_stable_def delivery_stable_def by meson+

lemma batch_stableI:
  assumes "\<And>w fs. P w \<Longrightarrow> P (w\<lparr>sql_faults := fs\<rparr>)" "\<And>w w'. P w \<Longrightarrow> only_mails_differ w w' \<Longrightarrow> P w'"
    "\<And>w ev. P w \<Longrightarrow> P (write_audit ev w)"
    "\<And>w t. P w \<Longrightarrow> P (w\<lparr>tip_users := snd (insert_or_ignore tip_user_key t (tip_users w))\<rparr>)"
    "\<And>w d u v. P w \<Longrightarrow> P (w\<lparr>subscriptions := snd (update_where (\<lambda>r. su_digest_id r = d \<and> su_user_id r = u)
         (\<lambda>r. r\<lparr>su_metadata := (su_metadata r)(''first_digest_sent_at'' \<mapsto> v)\<rparr>) (subscriptions w))\<rparr>)"
    "\<And>w i f. \<forall>r. dg_id (f r) = dg_id r \<Longrightarrow> P w \<Longrightarrow> P (snd (update_digest i f w))"
  shows "batch_stable P"
  unfolding batch_stable_def delivery_stable_def by (intro conjI allI impI) (rule assms; assumption)+

lemma batch_stable_conj:
  assumes p: "batch_stable P" and q: "batch_stable Q"
  shows "batch_stable (\<lambda>w. P w \<and> Q w)"
proof (rule batch_stableI)
  show "P w' \<and> Q w'" if "P w \<and> Q w" "only_mails_differ w w'" for w w'
    using batch_stableD(2) [OF p, of w w'] batch_stableD(2) [OF q, of w w'] that by simp
qed (use batch_stableD [OF p] batch_stableD [OF q] in simp_all)

lemma batch_stable_all:
  assumes p: "\<And>x. batch_stable (P x)"
  shows "batch_stable (\<lambda>w. \<forall>x. P x w)"
proof (rule batch_stableI)
  show "\<forall>x. P x w'" if "\<forall>x. P x w" "only_mails_differ w w'" for w w'
    using batch_stableD(2) [OF p, of _ w w'] that by simp
qed (use batch_stableD [OF p] in simp_all)

lemma calm_stable: "batch_stable (\<lambda>w'. calm w w')"
  unfolding calm_def
  by (intro batch_stable_conj batch_stable_all batch_stable_ok batch_stable_rest isolations_stable)

lemma calm_refl: "world_ok w \<Longrightarrow> calm w w"
  by (simp add: calm_def)

lemma calm_frame [simp]:
  "calm w (w'\<lparr>sql_faults := fs\<rparr>) = calm w w'"
  by (simp add: calm_def isolations_def)

text \<open>
  The moves of a session on day \<open>t\<close>: what another session can tell of a step. \<open>pending p u\<close>: the
  batch in phase \<open>p\<close> has not mailed \<open>u\<close> yet; \<open>awaiting\<close>: the recipients left of a batch that is sending.
\<close>

fun pending :: "phase \<Rightarrow> uuid \<Rightarrow> bool" where
  "pending (Claimed d) u = True"
| "pending (Sending d deg n rs mf df) u = (u \<in> rr_user_id ` set rs)"
| "pending Idle u = False"
| "pending (Ended r i) u = False"

fun awaiting :: "phase \<Rightarrow> uuid set" where
  "awaiting (Sending d deg n rs mf df) = rr_user_id ` set rs"
| "awaiting (Claimed d) = {}"
| "awaiting Idle = {}"
| "awaiting (Ended r i) = {}"

inductive moves ::
  "externals \<Rightarrow> engine \<Rightarrow> uuid list \<Rightarrow> session \<Rightarrow> world \<Rightarrow> session \<Rightarrow> world \<Rightarrow> bool" for X eng others where
  finish: "moves X eng others s w (s\<lparr>se_phase := Ended r None\<rparr>) (w\<lparr>sql_faults := fs\<rparr>)"
    if "se_phase s = Idle"
      "r = Ok () \<longrightarrow> due_queue (date_naive (se_now s)) (se_processed s) (w\<lparr>row_locks := row_locks w @ others\<rparr>) = []"
| claims: "moves X eng others s w
      (s\<lparr>se_processed := se_processed s @ [dg_id r], se_outcome := oc, se_phase := Claimed (read_row r)\<rparr>)
      (w\<lparr>sql_faults := fs\<rparr>)"
    if "se_phase s = Idle"
      "due_queue (date_naive (se_now s)) (se_processed s) (w\<lparr>row_locks := row_locks w @ others\<rparr>) = r # rs"
| prepares: "moves X eng others s w
      (s\<lparr>se_outcome := oc, se_phase := Sending d deg n (recipients_of (dr_id d) w) False None\<rparr>) w'"
    if "se_phase s = Claimed d" "calm w w'" "digests w' = digests w" "mails w' = mails w"
| sends: "moves X eng others s w (s\<lparr>se_outcome := oc, se_phase := Sending d deg n rs mf' df'\<rparr>) w'"
    if "se_phase s = Sending d deg n (r # rs) mf df" "calm w w'" "digests w' = digests w"
      "mails w' = mails w @ new" "new = [] \<or> (\<exists>m. new = [m] \<and> mail_pair m = (dr_id d, rr_user_id r) \<and> has_own_link X eng m)"
| commits: "moves X eng others s w (s\<lparr>se_outcome := oc, se_phase := Idle\<rparr>) w'"
    if "se_phase s = Sending d deg n [] mf df" "calm w w'" "digests w' = set_row (dr_id d) f (digests w)"
      "\<And>r. dg_id (f r) = dg_id r" "\<And>r. \<not> is_due (date_naive (se_now s)) (f r)" "mails w' = mails w"
| undoes: "moves X eng others s w (s\<lparr>se_outcome := oc, se_phase := p\<rparr>) w'"
    if "held (se_phase s) = [i]" "calm w w'" "digests w' = digests w"
      "mails w' = mails w @ new"
      "new = [] \<or> (\<exists>m u. new = [m] \<and> mail_pair m = (i, u) \<and> u \<in> awaiting (se_phase s) \<and> has_own_link X eng m)"
      "(p = Idle \<and> isolations i w < isolations i w') \<or> (\<exists>r. p = Ended r (Some i) \<and> r \<noteq> Ok ())"
| rests: "moves X eng others s w s w"
    if "se_phase s = Ended r i"

inductive_cases movesE: "moves X eng others s w s' w'"

section \<open>Every step is a move\<close>

lemma calm_write: "calm w w' \<Longrightarrow> calm w (write_audit ev w')"
  by (rule batch_stableD(3) [OF calm_stable])

lemma calm_rollback: "calm w w' \<Longrightarrow> world_ok w \<Longrightarrow> calm w (rollback_to (digests w) w')"
  by (simp add: calm_def rest_view_def rollback_to_def isolations_def world_ok_def)

lemma tx_cases:
  obtains (fault) e fs where "tx_statement w = (Err (Db e), w\<lparr>sql_faults := fs\<rparr>)"
  | (run) fs where "tx_statement w = (Ok (), w\<lparr>sql_faults := fs\<rparr>)"
  using select_cases [of "\<lambda>_. ()" w] unfolding tx_statement_def by blast

lemma claim_moves: "se_phase s = Idle \<Longrightarrow> claim_step others s w = (s', w') \<Longrightarrow> moves X eng others s w s' w'"
proof -
  assume idle: "se_phase s = Idle" and step: "claim_step others s w = (s', w')"
  let ?w = "w\<lparr>row_locks := row_locks w @ others\<rparr>"
  have undo: "?w\<lparr>sql_faults := fs\<rparr>\<lparr>row_locks := row_locks w\<rparr> = w\<lparr>sql_faults := fs\<rparr>" for fs
    by (cases w) simp
  show ?thesis
  proof (cases rule: claim_phase [of "date_naive (se_now s)" "se_processed s" ?w])
    case (fault e fs)
    with step undo idle show ?thesis by (auto simp: claim_step_def intro: moves.finish)
  next
    case (none fs)
    with step undo idle show ?thesis by (auto simp: claim_step_def intro: moves.finish)
  next
    case (some r rs fs)
    have "moves X eng others s w (s\<lparr>se_processed := se_processed s @ [dg_id r],
        se_outcome := (se_outcome s)\<lparr>so_claimed := so_claimed (se_outcome s) + 1\<rparr>,
        se_phase := Claimed (read_row r)\<rparr>) (w\<lparr>sql_faults := fs\<rparr>)"
      by (rule moves.claims [OF idle some(2)])
    with step some(1) undo show ?thesis by (simp add: claim_step_def)
  qed
qed

lemma isolate_moves:
  assumes "held (se_phase s) = [i]" "calm w w1" "digests w1 = digests w" "mails w1 = mails w @ new"
    and "new = [] \<or> (\<exists>m u. new = [m] \<and> mail_pair m = (i, u) \<and> u \<in> awaiting (se_phase s) \<and> has_own_link X eng m)"
    and "isolate_step i (s\<lparr>se_outcome := oc\<rparr>) w1 = (s', w')"
  shows "moves X eng others s w s' w'"
proof (cases rule: tx_cases [of w1])
  case (fault e fs)
  with assms show ?thesis
    by (auto simp: isolate_step_def intro!: moves.undoes [OF assms(1)])
next
  case (run fs)
  have "isolations i w < isolations i (write_audit (DigestSendIsolated i) (w1\<lparr>sql_faults := fs\<rparr>))"
    using assms(2) by (simp add: calm_def isolations_def le_imp_less_Suc)
  with run assms show ?thesis
    by (auto simp: isolate_step_def intro!: moves.undoes [OF assms(1)] calm_write)
qed

lemma batch_step_moves:
  assumes "held (se_phase s) = [i]" "world_ok w" "m (se_outcome s) w = (r, oc, w1)" "calm w w1"
    and "mails w1 = mails w @ new"
    and "new = [] \<or> (\<exists>m u. new = [m] \<and> mail_pair m = (i, u) \<and> u \<in> awaiting (se_phase s) \<and> has_own_link X eng m)"
    and "batch_step i m k s w = (s', w')"
    and "\<And>a. r = Ok a \<Longrightarrow> k a (s\<lparr>se_outcome := oc\<rparr>) w1 = (s', w') \<Longrightarrow> moves X eng others s w s' w'"
  shows "moves X eng others s w s' w'"
proof -
  note c = calm_rollback [OF assms(4,2)]
  have d: "digests (rollback_to (digests w) w1) = digests w" "mails (rollback_to (digests w) w1) = mails w @ new"
    using assms(5) by (simp_all add: rollback_to_def)
  show ?thesis
  proof (cases r)
    case (Ok a)
    with assms(3,7,8) show ?thesis by (simp add: batch_step_def)
  next
    case (Err e)
    with assms(3,7) have "isolate_step i (s\<lparr>se_outcome := oc\<rparr>) (rollback_to (digests w) w1) = (s', w')"
      by (simp add: batch_step_def)
    then show ?thesis by (rule isolate_moves [OF assms(1) c d assms(6)])
  next
    case Panic
    with assms(3,7) have "s' = s\<lparr>se_outcome := oc, se_phase := Ended Panic (Some i)\<rparr>"
      "w' = rollback_to (digests w) w1"
      by (simp_all add: batch_step_def)
    then show ?thesis using moves.undoes [OF assms(1) c d assms(6)] by simp
  qed
qed

lemma prepare_preserves:
  assumes "\<And>w fs. P w \<Longrightarrow> P (w\<lparr>sql_faults := fs\<rparr>)" "\<And>w ev. P w \<Longrightarrow> P (write_audit ev w)"
  shows "sweep_preserves P (prepare X eng d now)"
proof -
  have r: "preserves P m" if "reads_only m" for m :: "'x io"
    by (rule reads_only_preserves [OF that]) (rule assms(1))
  have l: "preserves P (log_event ev)" for ev
    using assms(2) by (simp add: preserves_def log_event_def)
  show ?thesis
    unfolding prepare_def active_recipients_def slowdown_check_def
    by (intro sweep_preserves_bind sweep_preserves_run_io r [OF reads_only_select] r [OF reads_only_expect])
      (auto intro!: l split: sum.split bool.split)
qed

lemma prepare_Ok:
  assumes "prepare X eng d now oc w = (Ok (rs, deg), oc', w')"
  shows "rs = recipients_of (dr_id d) w"
  using assms unfolding prepare_def
  by (elim run_io_bind_Ok) (auto simp: run_io_Ok return_def dest: active_recipients_Ok)

lemma send_one_frame:
  assumes "mail_seam (en_mail_seam eng)" "world_ok w"
    and "send_all X eng clock d now [r] mf df oc w = (res, oc', w')"
  shows "calm w w'" "digests w' = digests w"
    and "\<exists>new. mails w' = mails w @ new \<and>
      (new = [] \<or> (\<exists>m. new = [m] \<and> mail_pair m = (dr_id d, rr_user_id r) \<and> has_own_link X eng m))"
proof -
  have st: "delivery_stable (calm w)" using calm_stable by (simp add: batch_stable_def)
  show "calm w w'"
    using send_all_preserves [OF assms(1) st calm_refl [OF assms(2)], of X clock d now "[r]" mf df oc]
      assms(3) by simp
  show "digests w' = digests w"
    using send_all_preserves [OF assms(1) schedule_view_stable [of "schedule_view w"] refl, of X clock d now "[r]" mf df oc]
      assms(3) by (simp add: schedule_view_def)
  obtain a w1 where s: "send_to_recipient X eng (clock (dr_id d) (rr_user_id r)) d r now w = (a, w1)"
    by (cases "send_to_recipient X eng (clock (dr_id d) (rr_user_id r)) d r now w") auto
  have "w' = w1"
    using assms(3) s by (cases a) (auto split: digest_error.splits prod.splits)
  with s show "\<exists>new. mails w' = mails w @ new \<and>
      (new = [] \<or> (\<exists>m. new = [m] \<and> mail_pair m = (dr_id d, rr_user_id r) \<and> has_own_link X eng m))"
    by (cases rule: send_to_recipient_mails [OF assms(1), of X "clock (dr_id d) (rr_user_id r)" d r now w]) auto
qed

lemma decide_preserves: "row_stable P \<Longrightarrow> sweep_preserves P (decide X d deg n now mf df)"
  unfolding decide_def using retry_tomorrow_preserves advance_digest_preserves by simp

lemma decide_frame:
  assumes "world_ok w" "decide X d deg n now mf df oc w = (r, oc', w')"
  shows "calm w w'" "mails w' = mails w"
proof -
  have c: "row_stable (calm w)" by (rule batch_stable_row [OF calm_stable])
  show "calm w w'"
    by (rule sweep_preservesD [OF decide_preserves [OF c] calm_refl [OF assms(1)] assms(2)])
  have m: "row_stable (\<lambda>w'. mails w' = mails w)" by (simp add: row_stable_def)
  show "mails w' = mails w"
    by (rule sweep_preservesD [OF decide_preserves [OF m] refl assms(2)])
qed

text \<open>Either way the row is due on a later day.\<close>

lemma decide_Ok:
  assumes "decide X d deg n now mf df oc w = (Ok (), oc', w')" and c: "chrono_calendar (cal X)"
    and t: "date_min (cal X) \<le> date_naive now" "date_naive now \<le> date_max (cal X)"
  obtains f where "digests w' = set_row (dr_id d) f (digests w)" "\<And>r. dg_id (f r) = dg_id r"
    "\<And>r. \<not> is_due (date_naive now) (f r)"
proof (cases "mf \<or> df \<noteq> None")
  case True
  then have "retry_tomorrow X d now mf oc w = (Ok (), oc', w')" using assms(1) by (simp add: decide_def)
  then show ?thesis
  proof (rule retry_tomorrow_Ok)
    fix v
    assume "plus_days (cal X) (date_naive now) 1 = Some v"
      and D: "digests w' = set_row (dr_id d) (\<lambda>r. r\<lparr>dg_next_run_date := Some v\<rparr>) (digests w)"
    then have "date_naive now < v" by (simp add: plus_days_def split: if_splits)
    with D show ?thesis by (intro that [of "\<lambda>r. r\<lparr>dg_next_run_date := Some v\<rparr>"]) (auto simp: is_due_def)
  qed
next
  case False
  then have "advance_digest X d deg n now oc w = (Ok (), oc', w')" using assms(1) by (simp add: decide_def)
  then show ?thesis
  proof (rule advance_digest_Ok)
    fix v
    assume "advance (cal X) (case deg of None \<Rightarrow> dr_periodicity d | Some q \<Rightarrow> q) (date_naive now) = Some v"
      and D: "digests w' = set_row (dr_id d) (\<lambda>r. (degraded_row deg r)\<lparr>dg_next_run_date := Some v\<rparr>) (digests w)"
    then have "date_naive now < v" by (intro chrono_calendar.advance_forward [OF c t])
    with D show ?thesis
      by (intro that [of "\<lambda>r. (degraded_row deg r)\<lparr>dg_next_run_date := Some v\<rparr>"]) (auto simp: is_due_def)
  qed
qed

definition same_day :: "externals \<Rightarrow> date \<Rightarrow> bool" where
  "same_day X t \<longleftrightarrow> chrono_calendar (cal X) \<and> date_min (cal X) \<le> t \<and> t \<le> date_max (cal X)"

lemma decide_moves:
  assumes p: "se_phase s = Sending d deg n [] mf df" and ok: "world_ok w" and t: "same_day X (date_naive (se_now s))"
    and step: "session_step X eng others s w = (s', w')"
  shows "moves X eng others s w s' w'"
proof -
  obtain r oc w1 where m: "decide X d deg n (se_now s) mf df (se_outcome s) w = (r, oc, w1)"
    by (cases "decide X d deg n (se_now s) mf df (se_outcome s) w") auto
  note frame = decide_frame [OF ok m]
  have h: "held (se_phase s) = [dr_id d]" by (simp add: p)
  have b: "batch_step (dr_id d) (decide X d deg n (se_now s) mf df) (\<lambda>_. commit_step (dr_id d) (digests w)) s w = (s', w')"
    using step by (simp add: session_step_def p)
  show ?thesis
  proof (rule batch_step_moves [OF h ok m frame(1) _ _ b, of "[]"])
    fix a
    assume r: "r = Ok a" and k: "commit_step (dr_id d) (digests w) (s\<lparr>se_outcome := oc\<rparr>) w1 = (s', w')"
    have okm: "decide X d deg n (se_now s) mf df (se_outcome s) w = (Ok (), oc, w1)" using m r by simp
    obtain f where f: "digests w1 = set_row (dr_id d) f (digests w)" "\<And>r. dg_id (f r) = dg_id r"
      "\<And>r. \<not> is_due (date_naive (se_now s)) (f r)"
      using decide_Ok [OF okm] t by (auto simp: same_day_def)
    show "moves X eng others s w s' w'"
    proof (cases rule: tx_cases [of w1])
      case (fault e fs)
      let ?w = "rollback_to (digests w) (w1\<lparr>sql_faults := fs\<rparr>)"
      have "calm w ?w" by (rule calm_rollback [OF _ ok]) (simp add: frame(1))
      moreover have "digests ?w = digests w" "mails ?w = mails w @ []"
        using frame(2) by (simp_all add: rollback_to_def)
      ultimately have e: "calm w ?w" "digests ?w = digests w" "mails ?w = mails w @ []" by blast+
      have "s' = s\<lparr>se_outcome := oc, se_phase := Ended (Err (Db e)) (Some (dr_id d))\<rparr>" "w' = ?w"
        using fault k by (auto simp: commit_step_def)
      then show ?thesis by (simp add: moves.undoes [OF h e])
    next
      case (run fs)
      have "calm w (w1\<lparr>sql_faults := fs\<rparr>)" "digests (w1\<lparr>sql_faults := fs\<rparr>) = set_row (dr_id d) f (digests w)"
        "mails (w1\<lparr>sql_faults := fs\<rparr>) = mails w"
        using frame f(1) by simp_all
      moreover have "s' = s\<lparr>se_outcome := oc, se_phase := Idle\<rparr>" "w' = w1\<lparr>sql_faults := fs\<rparr>"
        using run k by (simp_all add: commit_step_def)
      ultimately show ?thesis using moves.commits [OF p _ _ f(2,3)] by simp
    qed
  qed (use frame in simp_all)
qed

theorem session_step_moves:
  assumes seam: "mail_seam (en_mail_seam eng)" and ok: "world_ok w" and t: "same_day X (date_naive (se_now s))"
    and step: "session_step X eng others s w = (s', w')"
  shows "moves X eng others s w s' w'"
proof (cases "se_phase s")
  case Idle
  with step show ?thesis by (auto simp: session_step_def intro: claim_moves)
next
  case (Claimed d)
  obtain r oc w1 where m: "prepare X eng d (se_now s) (se_outcome s) w = (r, oc, w1)"
    by (cases "prepare X eng d (se_now s) (se_outcome s) w") auto
  have "sweep_preserves (calm w) (prepare X eng d (se_now s))"
    by (rule prepare_preserves) (auto intro: calm_write)
  from sweep_preservesD [OF this calm_refl [OF ok] m] have c: "calm w w1" .
  have "sweep_preserves (\<lambda>v. digests v = digests w \<and> mails v = mails w) (prepare X eng d (se_now s))"
    by (rule prepare_preserves) auto
  from sweep_preservesD [OF this _ m] have f: "digests w1 = digests w \<and> mails w1 = mails w" by simp
  have h: "held (se_phase s) = [dr_id d]" by (simp add: Claimed)
  have b: "batch_step (dr_id d) (prepare X eng d (se_now s)) (\<lambda>(rs, deg) s' w'.
      (s'\<lparr>se_phase := Sending d deg (length rs) rs False None\<rparr>, w')) s w = (s', w')"
    using step by (simp add: session_step_def Claimed)
  show ?thesis
  proof (rule batch_step_moves [OF h ok m c _ _ b, of "[]"])
    fix a
    assume r: "r = Ok a" and k: "(case a of (rs, deg) \<Rightarrow> \<lambda>s' w'.
        (s'\<lparr>se_phase := Sending d deg (length rs) rs False None\<rparr>, w')) (s\<lparr>se_outcome := oc\<rparr>) w1 = (s', w')"
    obtain rs deg where a: "a = (rs, deg)" by (cases a)
    have "rs = recipients_of (dr_id d) w" using prepare_Ok m r a by simp
    with k a moves.prepares [OF Claimed c] f show "moves X eng others s w s' w'" by auto
  qed (use f in simp_all)
next
  case (Sending d deg n rs mf df)
  show ?thesis
  proof (cases rs)
    case Nil
    with Sending show ?thesis by (intro decide_moves [OF _ ok t step]) simp
  next
    case (Cons x xs)
    obtain r oc w1 where m: "send_all X eng (se_clock s) d (se_now s) [x] mf df (se_outcome s) w = (r, oc, w1)"
      by (cases "send_all X eng (se_clock s) d (se_now s) [x] mf df (se_outcome s) w") auto
    note frame = send_one_frame [OF seam ok m]
    obtain new where new: "mails w1 = mails w @ new"
      "new = [] \<or> (\<exists>m. new = [m] \<and> mail_pair m = (dr_id d, rr_user_id x) \<and> has_own_link X eng m)"
      using frame(3) by blast
    have p: "se_phase s = Sending d deg n (x # xs) mf df" using Sending Cons by simp
    have h: "held (se_phase s) = [dr_id d]" by (simp add: p)
    have q: "new = [] \<or> (\<exists>m u. new = [m] \<and> mail_pair m = (dr_id d, u) \<and> u \<in> awaiting (se_phase s) \<and> has_own_link X eng m)"
      using new(2) by (auto simp: p)
    have b: "batch_step (dr_id d) (send_all X eng (se_clock s) d (se_now s) [x] mf df) (\<lambda>(mf', df') s' w'.
        (s'\<lparr>se_phase := Sending d deg n xs mf' df'\<rparr>, w')) s w = (s', w')"
      using step by (simp add: session_step_def p)
    show ?thesis
    proof (rule batch_step_moves [OF h ok m frame(1) new(1) q b])
      fix a
      assume "r = Ok a" and k: "(case a of (mf', df') \<Rightarrow> \<lambda>s' w'.
          (s'\<lparr>se_phase := Sending d deg n xs mf' df'\<rparr>, w')) (s\<lparr>se_outcome := oc\<rparr>) w1 = (s', w')"
      obtain mf' df' where a: "a = (mf', df')" by (cases a)
      with k moves.sends [OF p frame(1,2) new] show "moves X eng others s w s' w'" by auto
    qed
  qed
next
  case (Ended r i)
  with step show ?thesis by (auto simp: session_step_def intro: moves.rests)
qed

end
