(* ===== verification/Replica_Properties.thy ===== *)
theory Replica_Properties
  imports Replicas
begin

text \<open>
  What concurrent sweeps guarantee together. The invariant of a run on one day speaks about the
  sessions \<open>ss\<close> and the world: no digest is held twice, the mails of a pair are paid for by one
  batch that counts plus those rolled back, and a digest some session is done with is settled,
  held, or was rolled back. It is kept by every move of a session, hence along every schedule.
\<close>

section \<open>The invariant\<close>

definition holding :: "session list \<Rightarrow> uuid list" where
  "holding ss = concat (map (held \<circ> se_phase) ss)"

definition deaths :: "uuid \<Rightarrow> session list \<Rightarrow> nat" where
  "deaths d ss = sum_list (map (died_in d \<circ> se_phase) ss)"

definition due_now :: "date \<Rightarrow> world \<Rightarrow> uuid \<Rightarrow> bool" where
  "due_now t w d \<longleftrightarrow> (\<exists>r \<in> set (digests w). dg_id r = d \<and> is_due t r)"

definition mail_count :: "uuid \<times> uuid \<Rightarrow> outgoing_mail list \<Rightarrow> nat" where
  "mail_count p ms = count_list (map mail_pair ms) p"

text \<open>The mail that a batch not rolled back may have sent to \<open>u\<close>.\<close>

definition quota :: "date \<Rightarrow> world \<Rightarrow> session list \<Rightarrow> uuid \<Rightarrow> uuid \<Rightarrow> nat" where
  "quota t w ss d u =
     (if (\<exists>s \<in> set ss. d \<in> set (held (se_phase s)) \<and> pending (se_phase s) u) \<or> (due_now t w d \<and> d \<notin> set (holding ss))
      then 0 else 1)"

definition paid :: "date \<Rightarrow> world \<Rightarrow> world \<Rightarrow> session list \<Rightarrow> outgoing_mail list \<Rightarrow> bool" where
  "paid t w0 w ss new \<longleftrightarrow>
     (\<forall>d u. mail_count (d, u) new + isolations d w0 \<le> isolations d w + deaths d ss + quota t w ss d u)"

definition cleared :: "date \<Rightarrow> world \<Rightarrow> world \<Rightarrow> session list \<Rightarrow> uuid \<Rightarrow> bool" where
  "cleared t w0 w ss d \<longleftrightarrow>
     (due_now t w d \<longrightarrow> d \<in> set (row_locks w0) \<or> d \<in> set (holding ss) \<or> isolations d w0 < isolations d w + deaths d ss)"

definition addressed :: "world \<Rightarrow> phase \<Rightarrow> bool" where
  "addressed w0 p \<longleftrightarrow>
     (case p of
        Sending d deg n rs mf df \<Rightarrow>
          distinct (map rr_user_id rs) \<and> (\<forall>r \<in> set rs. (dr_id d, rr_user_id r) \<in> active_pairs w0)
      | _ \<Rightarrow> True)"

definition session_ok :: "date \<Rightarrow> world \<Rightarrow> world \<Rightarrow> session list \<Rightarrow> session \<Rightarrow> bool" where
  "session_ok t w0 w ss s \<longleftrightarrow>
     date_naive (se_now s) = t \<and> addressed w0 (se_phase s) \<and>
     (\<forall>d \<in> set (se_processed s). cleared t w0 w ss d) \<and>
     (se_phase s = Ended (Ok ()) None \<longrightarrow> (\<forall>d. cleared t w0 w ss d))"

definition replicas_inv :: "externals \<Rightarrow> engine \<Rightarrow> date \<Rightarrow> world \<Rightarrow> world \<Rightarrow> session list \<Rightarrow> bool" where
  "replicas_inv X eng t w0 w ss \<longleftrightarrow>
     calm w0 w \<and> distinct (holding ss) \<and> (\<forall>s \<in> set ss. session_ok t w0 w ss s) \<and>
     (\<exists>new. mails w = mails w0 @ new \<and> (\<forall>m \<in> set new. mail_pair m \<in> active_pairs w0 \<and> has_own_link X eng m) \<and>
        paid t w0 w ss new)"

section \<open>One move\<close>

lemma holding_mid: "set (holding (A @ s # B)) = set (held (se_phase s)) \<union> set (holding (A @ B))"
  by (auto simp: holding_def)

lemma distinct_holding_mid:
  "distinct (holding (A @ s # B)) \<longleftrightarrow>
     distinct (held (se_phase s)) \<and> distinct (holding (A @ B)) \<and> set (held (se_phase s)) \<inter> set (holding (A @ B)) = {}"
  by (auto simp: holding_def)

lemma deaths_mid: "deaths d (A @ s # B) = died_in d (se_phase s) + deaths d (A @ B)"
  by (simp add: deaths_def)

lemma held_distinct [simp]: "distinct (held p)"
  by (cases p) simp_all

lemma died_none: "held p \<noteq> [] \<or> p = Idle \<Longrightarrow> died_in d p = 0"
  by (cases p) auto

lemma cleared_mid:
  assumes "cleared t w0 w (A @ s # B) d" "due_now t w' d \<Longrightarrow> due_now t w d" "isolations d w \<le> isolations d w'"
    and "died_in d (se_phase s) \<le> died_in d (se_phase s')"
    and "d \<in> set (held (se_phase s)) \<Longrightarrow> due_now t w' d \<Longrightarrow>
      d \<in> set (held (se_phase s')) \<or> isolations d w0 < isolations d w' + deaths d (A @ s' # B)"
  shows "cleared t w0 w' (A @ s' # B) d"
proof -
  have "isolations d w0 < isolations d w + deaths d (A @ s # B) \<longrightarrow>
      isolations d w0 < isolations d w' + deaths d (A @ s' # B)"
    using assms(3,4) by (simp add: deaths_mid)
  with assms(1,2,5) show ?thesis unfolding cleared_def holding_mid by blast
qed

lemma mail_count_append [simp]: "mail_count p (ms @ ns) = mail_count p ms + mail_count p ns"
  by (simp add: mail_count_def)

lemma mail_count_one [simp]: "mail_count p [m] = (if mail_pair m = p then 1 else 0)"
  "mail_count p [] = 0"
  by (simp_all add: mail_count_def)

lemma due_now_cong: "digests w' = digests w \<Longrightarrow> due_now t w' d = due_now t w d"
  by (simp add: due_now_def)

text \<open>The quota of a digest the session does not hold is not its business.\<close>

lemma quota_other:
  assumes "due_now t w' d = due_now t w d" "d \<notin> set (held (se_phase s))" "d \<notin> set (held (se_phase s'))"
  shows "quota t w' (A @ s' # B) d u = quota t w (A @ s # B) d u"
  using assms by (simp add: quota_def holding_mid)

lemma quota_held:
  assumes "d \<in> set (held (se_phase s))" "d \<notin> set (holding (A @ B))"
  shows "quota t w (A @ s # B) d u = (if pending (se_phase s) u then 0 else 1)"
proof -
  have "\<not> (\<exists>x \<in> set (A @ B). d \<in> set (held (se_phase x)) \<and> pending (se_phase x) u)"
    using assms(2) by (auto simp: holding_def)
  with assms show ?thesis by (auto simp: quota_def holding_mid)
qed

lemma quota_free:
  assumes "d \<notin> set (holding ss)"
  shows "quota t w ss d u = (if due_now t w d then 0 else 1)"
proof -
  have "\<not> (\<exists>x \<in> set ss. d \<in> set (held (se_phase x)) \<and> pending (se_phase x) u)"
    using assms by (auto simp: holding_def)
  with assms show ?thesis by (auto simp: quota_def)
qed

lemma quota_le [simp]: "quota t w ss d u \<le> Suc 0"
  by (simp add: quota_def)

lemma awaiting_pending: "u \<in> awaiting p \<Longrightarrow> pending p u"
  by (cases p) auto

lemma paid_mono:
  assumes "paid t w0 w ss new" "\<And>d. isolations d w + deaths d ss \<le> isolations d w' + deaths d ss'"
    and "\<And>d u. quota t w ss d u + mail_count (d, u) ms \<le> quota t w' ss' d u \<or>
      (isolations d w + deaths d ss < isolations d w' + deaths d ss' \<and>
       quota t w ss d u + mail_count (d, u) ms \<le> Suc (quota t w' ss' d u))"
  shows "paid t w0 w' ss' (new @ ms)"
  unfolding paid_def
proof (intro allI)
  fix d u
  have "mail_count (d, u) new + isolations d w0 \<le> isolations d w + deaths d ss + quota t w ss d u"
    using assms(1) by (simp add: paid_def)
  with assms(2) [of d] assms(3) [of d u]
  show "mail_count (d, u) (new @ ms) + isolations d w0 \<le> isolations d w' + deaths d ss' + quota t w' ss' d u"
    by auto
qed

lemma moves_paid:
  assumes p: "paid t w0 w (A @ s # B) new" and h: "distinct (holding (A @ s # B))"
    and a: "addressed w0 (se_phase s)" and t: "date_naive (se_now s) = t"
    and mv: "moves X eng (holding (A @ B)) s w s' w'"
  shows "\<exists>ms. mails w' = mails w @ ms \<and>
    (\<forall>m \<in> set ms. mail_pair m \<in> active_pairs w0 \<and> has_own_link X eng m) \<and> paid t w0 w' (A @ s' # B) (new @ ms)"
proof -
  have free: "d \<notin> set (holding (A @ B))" if "d \<in> set (held (se_phase s))" for d
    using h that by (auto simp: distinct_holding_mid)
  from mv show ?thesis
  proof cases
    case (finish r fs)
    have "paid t w0 w' (A @ s' # B) (new @ [])"
      by (rule paid_mono [OF p])
        (use finish quota_other [of t w' _ w s s' A B] in \<open>simp_all add: deaths_mid due_now_def\<close>)
    then show ?thesis by (intro exI [of _ "[]"]) (simp add: finish)
  next
    case (claims r oc fs rs)
    note q = due_queue_head [OF claims(4)]
    have "paid t w0 w' (A @ s' # B) (new @ [])"
    proof (rule paid_mono [OF p])
      fix d u
      show "quota t w (A @ s # B) d u + mail_count (d, u) [] \<le> quota t w' (A @ s' # B) d u \<or>
        (isolations d w + deaths d (A @ s # B) < isolations d w' + deaths d (A @ s' # B) \<and>
         quota t w (A @ s # B) d u + mail_count (d, u) [] \<le> Suc (quota t w' (A @ s' # B) d u))"
      proof (cases "d = dg_id r")
        case True
        have "d \<notin> set (holding (A @ s # B))" using q(4) claims(3) True by (simp add: holding_mid)
        moreover have "due_now t w d" using q(1,2) t True by (auto simp: due_now_def)
        ultimately show ?thesis by (simp add: quota_free)
      next
        case False
        with claims quota_other [of t w' d w s s' A B] show ?thesis by (simp add: due_now_def)
      qed
    qed (simp add: claims deaths_mid)
    then show ?thesis by (intro exI [of _ "[]"]) (simp add: claims)
  next
    case (prepares d oc deg n)
    have "paid t w0 w' (A @ s' # B) (new @ [])"
    proof (rule paid_mono [OF p])
      fix i u
      show "quota t w (A @ s # B) i u + mail_count (i, u) [] \<le> quota t w' (A @ s' # B) i u \<or>
        (isolations i w + deaths i (A @ s # B) < isolations i w' + deaths i (A @ s' # B) \<and>
         quota t w (A @ s # B) i u + mail_count (i, u) [] \<le> Suc (quota t w' (A @ s' # B) i u))"
        using free [of i] quota_other [of t w' i w s s' A B] prepares
        by (cases "i = dr_id d") (simp_all add: quota_held due_now_def)
    qed (use prepares in \<open>simp add: deaths_mid calm_def\<close>)
    then show ?thesis by (intro exI [of _ "[]"]) (simp add: prepares)
  next
    case (sends d deg n r rs mf df ms oc mf' df')
    have r: "rr_user_id r \<notin> rr_user_id ` set rs" "(dr_id d, rr_user_id r) \<in> active_pairs w0"
      using a sends(2) by (simp_all add: addressed_def)
    have "paid t w0 w' (A @ s' # B) (new @ ms)"
    proof (rule paid_mono [OF p])
      fix i u
      show "quota t w (A @ s # B) i u + mail_count (i, u) ms \<le> quota t w' (A @ s' # B) i u \<or>
        (isolations i w + deaths i (A @ s # B) < isolations i w' + deaths i (A @ s' # B) \<and>
         quota t w (A @ s # B) i u + mail_count (i, u) ms \<le> Suc (quota t w' (A @ s' # B) i u))"
        using free [of i] quota_other [of t w' i w s s' A B] sends r(1)
        by (cases "i = dr_id d") (auto simp: quota_held due_now_def)
    qed (use sends in \<open>simp add: deaths_mid calm_def\<close>)
    moreover have "\<forall>m \<in> set ms. mail_pair m \<in> active_pairs w0 \<and> has_own_link X eng m"
      using sends(6) r(2) by auto
    ultimately show ?thesis using sends(5) by blast
  next
    case (commits d deg n mf df f oc)
    have due: "due_now t w' i = (i \<noteq> dr_id d \<and> due_now t w i)" for i
      using commits t unfolding due_now_def set_row_def by fastforce
    have "paid t w0 w' (A @ s' # B) (new @ [])"
    proof (rule paid_mono [OF p])
      fix i u
      show "quota t w (A @ s # B) i u + mail_count (i, u) [] \<le> quota t w' (A @ s' # B) i u \<or>
        (isolations i w + deaths i (A @ s # B) < isolations i w' + deaths i (A @ s' # B) \<and>
         quota t w (A @ s # B) i u + mail_count (i, u) [] \<le> Suc (quota t w' (A @ s' # B) i u))"
      proof (cases "i = dr_id d")
        case True
        with free [of i] commits due have "quota t w' (A @ s' # B) i u = 1"
          by (subst quota_free) (simp_all add: holding_mid)
        then show ?thesis by simp
      next
        case False
        with quota_other [of t w' i w s s' A B] commits due show ?thesis by simp
      qed
    qed (use commits in \<open>simp add: deaths_mid calm_def\<close>)
    then show ?thesis by (intro exI [of _ "[]"]) (simp add: commits)
  next
    case (undoes i ms oc p')
    have free_i: "i \<notin> set (holding (A @ B))" using free [of i] undoes(2) by simp
    have held': "held (se_phase s') = []" using undoes(1,7) by auto
    have dd: "died_in d (se_phase s) = 0" for d using undoes(2) by (intro died_none) simp
    have more_undone: "isolations i w + deaths i (A @ s # B) < isolations i w' + deaths i (A @ s' # B)"
      using undoes(1,3,7) dd by (auto simp: deaths_mid calm_def le_imp_less_Suc)
    have "paid t w0 w' (A @ s' # B) (new @ ms)"
    proof (rule paid_mono [OF p])
      fix d
      show "isolations d w + deaths d (A @ s # B) \<le> isolations d w' + deaths d (A @ s' # B)"
        using undoes(3) dd by (simp add: deaths_mid calm_def trans_le_add1 add_mono)
    next
      fix d u
      show "quota t w (A @ s # B) d u + mail_count (d, u) ms \<le> quota t w' (A @ s' # B) d u \<or>
        (isolations d w + deaths d (A @ s # B) < isolations d w' + deaths d (A @ s' # B) \<and>
         quota t w (A @ s # B) d u + mail_count (d, u) ms \<le> Suc (quota t w' (A @ s' # B) d u))"
      proof (cases "d = i")
        case True
        have "quota t w (A @ s # B) i u + mail_count (i, u) ms \<le> 1"
          using undoes(6) quota_held [of i s A B t w u] undoes(2) free_i
          by (auto dest: awaiting_pending)
        with more_undone True show ?thesis by simp
      next
        case False
        then have "mail_count (d, u) ms = 0" using undoes(6) by auto
        with False quota_other [of t w' d w s s' A B] undoes(2,4) held' show ?thesis by (simp add: due_now_def)
      qed
    qed
    moreover have "\<forall>m \<in> set ms. mail_pair m \<in> active_pairs w0 \<and> has_own_link X eng m"
      using undoes(2,6) a by (cases "se_phase s") (auto simp: addressed_def)
    ultimately show ?thesis using undoes(5) by blast
  next
    case (rests r i)
    with p show ?thesis by (intro exI [of _ "[]"]) simp
  qed
qed

text \<open>What is settled, held or rolled back stays so.\<close>

lemma moves_cleared:
  assumes c: "cleared t w0 w (A @ s # B) d" and w0: "calm w0 w" and t: "date_naive (se_now s) = t"
    and mv: "moves X eng (holding (A @ B)) s w s' w'"
  shows "cleared t w0 w' (A @ s' # B) d"
  using mv
proof cases
  case (finish r fs)
  then show ?thesis by (intro cleared_mid [OF c]) (simp_all add: due_now_def)
next
  case (claims r oc fs rs)
  then show ?thesis by (intro cleared_mid [OF c]) (simp_all add: due_now_def)
next
  case (prepares d oc deg n)
  then show ?thesis by (intro cleared_mid [OF c]) (simp_all add: due_now_def calm_def)
next
  case (sends d deg n r rs mf df ms oc mf' df')
  then show ?thesis by (intro cleared_mid [OF c]) (simp_all add: due_now_def calm_def)
next
  case (commits i deg n mf df f oc)
  have due: "due_now t w' j = (j \<noteq> dr_id i \<and> due_now t w j)" for j
    using commits t unfolding due_now_def set_row_def by fastforce
  from commits show ?thesis by (intro cleared_mid [OF c]) (simp_all add: due calm_def)
next
  case (undoes i ms oc p)
  have dd: "died_in j (se_phase s) = 0" for j using undoes(2) by (intro died_none) simp
  have "isolations i w0 \<le> isolations i w" "isolations i w \<le> isolations i w'"
    using w0 undoes(3) by (simp_all add: calm_def)
  with undoes(1,7) have more_undone: "isolations i w0 < isolations i w' + deaths i (A @ s' # B)"
    by (auto simp: deaths_mid)
  show ?thesis
    by (rule cleared_mid [OF c]) (use undoes(2,3,4) dd more_undone in \<open>simp_all add: due_now_def calm_def\<close>)
next
  case (rests r i)
  with c show ?thesis by simp
qed

text \<open>A session that found nothing to claim has every due digest accounted for.\<close>

lemma drained_cleared:
  assumes "due_queue t p (w\<lparr>row_locks := row_locks w @ holding (A @ B)\<rparr>) = []"
    and "\<forall>d \<in> set p. cleared t w0 w (A @ s # B) d" "row_locks w = row_locks w0"
  shows "cleared t w0 w (A @ s # B) d"
proof (cases "due_now t w d")
  case True
  then obtain r where r: "r \<in> set (digests w)" "dg_id r = d" "is_due t r" by (auto simp: due_now_def)
  then have "d \<in> set p \<or> d \<in> set (row_locks w) \<or> d \<in> set (holding (A @ B))"
    using assms(1) by (auto simp: due_queue_def filter_empty_conv)
  with assms(2,3) show ?thesis by (auto simp: cleared_def holding_mid)
qed (simp add: cleared_def)

lemma moves_session:
  assumes w0: "calm w0 w" and ok: "session_ok t w0 w (A @ s # B) s"
    and mv: "moves X eng (holding (A @ B)) s w s' w'"
  shows "session_ok t w0 w' (A @ s' # B) s'"
proof -
  have t: "date_naive (se_now s) = t" and ad: "addressed w0 (se_phase s)"
    and pr: "\<forall>d \<in> set (se_processed s). cleared t w0 w (A @ s # B) d"
    and en: "se_phase s = Ended (Ok ()) None \<longrightarrow> (\<forall>d. cleared t w0 w (A @ s # B) d)"
    using ok by (simp_all add: session_ok_def)
  note keep = moves_cleared [OF _ w0 t mv]
  from mv show ?thesis
  proof cases
    case (finish r fs)
    have locks: "row_locks w = row_locks w0" using w0 by (simp add: calm_def rest_view_def)
    have "r = Ok () \<Longrightarrow> cleared t w0 w (A @ s # B) d" for d
      using drained_cleared [OF _ pr locks] finish(4) t by simp
    with finish(1,2) keep pr t show ?thesis by (auto simp: session_ok_def addressed_def)
  next
    case (claims r oc fs rs)
    have "cleared t w0 w' (A @ s' # B) (dg_id r)" by (simp add: cleared_def holding_mid claims)
    with claims(1) keep pr t show ?thesis by (auto simp: session_ok_def addressed_def)
  next
    case (prepares d oc deg n)
    have "distinct (map rr_user_id (recipients_of (dr_id d) w))"
      by (rule recipients_distinct) (use w0 in \<open>simp add: calm_def\<close>)
    moreover have "active_pairs w = active_pairs w0" using w0 by (simp add: calm_def rest_view_def)
    then have "\<forall>r \<in> set (recipients_of (dr_id d) w). (dr_id d, rr_user_id r) \<in> active_pairs w0"
      using recipients_of_ids [of "dr_id d" w] by auto
    ultimately show ?thesis using prepares(1) keep pr t by (auto simp: session_ok_def addressed_def)
  next
    case (sends d deg n r rs mf df ms oc mf' df')
    with keep pr t ad show ?thesis by (auto simp: session_ok_def addressed_def)
  next
    case (commits i deg n mf df f oc)
    with keep pr t show ?thesis by (auto simp: session_ok_def addressed_def)
  next
    case (undoes i ms oc p)
    with keep pr t show ?thesis by (auto simp: session_ok_def addressed_def)
  next
    case (rests r i)
    with ok show ?thesis by simp
  qed
qed

lemma moves_inv:
  assumes inv: "replicas_inv X eng t w0 w (A @ s # B)" and mv: "moves X eng (holding (A @ B)) s w s' w'"
  shows "replicas_inv X eng t w0 w' (A @ s' # B)"
proof -
  from inv have w0: "calm w0 w" and h: "distinct (holding (A @ s # B))"
    and oks: "\<forall>x \<in> set (A @ s # B). session_ok t w0 w (A @ s # B) x" by (simp_all add: replicas_inv_def)
  obtain new where new: "mails w = mails w0 @ new" "paid t w0 w (A @ s # B) new"
    "\<forall>m \<in> set new. mail_pair m \<in> active_pairs w0 \<and> has_own_link X eng m"
    using inv by (auto simp: replicas_inv_def)
  have s: "session_ok t w0 w (A @ s # B) s" using oks by simp
  then have t: "date_naive (se_now s) = t" and ad: "addressed w0 (se_phase s)" by (simp_all add: session_ok_def)
  obtain ms where ms: "mails w' = mails w @ ms" "paid t w0 w' (A @ s' # B) (new @ ms)"
    "\<forall>m \<in> set ms. mail_pair m \<in> active_pairs w0 \<and> has_own_link X eng m"
    using moves_paid [OF new(2) h ad t mv] by blast
  have "calm w w'" if "world_ok w"
    using mv that by cases (auto intro: calm_refl)
  then have c: "calm w0 w'" using w0 unfolding calm_def by (metis le_trans)
  have "session_ok t w0 w' (A @ s' # B) x" if x: "x \<in> set A \<union> set B" for x
    using oks x moves_cleared [OF _ w0 t mv] by (auto simp: session_ok_def)
  moreover have "session_ok t w0 w' (A @ s' # B) s'" by (rule moves_session [OF w0 s mv])
  moreover have "distinct (holding (A @ s' # B))"
    using mv h by cases (auto simp: distinct_holding_mid dest!: due_queue_head(4))
  ultimately show ?thesis
    using c new(1,3) ms unfolding replicas_inv_def
    by (intro conjI exI [of _ "new @ ms"]) auto
qed

section \<open>Schedules\<close>

fun on_day :: "date \<Rightarrow> replica_event \<Rightarrow> bool" where
  "on_day t (Start now clock) = (date_naive now = t)"
| "on_day t (Step i) = True"

lemma held_by_others_mid: "held_by_others (length A) (A @ s # B) = holding (A @ B)"
  by (simp add: held_by_others_def holding_def)

lemma start_inv:
  assumes "replicas_inv X eng t w0 w ss" "date_naive now = t"
  shows "replicas_inv X eng t w0 w (ss @ [new_session now clock])"
proof -
  have h: "holding (ss @ [new_session now clock]) = holding ss"
    and d: "deaths d (ss @ [new_session now clock]) = deaths d ss" for d
    by (simp_all add: holding_def deaths_def new_session_def)
  have q: "quota t w (ss @ [new_session now clock]) d u = quota t w ss d u" for d u
    by (simp add: quota_def h) (simp add: new_session_def)
  have c: "cleared t w0 w (ss @ [new_session now clock]) d = cleared t w0 w ss d" for d
    by (simp add: cleared_def h d)
  have p: "paid t w0 w (ss @ [new_session now clock]) new = paid t w0 w ss new" for new
    by (simp add: paid_def d q)
  have n: "session_ok t w0 w (ss @ [new_session now clock]) (new_session now clock)"
    using assms(2) by (simp add: session_ok_def new_session_def addressed_def)
  have o: "session_ok t w0 w (ss @ [new_session now clock]) x = session_ok t w0 w ss x" for x
    by (simp add: session_ok_def c)
  from assms(1) n show ?thesis by (simp add: replicas_inv_def h p o)
qed

text \<open>A step event: one session of the list moves, seeing the others through what they hold.\<close>

lemma step_moves [consumes 1, case_names idle moved]:
  assumes "mail_seam (en_mail_seam eng)"
  obtains (idle) "replica_step X eng (Step i) sys = sys"
  | (moved) A s B s' w' where "re_sessions sys = A @ s # B"
      "re_sessions (replica_step X eng (Step i) sys) = A @ s' # B" "re_world (replica_step X eng (Step i) sys) = w'"
      "world_ok (re_world sys) \<Longrightarrow> same_day X (date_naive (se_now s)) \<Longrightarrow>
        moves X eng (holding (A @ B)) s (re_world sys) s' w'"
      "session_step X eng (holding (A @ B)) s (re_world sys) = (s', w')"
proof (cases "i < length (re_sessions sys)")
  case True
  let ?A = "take i (re_sessions sys)" and ?s = "re_sessions sys ! i" and ?B = "drop (Suc i) (re_sessions sys)"
  have others: "held_by_others i (re_sessions sys) = holding (?A @ ?B)"
    by (simp add: held_by_others_def holding_def)
  obtain s' w' where st: "session_step X eng (holding (?A @ ?B)) ?s (re_world sys) = (s', w')"
    by (cases "session_step X eng (holding (?A @ ?B)) ?s (re_world sys)")
  show thesis
  proof (rule moved [of ?A ?s ?B s' w'])
    show "re_sessions sys = ?A @ ?s # ?B" by (rule id_take_nth_drop [OF True])
    show "re_sessions (replica_step X eng (Step i) sys) = ?A @ s' # ?B"
      using True st others by (simp add: upd_conv_take_nth_drop)
    show "re_world (replica_step X eng (Step i) sys) = w'" using True st others by simp
    show "moves X eng (holding (?A @ ?B)) ?s (re_world sys) s' w'"
      if "world_ok (re_world sys)" "same_day X (date_naive (se_now ?s))"
      by (rule session_step_moves [OF assms that st])
  qed (rule st)
qed (use idle in simp)

lemma replica_step_inv:
  assumes "mail_seam (en_mail_seam eng)" "same_day X t" "on_day t e"
    and inv: "replicas_inv X eng t w0 (re_world sys) (re_sessions sys)"
  shows "replicas_inv X eng t w0 (re_world (replica_step X eng e sys)) (re_sessions (replica_step X eng e sys))"
proof (cases e)
  case (Start now clock)
  with start_inv [OF inv, of now clock] assms(3) show ?thesis by simp
next
  case (Step i)
  from assms(1) show ?thesis
  proof (cases rule: step_moves [where i = i and sys = sys and X = X])
    case idle
    with Step inv show ?thesis by simp
  next
    case (moved A s B s' w')
    have inv': "replicas_inv X eng t w0 (re_world sys) (A @ s # B)" using inv moved(1) by simp
    then have "world_ok (re_world sys)" "date_naive (se_now s) = t"
      by (simp_all add: replicas_inv_def calm_def session_ok_def)
    then have "moves X eng (holding (A @ B)) s (re_world sys) s' w'" using moved(4) assms(2) by simp
    from moves_inv [OF inv' this] show ?thesis using moved(2,3) Step by simp
  qed
qed

lemma run_replicas_inv:
  assumes "mail_seam (en_mail_seam eng)" "same_day X t"
  shows "list_all (on_day t) es \<Longrightarrow> replicas_inv X eng t w0 (re_world sys) (re_sessions sys) \<Longrightarrow>
    replicas_inv X eng t w0 (re_world (run_replicas X eng es sys)) (re_sessions (run_replicas X eng es sys))"
  by (induction es arbitrary: sys) (simp_all add: replica_step_inv [OF assms])

lemma quiet_start_inv:
  assumes "world_ok w"
  shows "replicas_inv X eng t w (re_world (quiet_start w)) (re_sessions (quiet_start w))"
  by (simp add: replicas_inv_def quiet_start_def holding_def calm_refl [OF assms] paid_def mail_count_def)

lemma schedule_inv:
  assumes "world_ok w" "mail_seam (en_mail_seam eng)" "same_day X t" "list_all (on_day t) es"
  shows "replicas_inv X eng t w (re_world (run_replicas X eng es (quiet_start w)))
    (re_sessions (run_replicas X eng es (quiet_start w)))"
  by (rule run_replicas_inv [OF assms(2,3,4) quiet_start_inv [OF assms(1)]])

section \<open>One session alone\<close>

fun solo :: "externals \<Rightarrow> engine \<Rightarrow> nat \<Rightarrow> session \<times> world \<Rightarrow> session \<times> world" where
  "solo X eng 0 a = a"
| "solo X eng (Suc k) (s, w) = solo X eng k (session_step X eng [] s w)"

lemma solo_add: "solo X eng (j + k) a = solo X eng k (solo X eng j a)"
proof (induction j arbitrary: a)
  case (Suc j)
  then show ?case by (cases a) simp
qed simp

definition reaches :: "externals \<Rightarrow> engine \<Rightarrow> session \<times> world \<Rightarrow> session \<times> world \<Rightarrow> bool" where
  "reaches X eng a b \<longleftrightarrow> (\<exists>k. solo X eng k a = b)"

lemma reaches_refl: "reaches X eng a a"
  unfolding reaches_def by (rule exI [of _ 0]) simp

lemma reaches_step: "reaches X eng (session_step X eng [] s w) c \<Longrightarrow> reaches X eng (s, w) c"
  unfolding reaches_def by (metis solo.simps(2))

lemma reaches_trans: "reaches X eng a b \<Longrightarrow> reaches X eng b c \<Longrightarrow> reaches X eng a c"
  unfolding reaches_def by (metis solo_add)

text \<open>How the batch of \<open>i\<close> ends, from the result of its body; \<open>saved\<close> are the rows at its begin.\<close>

definition batch_end ::
  "uuid \<Rightarrow> digest_rec list \<Rightarrow> session \<Rightarrow> unit res \<times> sweep_outcome \<times> world \<Rightarrow> session \<times> world" where
  "batch_end i saved s x =
     (case x of
        (Ok _, oc, w) \<Rightarrow> commit_step i saved (s\<lparr>se_outcome := oc\<rparr>) w
      | (Err e, oc, w) \<Rightarrow> isolate_step i (s\<lparr>se_outcome := oc\<rparr>) (rollback_to saved w)
      | (Panic, oc, w) \<Rightarrow> (s\<lparr>se_outcome := oc, se_phase := Ended Panic (Some i)\<rparr>, rollback_to saved w))"

lemma batch_end_phase: "batch_end i saved (s\<lparr>se_phase := p\<rparr>) x = batch_end i saved s x"
  and batch_end_outcome: "batch_end i saved (s\<lparr>se_outcome := oc\<rparr>) x = batch_end i saved s x"
  by (cases x; cases "fst x"; simp add: batch_end_def commit_step_def isolate_step_def split: prod.split res.split)+

lemma bind_sweep_assoc: "bind_sweep (bind_sweep m f) g = bind_sweep m (\<lambda>a. bind_sweep (f a) g)"
  by (auto simp: bind_sweep_def fun_eq_iff split: prod.splits res.splits)

lemma bind_sweep_return: "bind_sweep (run_io (return a)) f = f a"
  by (simp add: bind_sweep_def run_io_def return_def fun_eq_iff)

lemma process_digest_stages:
  "process_digest X eng clock d now =
     bind_sweep (prepare X eng d now) (\<lambda>(rs, deg).
     bind_sweep (send_all X eng clock d now rs False None) (\<lambda>(mf, df).
     decide X d deg (length rs) now mf df))"
  unfolding process_digest_def Let_def length_map
  by (simp add: prepare_def decide_def bind_sweep_assoc bind_sweep_return)

lemma send_all_step:
  "send_all X eng clock d now (r # rs) mf df =
     bind_sweep (send_all X eng clock d now [r] mf df) (\<lambda>(mf', df'). send_all X eng clock d now rs mf' df')"
  by (auto simp: bind_sweep_def fun_eq_iff split: prod.splits res.splits digest_error.splits)

lemma sending_reaches:
  assumes seam: "mail_seam (en_mail_seam eng)"
  shows "se_phase s = Sending d deg n rs mf df \<Longrightarrow> world_ok w \<Longrightarrow>
    reaches X eng (s, w) (batch_end (dr_id d) (digests w) s
      (bind_sweep (send_all X eng (se_clock s) d (se_now s) rs mf df) (\<lambda>(mf, df). decide X d deg n (se_now s) mf df)
        (se_outcome s) w))"
proof (induction rs arbitrary: s mf df w)
  case Nil
  obtain r oc w1 where "decide X d deg n (se_now s) mf df (se_outcome s) w = (r, oc, w1)"
    by (cases "decide X d deg n (se_now s) mf df (se_outcome s) w") auto
  with Nil show ?case
    by (intro reaches_step) (cases r; simp add: bind_sweep_def session_step_def batch_step_def batch_end_def reaches_refl)
next
  case (Cons x rs)
  let ?f = "\<lambda>(mf, df). decide X d deg n (se_now s) mf df"
  let ?one = "send_all X eng (se_clock s) d (se_now s) [x] mf df (se_outcome s) w"
  obtain r oc w1 where one: "?one = (r, oc, w1)" by (cases ?one) auto
  have ne: "r \<noteq> Err e" for e using send_all_result [OF one] by blast
  have d1: "digests w1 = digests w" "world_ok w1"
    using send_one_frame(1,2) [OF seam Cons.prems(2) one] by (simp_all add: calm_def)
  have eq: "bind_sweep (send_all X eng (se_clock s) d (se_now s) (x # rs) mf df) ?f (se_outcome s) w =
      (case r of
         Ok (mf', df') \<Rightarrow> bind_sweep (send_all X eng (se_clock s) d (se_now s) rs mf' df') ?f oc w1
       | Err e \<Rightarrow> (Err e, oc, w1) | Panic \<Rightarrow> (Panic, oc, w1))"
    unfolding send_all_step [of X eng _ d _ x rs] bind_sweep_assoc
    using one by (cases r) (auto simp: bind_sweep_def [of "send_all _ _ _ _ _ [x] _ _"] simp del: send_all.simps)
  show ?case
  proof (cases r)
    case (Ok flags)
    obtain mf' df' where fl: "flags = (mf', df')" by (cases flags)
    let ?s = "s\<lparr>se_outcome := oc, se_phase := Sending d deg n rs mf' df'\<rparr>"
    have "session_step X eng [] s w = (?s, w1)"
      using Cons.prems(1) one Ok fl by (simp add: session_step_def batch_step_def del: send_all.simps)
    moreover have "reaches X eng (?s, w1) (batch_end (dr_id d) (digests w) s
      (bind_sweep (send_all X eng (se_clock s) d (se_now s) rs mf' df') ?f oc w1))"
      using Cons.IH [of ?s mf' df' w1] d1 by (simp add: batch_end_phase batch_end_outcome)
    ultimately show ?thesis unfolding eq using Ok fl by (simp add: reaches_step)
  next
    case Panic
    have "session_step X eng [] s w = batch_end (dr_id d) (digests w) s (Panic, oc, w1)"
      using Cons.prems(1) one Panic by (simp add: session_step_def batch_step_def batch_end_def del: send_all.simps)
    then show ?thesis unfolding eq using Panic by (simp add: reaches_step reaches_refl)
  qed (use ne in blast)
qed

lemma claimed_reaches:
  assumes seam: "mail_seam (en_mail_seam eng)" and s: "se_phase s = Claimed d" and ok: "world_ok w"
  shows "reaches X eng (s, w) (batch_end (dr_id d) (digests w) s
    (process_digest X eng (se_clock s) d (se_now s) (se_outcome s) w))"
proof -
  obtain r oc w1 where m: "prepare X eng d (se_now s) (se_outcome s) w = (r, oc, w1)"
    by (cases "prepare X eng d (se_now s) (se_outcome s) w") auto
  have "sweep_preserves (\<lambda>v. digests v = digests w) (prepare X eng d (se_now s))"
    by (rule prepare_preserves) simp_all
  from sweep_preservesD [OF this refl m] have d1: "digests w1 = digests w" .
  have "sweep_preserves world_ok (prepare X eng d (se_now s))" by (rule prepare_preserves) simp_all
  from sweep_preservesD [OF this ok m] have ok1: "world_ok w1" .
  show ?thesis
  proof (cases r)
    case (Ok a)
    obtain rs deg where a: "a = (rs, deg)" by (cases a)
    let ?s = "s\<lparr>se_outcome := oc, se_phase := Sending d deg (length rs) rs False None\<rparr>"
    have "session_step X eng [] s w = (?s, w1)"
      using s m Ok a by (simp add: session_step_def batch_step_def)
    moreover have "process_digest X eng (se_clock s) d (se_now s) (se_outcome s) w =
        bind_sweep (send_all X eng (se_clock s) d (se_now s) rs False None)
          (\<lambda>(mf, df). decide X d deg (length rs) (se_now s) mf df) oc w1"
      unfolding process_digest_stages by (simp add: bind_sweep_def [of "prepare X eng d (se_now s)"] m Ok a)
    ultimately show ?thesis
      using sending_reaches [OF seam, of ?s d deg "length rs" rs False None w1 X] ok1 d1
      by (simp add: batch_end_phase batch_end_outcome reaches_step)
  next
    case (Err e)
    with s m show ?thesis
      by (intro reaches_step)
        (simp add: session_step_def batch_step_def process_digest_stages bind_sweep_def [of "prepare _ _ _ _"]
          batch_end_def reaches_refl)
  next
    case Panic
    with s m show ?thesis
      by (intro reaches_step)
        (simp add: session_step_def batch_step_def process_digest_stages bind_sweep_def [of "prepare _ _ _ _"]
          batch_end_def reaches_refl)
  qed
qed

definition iteration_end :: "session \<Rightarrow> iteration \<Rightarrow> session \<times> world \<Rightarrow> bool" where
  "iteration_end s it x \<longleftrightarrow>
     (case it of
        Halt r oc w \<Rightarrow> \<exists>p i. x = (s\<lparr>se_processed := p, se_outcome := oc, se_phase := Ended r i\<rparr>, w)
      | Continue p oc w \<Rightarrow> x = (s\<lparr>se_processed := p, se_outcome := oc, se_phase := Idle\<rparr>, w))"

lemma iteration_end_halt: "iteration_end s (Halt r (se_outcome s) w) (s\<lparr>se_phase := Ended r i\<rparr>, w)"
  unfolding iteration_end_def iteration.case
  by (rule exI [of _ "se_processed s"], rule exI [of _ i]) (cases s, simp)

lemma run_batch_end:
  "iteration_end s (run_batch X eng clock now p d oc w)
     (batch_end (dr_id d) (digests w) (s\<lparr>se_processed := p\<rparr>) (process_digest X eng clock d now oc w))"
proof -
  obtain r oc1 w1 where "process_digest X eng clock d now oc w = (r, oc1, w1)"
    by (cases "process_digest X eng clock d now oc w") auto
  then show ?thesis
    by (cases r; cases rule: tx_cases [of w1]; cases rule: tx_cases [of "rollback_to (digests w) w1"])
      (auto simp: run_batch_def batch_end_def iteration_end_def commit_step_def isolate_step_def Let_def)
qed

lemma iteration_reaches:
  assumes "mail_seam (en_mail_seam eng)" "se_phase s = Idle" "world_ok w"
  shows "\<exists>x. reaches X eng (s, w) x \<and>
    iteration_end s (sweep_iteration X eng (se_clock s) (se_now s) (se_processed s) (se_outcome s) w) x"
proof -
  let ?c = "and_then tx_statement (\<lambda>_. claim (date_naive (se_now s)) (se_processed s)) w"
  have step: "session_step X eng [] s w = claim_step [] s w" using assms(2) by (simp add: session_step_def)
  have one: "\<exists>x. reaches X eng (s, w) x \<and> iteration_end s it x" if "iteration_end s it (claim_step [] s w)" for it
    using that step by (metis reaches_refl reaches_step)
  show ?thesis
  proof (cases rule: claim_phase [of "date_naive (se_now s)" "se_processed s" w])
    case (fault e fs)
    then show ?thesis
      by (intro one) (simp add: sweep_iteration_def claim_step_def iteration_end_halt)
  next
    case (none fs)
    then show ?thesis
      by (intro one) (simp add: sweep_iteration_def claim_step_def iteration_end_halt)
  next
    case (some r rs fs)
    let ?w = "w\<lparr>sql_faults := fs\<rparr>" and ?d = "read_row r"
    let ?oc = "(se_outcome s)\<lparr>so_claimed := so_claimed (se_outcome s) + 1\<rparr>"
    let ?s = "s\<lparr>se_processed := se_processed s @ [dg_id r], se_outcome := ?oc, se_phase := Claimed ?d\<rparr>"
    let ?e = "batch_end (dr_id ?d) (digests ?w) ?s (process_digest X eng (se_clock s) ?d (se_now s) ?oc ?w)"
    have "claim_step [] s w = (?s, ?w)" using some(1) by (simp add: claim_step_def)
    moreover have "reaches X eng (?s, ?w) ?e"
      using claimed_reaches [OF assms(1), of ?s ?d ?w X] assms(3) by simp
    ultimately have "reaches X eng (s, w) ?e" using step by (simp add: reaches_step)
    moreover have "iteration_end s (run_batch X eng (se_clock s) (se_now s) (se_processed s @ [dg_id r]) ?d ?oc ?w) ?e"
      using run_batch_end [of s X eng "se_clock s" "se_now s" "se_processed s @ [dg_id r]" ?d ?oc ?w]
      by (simp add: batch_end_phase batch_end_outcome)
    moreover have "sweep_iteration X eng (se_clock s) (se_now s) (se_processed s) (se_outcome s) w =
        run_batch X eng (se_clock s) (se_now s) (se_processed s @ [dg_id r]) ?d ?oc ?w"
      using some(1) by (simp add: sweep_iteration_def)
    ultimately show ?thesis by metis
  qed
qed

lemma loop_reaches:
  assumes "sweep_inv X (date_naive now) w0 p oc w" "mail_seam (en_mail_seam eng)"
    and "s = \<lparr> se_now = now, se_clock = clock, se_processed = p, se_outcome = oc, se_phase = Idle \<rparr>"
  shows "\<exists>r oc' w' p' i. sweep_loop X eng clock now p oc w = Some (r, oc', w') \<and>
    reaches X eng (s, w) (s\<lparr>se_processed := p', se_outcome := oc', se_phase := Ended r i\<rparr>, w')"
  using assms(1,3)
proof (induction "remaining p (map dg_id (digests w0))" arbitrary: p oc w s rule: less_induct)
  case less
  have ok: "world_ok w" using less.prems(1) by (simp add: sweep_inv_def)
  obtain x where x: "reaches X eng (s, w) x" "iteration_end s (sweep_iteration X eng clock now p oc w) x"
    using iteration_reaches [OF assms(2) _ ok, of s X] less.prems(2) by auto
  note step = sweep_iteration_inv [OF less.prems(1) assms(2), of clock]
  show ?case
  proof (cases "sweep_iteration X eng clock now p oc w")
    case (Halt r oc' w')
    then obtain p' i where "x = (s\<lparr>se_processed := p', se_outcome := oc', se_phase := Ended r i\<rparr>, w')"
      using x(2) by (auto simp: iteration_end_def)
    with x(1) Halt show ?thesis by (subst sweep_loop.simps) auto
  next
    case (Continue p' oc' w')
    with step obtain i where i: "p' = p @ [i]" "sweep_inv X (date_naive now) w0 p' oc' w'" by auto
    then have "distinct (p @ [i])" "set (p @ [i]) \<subseteq> set (map dg_id (digests w0))"
      by (auto simp: sweep_inv_def)
    then have dec: "remaining p' (map dg_id (digests w0)) < remaining p (map dg_id (digests w0))"
      unfolding i(1) by (rule remaining_snoc)
    let ?s = "\<lparr> se_now = now, se_clock = clock, se_processed = p', se_outcome = oc', se_phase = Idle \<rparr>"
    have xs: "x = (?s, w')" using x(2) Continue less.prems(2) by (simp add: iteration_end_def)
    obtain r oc2 w2 p2 j where loop: "sweep_loop X eng clock now p' oc' w' = Some (r, oc2, w2)"
      and rest: "reaches X eng (?s, w') (?s\<lparr>se_processed := p2, se_outcome := oc2, se_phase := Ended r j\<rparr>, w2)"
      using less.hyps [OF dec i(2) refl] by blast
    have same: "?s\<lparr>se_processed := p2, se_outcome := oc2, se_phase := Ended r j\<rparr> =
        s\<lparr>se_processed := p2, se_outcome := oc2, se_phase := Ended r j\<rparr>" by (simp add: less.prems(2))
    have "sweep_loop X eng clock now p oc w = Some (r, oc2, w2)"
      by (subst sweep_loop.simps) (simp add: Continue loop)
    moreover have "reaches X eng (s, w) (s\<lparr>se_processed := p2, se_outcome := oc2, se_phase := Ended r j\<rparr>, w2)"
      using reaches_trans [OF x(1) [unfolded xs] rest] unfolding same .
    ultimately show ?thesis by blast
  qed
qed

lemma solo_replicas:
  "solo X eng k (s, w) = (s', w') \<Longrightarrow>
     run_replicas X eng (replicate k (Step 0)) \<lparr> re_world = w, re_sessions = [s] \<rparr> =
       \<lparr> re_world = w', re_sessions = [s'] \<rparr>"
proof (induction k arbitrary: s w)
  case (Suc k)
  then show ?case
    by (cases "session_step X eng [] s w") (simp add: held_by_others_def)
qed simp

section \<open>Every session ends\<close>

text \<open>
  The steps a session has left: per digest row one claim, one read of the recipients, one send for
  each of at most as many recipients as there are active pairs, and one commit or rollback.
\<close>

definition digest_cost :: "world \<Rightarrow> nat" where
  "digest_cost w = card (active_pairs w) + 3"

definition steps_bound :: "world \<Rightarrow> nat" where
  "steps_bound w = digest_cost w * length (digests w) + 1"

definition steps_left :: "world \<Rightarrow> session \<Rightarrow> nat" where
  "steps_left w0 s =
     (let k = digest_cost w0 * remaining (se_processed s) (map dg_id (digests w0)) in
      case se_phase s of
        Idle \<Rightarrow> k + 1
      | Claimed d \<Rightarrow> k + digest_cost w0
      | Sending d deg n rs mf df \<Rightarrow> k + length rs + 2
      | Ended r i \<Rightarrow> 0)"

definition is_ended :: "session \<Rightarrow> bool" where
  "is_ended s \<longleftrightarrow> (case se_phase s of Ended r i \<Rightarrow> True | _ \<Rightarrow> False)"

lemma steps_left_0: "steps_left w0 s = 0 \<longleftrightarrow> is_ended s"
  by (simp add: steps_left_def is_ended_def Let_def digest_cost_def split: phase.split)

lemma recipients_bound:
  assumes "calm w0 w"
  shows "length (recipients_of d w) \<le> card (active_pairs w0)"
proof -
  have A: "active_pairs w = active_pairs w0" using assms by (simp add: calm_def rest_view_def)
  have fin: "finite (active_pairs w0)" by (simp add: active_pairs_def)
  have "distinct (map rr_user_id (recipients_of d w))"
    by (rule recipients_distinct) (use assms in \<open>simp add: calm_def\<close>)
  then have "length (recipients_of d w) = card (set (map rr_user_id (recipients_of d w)))"
    by (metis distinct_card length_map)
  also have "\<dots> = card (Pair d ` {u. (d, u) \<in> active_pairs w0})"
    unfolding recipients_of_ids A by (simp add: card_image inj_on_def)
  also have "\<dots> \<le> card (active_pairs w0)"
    by (rule card_mono [OF fin]) auto
  finally show ?thesis .
qed

lemma moves_steps:
  assumes w0: "calm w0 w" and mv: "moves X eng others s w s' w'" and ne: "\<not> is_ended s"
  shows "steps_left w0 s' < steps_left w0 s"
  using mv
proof cases
  case (claims r oc fs rs)
  have q: "r \<in> set (digests w)" "dg_id r \<notin> set (se_processed s)" using due_queue_head [OF claims(4)] by simp_all
  have "map dg_id (digests w) = map dg_id (digests w0)" using w0 by (simp add: calm_def rest_view_def)
  then have "dg_id r \<in> set (map dg_id (digests w0))" using q(1) by (metis image_eqI set_map)
  then have "remaining (dg_id r # se_processed s) (map dg_id (digests w0)) <
      remaining (se_processed s) (map dg_id (digests w0))"
    using q(2) by (intro remaining_less)
  moreover have "remaining (se_processed s @ [dg_id r]) (map dg_id (digests w0)) =
      remaining (dg_id r # se_processed s) (map dg_id (digests w0))" by (simp add: remaining_def)
  ultimately have "Suc (remaining (se_processed s @ [dg_id r]) (map dg_id (digests w0)))
      \<le> remaining (se_processed s) (map dg_id (digests w0))" by simp
  from mult_le_mono2 [OF this, of "digest_cost w0"] claims(1,3) show ?thesis
    by (simp add: steps_left_def)
next
  case (prepares d oc deg n)
  with recipients_bound [OF w0, of "dr_id d"] show ?thesis
    by (simp add: steps_left_def digest_cost_def)
next
  case (undoes i ms oc p)
  then show ?thesis by (cases "se_phase s") (auto simp: steps_left_def digest_cost_def)
qed (use ne in \<open>auto simp: steps_left_def is_ended_def\<close>)

fun takes :: "nat \<Rightarrow> replica_event \<Rightarrow> bool" where
  "takes i (Step j) = (j = i)"
| "takes i (Start now clock) = False"

lemma step_sessions:
  assumes "mail_seam (en_mail_seam eng)" "same_day X t"
    and inv: "replicas_inv X eng t w0 (re_world sys) (re_sessions sys)" and i: "i < length (re_sessions sys)"
  shows "i < length (re_sessions (replica_step X eng e sys))"
    and "steps_left w0 (re_sessions (replica_step X eng e sys) ! i) \<le> steps_left w0 (re_sessions sys ! i) - (if takes i e then 1 else 0)"
proof -
  show "i < length (re_sessions (replica_step X eng e sys))"
    using i by (cases e) (auto split: prod.split)
  let ?s' = "re_sessions (replica_step X eng e sys) ! i"
  show "steps_left w0 ?s' \<le> steps_left w0 (re_sessions sys ! i) - (if takes i e then 1 else 0)"
  proof (cases "takes i e")
    case False
    with i show ?thesis
      by (cases e) (auto simp: nth_append split: prod.split)
  next
    case True
    then have e: "e = Step i" by (cases e) auto
    let ?s = "re_sessions sys ! i"
    obtain s1 w1 where st: "session_step X eng (held_by_others i (re_sessions sys)) ?s (re_world sys) = (s1, w1)"
      by (cases "session_step X eng (held_by_others i (re_sessions sys)) ?s (re_world sys)")
    have s1: "?s' = s1" using e i st by simp
    have w0: "calm w0 (re_world sys)" and t: "date_naive (se_now ?s) = t"
      using inv i by (simp_all add: replicas_inv_def session_ok_def)
    have mv: "moves X eng (held_by_others i (re_sessions sys)) ?s (re_world sys) s1 w1"
      by (rule session_step_moves [OF assms(1) _ _ st]) (use w0 t assms(2) in \<open>simp_all add: calm_def\<close>)
    show ?thesis
    proof (cases "is_ended ?s")
      case False
      with moves_steps [OF w0 mv] s1 True show ?thesis by simp
    next
      case ended: True
      then have "s1 = ?s" using st by (auto simp: session_step_def is_ended_def split: phase.splits)
      moreover have "steps_left w0 ?s = 0" using ended steps_left_0 by blast
      ultimately show ?thesis using s1 by simp
    qed
  qed
qed

lemma run_steps_left:
  assumes "mail_seam (en_mail_seam eng)" "same_day X t"
  shows "list_all (on_day t) es \<Longrightarrow> replicas_inv X eng t w0 (re_world sys) (re_sessions sys) \<Longrightarrow>
    i < length (re_sessions sys) \<Longrightarrow>
    i < length (re_sessions (run_replicas X eng es sys)) \<and>
    steps_left w0 (re_sessions (run_replicas X eng es sys) ! i)
      \<le> steps_left w0 (re_sessions sys ! i) - length (filter (takes i) es)"
proof (induction es arbitrary: sys)
  case (Cons e es)
  note st = step_sessions [OF assms Cons.prems(2,3), of e]
  have "replicas_inv X eng t w0 (re_world (replica_step X eng e sys)) (re_sessions (replica_step X eng e sys))"
    by (rule replica_step_inv [OF assms]) (use Cons.prems in simp_all)
  with Cons.IH [of "replica_step X eng e sys"] st Cons.prems show ?case
    by (auto split: if_splits)
qed simp

lemma sessions_bounded:
  assumes "mail_seam (en_mail_seam eng)" "same_day X t"
  shows "list_all (on_day t) es \<Longrightarrow> replicas_inv X eng t w0 (re_world sys) (re_sessions sys) \<Longrightarrow>
    \<forall>s \<in> set (re_sessions sys). steps_left w0 s \<le> steps_bound w0 \<Longrightarrow>
    \<forall>s \<in> set (re_sessions (run_replicas X eng es sys)). steps_left w0 s \<le> steps_bound w0"
proof (induction es arbitrary: sys)
  case (Cons e es)
  have inv: "replicas_inv X eng t w0 (re_world (replica_step X eng e sys)) (re_sessions (replica_step X eng e sys))"
    by (rule replica_step_inv [OF assms]) (use Cons.prems in simp_all)
  have "steps_left w0 (re_sessions (replica_step X eng e sys) ! i) \<le> steps_bound w0"
    if "i < length (re_sessions (replica_step X eng e sys))" for i
  proof (cases "i < length (re_sessions sys)")
    case True
    with step_sessions(2) [OF assms Cons.prems(2) True, of e] Cons.prems(3) show ?thesis
      by (meson diff_le_self le_trans nth_mem)
  next
    case False
    then have "re_sessions (replica_step X eng e sys) ! i = new_session (se_now (re_sessions (replica_step X eng e sys) ! i))
        (se_clock (re_sessions (replica_step X eng e sys) ! i))"
      using that by (cases e) (auto simp: nth_append new_session_def less_Suc_eq split: if_splits prod.splits)
    moreover have "steps_left w0 (new_session n c) = steps_bound w0" for n c
      by (simp add: steps_left_def new_session_def steps_bound_def remaining_def)
    ultimately show ?thesis by (metis le_refl)
  qed
  then have "\<forall>s \<in> set (re_sessions (replica_step X eng e sys)). steps_left w0 s \<le> steps_bound w0"
    by (auto simp: in_set_conv_nth)
  with Cons.IH [OF _ inv] Cons.prems(1) show ?case by simp
qed simp

section \<open>Properties\<close>

text \<open>
  C2: any number of sweeps running at once on one day, interleaved in any way, queue mails to
  active subscriptions only, each with its own link, and to each pair at most one mail more than
  batches of its digest were rolled back: a second replica does not mail every recipient again.
\<close>

theorem replicas_mail_once:
  assumes "world_ok w" "mail_seam (en_mail_seam eng)" "same_day X t" "list_all (on_day t) es"
    and "sys = run_replicas X eng es (quiet_start w)"
  shows "\<exists>new. mails (re_world sys) = mails w @ new \<and>
    (\<forall>m \<in> set new. mail_pair m \<in> active_pairs w \<and> has_own_link X eng m) \<and>
    (\<forall>d u. mail_count (d, u) new
      \<le> 1 + (isolations d (re_world sys) - isolations d w) + deaths d (re_sessions sys))"
proof -
  have inv: "replicas_inv X eng t w (re_world sys) (re_sessions sys)"
    using schedule_inv [OF assms(1-4)] assms(5) by simp
  then obtain new where new: "mails (re_world sys) = mails w @ new" "paid t w (re_world sys) (re_sessions sys) new"
    "\<forall>m \<in> set new. mail_pair m \<in> active_pairs w \<and> has_own_link X eng m"
    by (auto simp: replicas_inv_def)
  have "mail_count (d, u) new
      \<le> 1 + (isolations d (re_world sys) - isolations d w) + deaths d (re_sessions sys)" for d u
  proof -
    have "mail_count (d, u) new + isolations d w
        \<le> isolations d (re_world sys) + deaths d (re_sessions sys) + quota t (re_world sys) (re_sessions sys) d u"
      using new(2) by (simp add: paid_def)
    moreover have "isolations d w \<le> isolations d (re_world sys)"
      using inv by (simp add: replicas_inv_def calm_def)
    ultimately show ?thesis using quota_le [of t "re_world sys" "re_sessions sys" d u] by linarith
  qed
  with new show ?thesis by blast
qed

lemma demo_now_naive: "date_naive demo_now = 20000"
  by code_simp

lemma demo_day_ok: "same_day demo_externals 20000"
  using demo_range demo_calendar by (simp add: same_day_def demo_now_naive)

definition demo_schedule :: "replica_event list" where
  "demo_schedule =
     [Start demo_now demo_clock, Start demo_now demo_clock, Step 0, Step 1, Step 0, Step 0, Step 1, Step 0, Step 0]"

lemma demo_schedule_day: "list_all (on_day 20000) demo_schedule"
  by (simp add: demo_schedule_def demo_now_naive)

lemma replicas_mail_once_witness:
  "\<exists>new. mails (re_world (run_replicas demo_externals demo_engine demo_schedule (quiet_start demo_world))) = new \<and>
     (\<forall>m \<in> set new. mail_pair m \<in> {(1, 11), (1, 12)})"
  using replicas_mail_once [OF demo_world_ok demo_seam demo_day_ok demo_schedule_day refl] demo_active
  by (auto simp: demo_world_def idle_world_def)

text \<open>
  At any point of any schedule no two sweeps hold the same digest, and what they leave behind
  keeps the tables' unique keys, the tables the sweep does not own and the set of digests.
\<close>

theorem replicas_exclusive:
  assumes "world_ok w" "mail_seam (en_mail_seam eng)" "same_day X t" "list_all (on_day t) es"
    and "sys = run_replicas X eng es (quiet_start w)"
  shows "distinct (holding (re_sessions sys)) \<and> world_ok (re_world sys) \<and>
    rest_view (re_world sys) = rest_view w"
  using schedule_inv [OF assms(1-4)] assms(5) by (simp_all add: replicas_inv_def calm_def)

lemma replicas_exclusive_witness:
  "distinct (holding (re_sessions (run_replicas demo_externals demo_engine demo_schedule (quiet_start demo_world))))"
  by (rule replicas_exclusive [OF demo_world_ok demo_seam demo_day_ok demo_schedule_day refl, THEN conjunct1])

text \<open>
  C19: once one of the sweeps has ended well, every digest still due is locked from outside, in the
  batch of another sweep, or had a batch rolled back.
\<close>

theorem replicas_drain:
  assumes "world_ok w" "mail_seam (en_mail_seam eng)" "same_day X t" "list_all (on_day t) es"
    and "sys = run_replicas X eng es (quiet_start w)"
    and "s \<in> set (re_sessions sys)" "se_phase s = Ended (Ok ()) None"
    and "r \<in> set (digests (re_world sys))" "is_due t r"
  shows "dg_id r \<in> set (row_locks w) \<or> dg_id r \<in> set (holding (re_sessions sys)) \<or>
    isolations (dg_id r) w < isolations (dg_id r) (re_world sys) + deaths (dg_id r) (re_sessions sys)"
proof -
  have "replicas_inv X eng t w (re_world sys) (re_sessions sys)"
    using schedule_inv [OF assms(1-4)] assms(5) by simp
  then have "session_ok t w (re_world sys) (re_sessions sys) s"
    using assms(6) by (simp add: replicas_inv_def)
  then have "cleared t w (re_world sys) (re_sessions sys) (dg_id r)"
    using assms(7) by (simp add: session_ok_def)
  then show ?thesis using assms(8,9) by (auto simp: cleared_def due_now_def)
qed

definition busy_run :: replicas where
  "busy_run = run_replicas demo_externals demo_engine [Start demo_now demo_clock, Step 0, Step 0, Step 0, Step 0]
     (quiet_start busy_world)"

lemma busy_run_ended:
  "map (\<lambda>s. case se_phase s of Ended (Ok _) None \<Rightarrow> True | _ \<Rightarrow> False) (re_sessions busy_run) = [True] \<and>
   map (\<lambda>r. (dg_id r, is_due 20000 r)) (digests (re_world busy_run)) = [(2, True), (1, False)]"
  by code_simp

lemma replicas_drain_witness:
  "\<exists>r \<in> set (digests (re_world busy_run)). is_due 20000 r \<and>
    (dg_id r \<in> {2} \<or> dg_id r \<in> set (holding (re_sessions busy_run)) \<or>
     0 < isolations (dg_id r) (re_world busy_run) + deaths (dg_id r) (re_sessions busy_run))"
proof -
  obtain s rest where s: "re_sessions busy_run = s # rest"
    "case se_phase s of Ended (Ok _) None \<Rightarrow> True | _ \<Rightarrow> False"
    using busy_run_ended by (cases "re_sessions busy_run") auto
  then have e: "s \<in> set (re_sessions busy_run)" "se_phase s = Ended (Ok ()) None"
    by (auto split: phase.splits res.splits option.splits)
  obtain r rows where "digests (re_world busy_run) = r # rows" "is_due 20000 r"
    using busy_run_ended by (cases "digests (re_world busy_run)") auto
  then have r: "r \<in> set (digests (re_world busy_run))" "is_due 20000 r" by simp_all
  have "list_all (on_day 20000) [Start demo_now demo_clock, Step 0, Step 0, Step 0, Step 0]"
    by (simp add: demo_now_naive)
  from replicas_drain [OF busy_world_ok demo_seam demo_day_ok this busy_run_def e r] r show ?thesis
    by (intro bexI [of _ r] conjI) (simp_all add: busy_world_def isolations_def idle_world_def)
qed

text \<open>
  C12: no sweep can be kept from ending by the others: from any point of any schedule, a session
  that takes \<open>steps_bound\<close> more steps, in whatever order with the rest, has returned.
\<close>

theorem replicas_end:
  assumes "world_ok w" "mail_seam (en_mail_seam eng)" "same_day X t" "list_all (on_day t) (es @ fs)"
    and "i < length (re_sessions (run_replicas X eng es (quiet_start w)))"
    and "steps_bound w \<le> length (filter (takes i) fs)"
  shows "is_ended (re_sessions (run_replicas X eng (es @ fs) (quiet_start w)) ! i)"
proof -
  let ?sys = "run_replicas X eng es (quiet_start w)"
  have es: "list_all (on_day t) es" and fs: "list_all (on_day t) fs" using assms(4) by simp_all
  have inv: "replicas_inv X eng t w (re_world ?sys) (re_sessions ?sys)"
    by (rule schedule_inv [OF assms(1-3) es])
  have "\<forall>s \<in> set (re_sessions ?sys). steps_left w s \<le> steps_bound w"
    by (rule sessions_bounded [OF assms(2,3) es quiet_start_inv [OF assms(1)]]) (simp add: quiet_start_def)
  then have "steps_left w (re_sessions ?sys ! i) \<le> steps_bound w" using assms(5) by simp
  then have "steps_left w (re_sessions (run_replicas X eng fs ?sys) ! i) = 0"
    using run_steps_left [OF assms(2,3) fs inv assms(5)] assms(6) by simp
  then show ?thesis using steps_left_0 by simp
qed

lemma replicas_end_witness:
  "is_ended (re_sessions (run_replicas demo_externals demo_engine
      ([Start demo_now demo_clock, Start demo_now demo_clock, Step 1] @ replicate 4 (Step 0)) (quiet_start idle_world)) ! 0)"
proof (rule replicas_end [OF idle_world_ok demo_seam demo_day_ok])
  have "steps_bound idle_world = 4"
    by (simp add: steps_bound_def digest_cost_def active_pairs_def idle_world_def)
  then show "steps_bound idle_world \<le> length (filter (takes 0) (replicate 4 (Step 0)))" by simp
qed (simp_all add: demo_now_naive list_all_iff split: prod.split)

text \<open>
  The two models of the sweep agree: a session that runs alone is the daily pull, and after finitely
  many steps it has ended with the same result, tally and world.
\<close>

theorem replica_alone:
  assumes "world_ok w" "mail_seam (en_mail_seam eng)"
  shows "\<exists>n s r i w'.
    run_replicas X eng (Start now clock # replicate n (Step 0)) (quiet_start w) = \<lparr> re_world = w', re_sessions = [s] \<rparr> \<and>
    se_phase s = Ended r i \<and>
    run_daily_pull X eng clock now w =
      Some (case r of Ok _ \<Rightarrow> Ok (se_outcome s) | Err e \<Rightarrow> Err e | Panic \<Rightarrow> Panic, w')"
proof -
  obtain r oc w' p i where loop: "sweep_loop X eng clock now [] empty_outcome w = Some (r, oc, w')"
    and re: "reaches X eng (new_session now clock, w)
      ((new_session now clock)\<lparr>se_processed := p, se_outcome := oc, se_phase := Ended r i\<rparr>, w')"
    using loop_reaches [OF sweep_inv_start [OF assms(1)] assms(2), of "new_session now clock" now clock X]
    by (auto simp: new_session_def)
  then obtain k where "solo X eng k (new_session now clock, w) =
      ((new_session now clock)\<lparr>se_processed := p, se_outcome := oc, se_phase := Ended r i\<rparr>, w')"
    by (auto simp: reaches_def)
  note run = solo_replicas [OF this]
  show ?thesis
    by (intro exI [of _ k] exI [of _ "(new_session now clock)\<lparr>se_processed := p, se_outcome := oc, se_phase := Ended r i\<rparr>"]
        exI [of _ r] exI [of _ i] exI [of _ w'])
      (simp add: run loop run_daily_pull_def quiet_start_def split: res.split)
qed

lemma replica_alone_witness:
  "\<exists>n s r i w'.
    run_replicas demo_externals demo_engine (Start demo_now demo_clock # replicate n (Step 0)) (quiet_start demo_world)
      = \<lparr> re_world = w', re_sessions = [s] \<rparr> \<and> se_phase s = Ended r i \<and>
    run_daily_pull demo_externals demo_engine demo_clock demo_now demo_world =
      Some (case r of Ok _ \<Rightarrow> Ok (se_outcome s) | Err e \<Rightarrow> Err e | Panic \<Rightarrow> Panic, w')"
  by (rule replica_alone [OF demo_world_ok demo_seam])

end
