(* ===== verification/Sweep_Complete.thy ===== *)
theory Sweep_Complete
  imports Replica_Properties Sweep_Properties
begin

text \<open>
  Nobody is forgotten by a sweep. \<open>serves\<close> says of the digests processed so far that each of their
  active recipients has a new mail, unless the tally names the digest among the failures; a batch
  establishes it for its digest, the loop keeps it, and a drained run processed every due digest.
\<close>

definition named :: "sweep_outcome \<Rightarrow> uuid set" where
  "named oc = set (so_mail_delivery_failures oc) \<union> set (so_isolated_failures oc)"

definition serves ::
  "(uuid \<times> uuid) set \<Rightarrow> outgoing_mail list \<Rightarrow> uuid set \<Rightarrow> sweep_outcome \<Rightarrow> world \<Rightarrow> bool" where
  "serves A M p oc w \<longleftrightarrow>
     (\<exists>new. mails w = M @ new \<and>
        (\<forall>i \<in> p. i \<in> named oc \<or> (\<forall>u. (i, u) \<in> A \<longrightarrow> (i, u) \<in> mail_pair ` set new)))"

lemma serves_frame [simp]:
  "serves A M p oc (w\<lparr>sql_faults := fs\<rparr>) = serves A M p oc w"
  "serves A M p oc (write_audit ev w) = serves A M p oc w"
  "serves A M p oc (rollback_to ds w) = serves A M p oc w"
  by (simp_all add: serves_def rollback_to_def)

section \<open>One batch\<close>

lemma send_to_recipient_Ok_mails:
  assumes "mail_seam (en_mail_seam eng)" "send_to_recipient X eng wall d r now w = (Ok x, w')"
  shows "\<exists>m. mails w' = mails w @ [m] \<and> mail_pair m = (dr_id d, rr_user_id r)"
proof -
  obtain res w1 where ren: "render X eng wall d r now w = (res, w1)"
    by (cases "render X eng wall d r now w") auto
  obtain plan where plan: "res = Ok plan"
    using assms(2) ren by (cases res) (auto simp: send_to_recipient_def and_then_def)
  have m1: "mails w1 = mails w" using reads_onlyD [OF reads_only_render ren] by auto
  obtain i where del: "deliver X eng wall plan w1 = (Ok i, w')"
    using assms(2) ren plan
    by (auto simp: send_to_recipient_def and_then_def return_def split: prod.splits res.splits)
  obtain sres w2 where s: "en_mail_seam eng (outgoing wall plan) w1 = (sres, w2)"
    by (cases "en_mail_seam eng (outgoing wall plan) w1") auto
  obtain mid where ok: "sres = Ok mid" using del s by (cases sres) (auto simp: deliver_def and_then_def)
  have m2: "mails w2 = mails w1 @ [outgoing wall plan]"
    using mail_seam.send_mails [OF assms(1), of "outgoing wall plan" w1] s ok by simp
  have "preserves (\<lambda>w. length (mails w) = length (mails w2)) (and_then (case rp_tip plan of
         None \<Rightarrow> return () | Some t \<Rightarrow> consume_tip (tp_tip_id t) (rp_user_id plan)) (\<lambda>_.
     and_then (if rp_is_first_digest plan
         then stamp_subscription_metadata (rp_digest_id plan) (rp_user_id plan)
           [''first_digest_sent_at'' \<mapsto> JStr (to_rfc3339 X wall)]
         else return ()) (\<lambda>_ w.
     (Ok mid, write_audit (DigestEmailSent (rp_digest_id plan) (rp_user_id plan) mid) w))))"
    unfolding consume_tip_def stamp_subscription_metadata_def
    by (intro preserves_and_then) (auto intro!: preserves_sql simp: preserves_def [of _ "\<lambda>w. (Ok mid, _ w)"]
        split: option.split)
  then have "length (mails w') = length (mails w2)"
    using del s ok by (simp add: deliver_def and_then_def [of "en_mail_seam _ _"] preserves_def)
      (metis snd_conv)
  moreover have "mails w' \<in> {mails w1, mails w1 @ [outgoing wall plan]}"
    using deliver_mails [OF assms(1), of X wall plan w1] del by simp
  ultimately have "mails w' = mails w @ [outgoing wall plan]" using m1 m2 by auto
  moreover have "mail_pair (outgoing wall plan) = (dr_id d, rr_user_id r)"
  proof -
    have "render X eng wall d r now w = (Ok plan, w1)" using ren plan by simp
    then show ?thesis by (rule render_Ok) (simp add: mail_pair_def outgoing_def)
  qed
  ultimately show ?thesis by blast
qed

text \<open>When the two flags are down at the end, every recipient has a mail.\<close>

lemma send_all_serves:
  assumes seam: "mail_seam (en_mail_seam eng)"
  shows "send_all X eng clock d now rs mf df oc w = (Ok (False, None), oc', w') \<Longrightarrow>
    \<not> mf \<and> df = None \<and> (\<exists>new. mails w' = mails w @ new \<and>
      (\<forall>r \<in> set rs. (dr_id d, rr_user_id r) \<in> mail_pair ` set new))"
proof (induction rs arbitrary: mf df oc w)
  case (Cons r rs)
  obtain res w1 where s: "send_to_recipient X eng (clock (dr_id d) (rr_user_id r)) d r now w = (res, w1)"
    by (cases "send_to_recipient X eng (clock (dr_id d) (rr_user_id r)) d r now w") auto
  show ?case
  proof (cases res)
    case (Ok x)
    obtain plan i where x: "x = (plan, i)" by (cases x)
    obtain m where m: "mails w1 = mails w @ [m]" "mail_pair m = (dr_id d, rr_user_id r)"
      using send_to_recipient_Ok_mails [OF seam] s Ok by blast
    have "send_all X eng clock d now rs mf df (oc\<lparr>so_sent_mails := so_sent_mails oc + 1\<rparr>) w1
        = (Ok (False, None), oc', w')" using Cons.prems s Ok x by simp
    from Cons.IH [OF this] obtain new where new: "\<not> mf" "df = None" "mails w' = mails w1 @ new"
      "\<forall>r \<in> set rs. (dr_id d, rr_user_id r) \<in> mail_pair ` set new" by blast
    have "\<forall>x \<in> set (r # rs). (dr_id d, rr_user_id x) \<in> mail_pair ` set (m # new)"
      using new(4) m(2) by auto
    with new m(1) show ?thesis by (intro conjI exI [of _ "m # new"]) simp_all
  next
    case (Err e)
    then obtain mf1 df1 where "mf1 \<or> df1 \<noteq> None"
      "send_all X eng clock d now rs mf1 df1 oc w1 = (Ok (False, None), oc', w')"
      using Cons.prems s by (cases e) auto
    with Cons.IH show ?thesis by blast
  next
    case Panic
    with Cons.prems s show ?thesis by simp
  qed
qed simp

lemma process_digest_grows_mails:
  assumes "mail_seam (en_mail_seam eng)" "world_ok w" "process_digest X eng clock d now oc w = (r, oc', w')"
  shows "\<exists>new. mails w' = mails w @ new"
proof -
  have "batch_mails X eng (active_pairs w) (mails w) {} (dr_id d) UNIV w" by (simp add: batch_mails_def)
  from process_digest_mails [OF assms(1,2) _ this, of clock now oc] assms(3) show ?thesis
    by (auto simp: batch_mails_def)
qed

lemma process_digest_serves:
  assumes "process_digest X eng clock d now oc w = (Ok (), oc', w')"
    and seam: "mail_seam (en_mail_seam eng)" and ok: "world_ok w"
  shows "\<exists>new. mails w' = mails w @ new \<and>
    (dr_id d \<in> named oc' \<or> (\<forall>u. (dr_id d, u) \<in> active_pairs w \<longrightarrow> (dr_id d, u) \<in> mail_pair ` set new))"
proof -
  from assms(1) obtain a oc1 w1 where pre: "prepare X eng d now oc w = (Ok a, oc1, w1)"
    and r1: "(case a of (rs, deg) \<Rightarrow> bind_sweep (send_all X eng clock d now rs False None) (\<lambda>(mf, df).
      decide X d deg (length rs) now mf df)) oc1 w1 = (Ok (), oc', w')"
    unfolding process_digest_stages by (rule bind_sweep_Ok)
  obtain rs deg where a: "a = (rs, deg)" by (cases a)
  from r1 obtain flags oc2 w2 where sent: "send_all X eng clock d now rs False None oc1 w1 = (Ok flags, oc2, w2)"
    and fin: "(case flags of (mf, df) \<Rightarrow> decide X d deg (length rs) now mf df) oc2 w2 = (Ok (), oc', w')"
    unfolding a prod.case by (rule bind_sweep_Ok)
  obtain mf df where fl: "flags = (mf, df)" by (cases flags)
  have rs: "rs = recipients_of (dr_id d) w" using prepare_Ok pre a by simp
  have "sweep_preserves (\<lambda>v. mails v = mails w \<and> world_ok v) (prepare X eng d now)"
    by (rule prepare_preserves) simp_all
  from sweep_preservesD [OF this _ pre] ok have m1: "mails w1 = mails w" "world_ok w1" by simp_all
  have "world_ok w2"
    using send_all_preserves [OF seam world_ok_stable m1(2), of X clock d now rs False None oc1] sent by simp
  from decide_frame(2) [OF this fin [unfolded fl prod.case]] have m2: "mails w' = mails w2" .
  show ?thesis
  proof (cases "mf \<or> df \<noteq> None")
    case True
    then have "retry_tomorrow X d now mf oc2 w2 = (Ok (), oc', w')" using fin fl by (simp add: decide_def)
    then have "dr_id d \<in> named oc'" by (rule retry_tomorrow_Ok) (auto simp: named_def)
    with process_digest_grows_mails [OF seam ok assms(1)] show ?thesis by blast
  next
    case False
    then have "send_all X eng clock d now rs False None oc1 w1 = (Ok (False, None), oc2, w2)" using sent fl by simp
    from send_all_serves [OF seam this] obtain new where new: "mails w2 = mails w1 @ new"
      "\<forall>r \<in> set rs. (dr_id d, rr_user_id r) \<in> mail_pair ` set new" by blast
    have "(dr_id d, u) \<in> mail_pair ` set new" if "(dr_id d, u) \<in> active_pairs w" for u
    proof -
      have "u \<in> set (map rr_user_id rs)" unfolding rs recipients_of_ids using that by simp
      with new(2) show ?thesis by auto
    qed
    with new(1) m1 m2 show ?thesis by auto
  qed
qed

section \<open>The loop\<close>

lemma serves_step:
  assumes "serves A M p oc w" "named oc \<subseteq> named oc'" "mails w' = mails w @ ms"
    and "i \<in> named oc' \<or> (\<forall>u. (i, u) \<in> A \<longrightarrow> (i, u) \<in> mail_pair ` set ms)"
  shows "serves A M (insert i p) oc' w'"
proof -
  obtain new where "mails w = M @ new"
    "\<forall>i \<in> p. i \<in> named oc \<or> (\<forall>u. (i, u) \<in> A \<longrightarrow> (i, u) \<in> mail_pair ` set new)"
    using assms(1) by (auto simp: serves_def)
  then show ?thesis
    unfolding serves_def using assms(2-4) by (intro exI [of _ "new @ ms"]) (simp add: image_Un, blast)
qed

lemma run_batch_serves:
  assumes "mail_seam (en_mail_seam eng)" "world_ok w" "active_pairs w = A" "serves A M (set p) oc w"
    and "run_batch X eng clock now (p @ [dr_id d]) d (oc\<lparr>so_claimed := so_claimed oc + 1\<rparr>) w = Continue p' oc' w'"
  shows "serves A M (set p') oc' w'"
proof -
  let ?oc = "oc\<lparr>so_claimed := so_claimed oc + 1\<rparr>"
  obtain r oc1 w1 where pd: "process_digest X eng clock d now ?oc w = (r, oc1, w1)"
    by (cases "process_digest X eng clock d now ?oc w") auto
  have g: "named oc \<subseteq> named oc1"
    using growerD [OF grower_process pd] by (auto simp: grows_def named_def)
  obtain ms where ms: "mails w1 = mails w @ ms"
    using process_digest_grows_mails [OF assms(1,2) pd] by blast
  show ?thesis
  proof (cases r)
    case (Ok u)
    then obtain new where new: "mails w1 = mails w @ new"
      "dr_id d \<in> named oc1 \<or> (\<forall>u. (dr_id d, u) \<in> A \<longrightarrow> (dr_id d, u) \<in> mail_pair ` set new)"
      using process_digest_serves [OF _ assms(1,2), of X clock d now ?oc oc1 w1] pd assms(3) by auto
    have s: "serves A M (insert (dr_id d) (set p)) oc1 w1" by (rule serves_step [OF assms(4) g new])
    then show ?thesis
      using assms(5) pd Ok by (cases rule: tx_cases [of w1]) (auto simp: run_batch_def Let_def)
  next
    case (Err e)
    let ?oc1 = "oc1\<lparr>so_isolated_failures := so_isolated_failures oc1 @ [dr_id d]\<rparr>"
    have "serves A M (insert (dr_id d) (set p)) ?oc1 w1"
      by (rule serves_step [OF assms(4) _ ms]) (use g in \<open>auto simp: named_def\<close>)
    then show ?thesis
      using assms(5) pd Err
      by (cases rule: tx_cases [of "rollback_to (digests w) w1"]) (auto simp: run_batch_def Let_def)
  next
    case Panic
    with assms(5) pd show ?thesis by (simp add: run_batch_def Let_def)
  qed
qed

lemma sweep_loop_serves:
  assumes "sweep_inv X (date_naive now) w0 p oc w" "mail_seam (en_mail_seam eng)"
    and "serves (active_pairs w0) (mails w0) (set p) oc w"
    and "sweep_loop X eng clock now p oc w = Some (Ok (), oc', w')"
  shows "\<exists>p'. sweep_inv X (date_naive now) w0 p' oc' w' \<and> due_queue (date_naive now) p' w' = [] \<and>
    serves (active_pairs w0) (mails w0) (set p') oc' w'"
  using assms(1,3,4)
proof (induction "remaining p (map dg_id (digests w0))" arbitrary: p oc w rule: less_induct)
  case less
  let ?t = "date_naive now"
  have ok: "world_ok w" "active_pairs w = active_pairs w0"
    using less.prems(1) by (simp_all add: sweep_inv_def rest_view_def)
  show ?case
  proof (cases rule: claim_phase [of ?t p w])
    case (fault e fs)
    with less.prems(3) show ?thesis by (subst (asm) sweep_loop.simps) (simp add: sweep_iteration_def)
  next
    case (none fs)
    then have "oc' = oc" "w' = w\<lparr>sql_faults := fs\<rparr>"
      using less.prems(3) by (subst (asm) sweep_loop.simps, simp add: sweep_iteration_def)+
    with less.prems(1,2) none(2) show ?thesis by (intro exI [of _ p]) simp
  next
    case (some r0 rs fs)
    let ?w = "w\<lparr>sql_faults := fs\<rparr>" and ?oc = "oc\<lparr>so_claimed := so_claimed oc + 1\<rparr>"
    have it: "sweep_iteration X eng clock now p oc w =
        run_batch X eng clock now (p @ [dg_id r0]) (read_row r0) ?oc ?w"
      using some(1) by (simp add: sweep_iteration_def)
    note step = sweep_iteration_inv [OF less.prems(1) assms(2), of clock]
    show ?thesis
    proof (cases "sweep_iteration X eng clock now p oc w")
      case (Halt r1 oc1 w1)
      have inv: "sweep_inv X ?t w0 p oc ?w" using less.prems(1) by simp
      have "case sweep_iteration X eng clock now p oc w of
          Continue p' oc' w' \<Rightarrow> p' = p @ [dg_id r0] \<and> sweep_inv X ?t w0 p' oc' w'
        | Halt r oc' w' \<Rightarrow> r \<noteq> Ok () \<and> sweep_end X ?t w0 r oc' w'"
        unfolding it by (rule run_batch_inv [OF inv assms(2)]) (use due_queue_head [OF some(2)] in simp_all)
      then have "r1 \<noteq> Ok ()" by (simp add: Halt)
      with Halt less.prems(3) show ?thesis by (subst (asm) sweep_loop.simps) simp
    next
      case (Continue p1 oc1 w1)
      with step obtain i where i: "p1 = p @ [i]" "sweep_inv X ?t w0 p1 oc1 w1" by auto
      then have "distinct (p @ [i])" "set (p @ [i]) \<subseteq> set (map dg_id (digests w0))"
        by (auto simp: sweep_inv_def)
      then have dec: "remaining p1 (map dg_id (digests w0)) < remaining p (map dg_id (digests w0))"
        unfolding i(1) by (rule remaining_snoc)
      have b: "run_batch X eng clock now (p @ [dr_id (read_row r0)]) (read_row r0) ?oc ?w = Continue p1 oc1 w1"
        using it Continue by simp
      have s: "serves (active_pairs w0) (mails w0) (set p1) oc1 w1"
        by (rule run_batch_serves [OF assms(2) _ _ _ b]) (use ok less.prems(2) in \<open>simp_all add: active_pairs_def\<close>)
      have "sweep_loop X eng clock now p1 oc1 w1 = Some (Ok (), oc', w')"
        using less.prems(3) Continue by (subst (asm) sweep_loop.simps) simp
      from less.hyps [OF dec i(2) s this] show ?thesis .
    qed
  qed
qed

text \<open>
  C3: nobody is forgotten: after a sweep that returned normally, every active recipient of a digest
  that was due and not locked by another session has a new mail of that digest, unless the tally
  names the digest among its failures.
\<close>

theorem sweep_serves_everyone:
  assumes "world_ok w" "mail_seam (en_mail_seam eng)"
    and "run_daily_pull X eng clock now w = Some (Ok oc, w')"
    and "r \<in> set (digests w)" "is_due (date_naive now) r" "dg_id r \<notin> set (row_locks w)"
    and "(dg_id r, u) \<in> active_pairs w"
  shows "dg_id r \<in> set (so_mail_delivery_failures oc) \<union> set (so_isolated_failures oc) \<or>
    (\<exists>new. mails w' = mails w @ new \<and> (dg_id r, u) \<in> mail_pair ` set new)"
proof -
  obtain r1 oc1 where "sweep_loop X eng clock now [] empty_outcome w = Some (r1, oc1, w')"
    "(case r1 of Ok _ \<Rightarrow> Ok oc1 | Err e \<Rightarrow> Err e | Panic \<Rightarrow> Panic) = Ok oc"
    using assms(3) by (auto simp: run_daily_pull_def)
  then have "sweep_loop X eng clock now [] empty_outcome w = Some (Ok (), oc, w')" by (cases r1) simp_all
  moreover have "serves (active_pairs w) (mails w) (set []) empty_outcome w" by (simp add: serves_def)
  ultimately obtain p where p: "sweep_inv X (date_naive now) w p oc w'" "due_queue (date_naive now) p w' = []"
    "serves (active_pairs w) (mails w) (set p) oc w'"
    using sweep_loop_serves [OF sweep_inv_start [OF assms(1)] assms(2)] by blast
  have all: "list_all2 (moved X (date_naive now) p (so_isolated_failures oc)) (digests w) (digests w')"
    and locks: "row_locks w' = row_locks w"
    using p(1) by (simp_all add: sweep_inv_def rest_view_def)
  obtain k where k: "k < length (digests w)" "digests w ! k = r" using assms(4) by (auto simp: in_set_conv_nth)
  then have m: "moved X (date_naive now) p (so_isolated_failures oc) r (digests w' ! k)"
    and k': "k < length (digests w')"
    using list_all2_nthD [OF all k(1)] list_all2_lengthD [OF all] by simp_all
  have "dg_id r \<in> set p"
  proof (rule ccontr)
    assume n: "dg_id r \<notin> set p"
    with m have "digests w' ! k = r" by (simp add: moved_def)
    then have "r \<in> set (digests w')" using k' nth_mem by metis
    with p(2) n locks assms(5,6) show False by (auto simp: due_queue_def filter_empty_conv)
  qed
  with p(3) assms(7) show ?thesis by (auto simp: serves_def named_def)
qed

lemma demo_sweep_ok:
  "\<exists>oc w'. run_daily_pull demo_externals demo_engine demo_clock demo_now demo_world = Some (Ok oc, w')"
proof -
  let ?oc = "empty_outcome\<lparr>so_claimed := 1\<rparr>"
  have q: "due_queue (date_naive demo_now) [] demo_world = [demo_digest]"
    by (simp add: due_queue_def is_due_def demo_world_def idle_world_def demo_digest_def demo_now_naive demo_day_def)
  have i: "dg_id demo_digest = 1" by (simp add: demo_digest_def)
  have nf: "sql_faults demo_world = []" by (rule demo_no_faults)
  obtain oc w1 where b: "process_digest demo_externals demo_engine demo_clock (read_row demo_digest) demo_now ?oc demo_world
      = (Ok (), oc, w1)" and f: "sql_faults w1 = []" using demo_batch by blast
  have "rest_view w1 = rest_view demo_world"
    by (rule sweep_preservesD [OF process_digest_preserves [OF demo_seam batch_stable_rest] refl b])
  then have "map dg_id (digests w1) = map dg_id (digests demo_world)" by (simp add: rest_view_def)
  then have "map dg_id (digests w1) = [1]" by (simp add: demo_world_def idle_world_def demo_digest_def)
  then have "\<forall>r \<in> set (digests w1). dg_id r = 1" by auto
  then have q1: "due_queue (date_naive demo_now) [1] w1 = []" by (simp add: due_queue_def)
  have first: "sweep_iteration demo_externals demo_engine demo_clock demo_now [] empty_outcome demo_world = Continue [1] oc w1"
    using b f nf q i
    by (simp add: sweep_iteration_def and_then_def tx_statement_def claim_def select_no_faults run_batch_def empty_outcome_def)
  have second: "sweep_iteration demo_externals demo_engine demo_clock demo_now [1] oc w1 = Halt (Ok ()) oc w1"
    using f q1 by (simp add: sweep_iteration_def and_then_def tx_statement_def claim_def select_no_faults)
  show ?thesis
    by (simp add: run_daily_pull_def, subst sweep_loop.simps, simp add: first, subst sweep_loop.simps, simp add: second)
qed

lemma sweep_serves_everyone_witness:
  "\<exists>oc w' new. run_daily_pull demo_externals demo_engine demo_clock demo_now demo_world = Some (Ok oc, w') \<and>
     (1 \<in> set (so_mail_delivery_failures oc) \<union> set (so_isolated_failures oc) \<or> (mails w' = new \<and> (1, 11) \<in> mail_pair ` set new))"
proof -
  obtain oc w' where run: "run_daily_pull demo_externals demo_engine demo_clock demo_now demo_world = Some (Ok oc, w')"
    using demo_sweep_ok by blast
  have d: "demo_digest \<in> set (digests demo_world)" "dg_id demo_digest = 1" "row_locks demo_world = []" "mails demo_world = []"
    "is_due (date_naive demo_now) demo_digest"
    by (simp_all add: demo_world_def idle_world_def demo_digest_def is_due_def demo_now_naive demo_day_def)
  have "(dg_id demo_digest, 11) \<in> active_pairs demo_world" using demo_active d(2) by simp
  with sweep_serves_everyone [OF demo_world_ok demo_seam run d(1) d(5)] d run show ?thesis by auto
qed

end
