(* ===== verification/Running_Module.thy ===== *)
theory Running_Module
  imports Module_Properties Sweep_Mails
begin

text \<open>
  The composed module at work. The state is the module, the failure book of its unsubscribe service
  and the tables; an event is anything that reaches it: the daily pull, a manual send, a request to
  the public tree, a delivery of \<^verbatim>\<open>sapiens.user.created\<close>, a verb the host calls, a change the host
  makes to the module, or a write of somebody else to the module's tables. Each event comes with the
  faults its statements meet, and runs to its end before the next one begins; \<open>Live_System\<close> lets the
  sweeps stop half way. Whatever the order of the events, the tables keep their keys, and a person
  who has unsubscribed gets no further mail of that digest until their row is subscribed again.
\<close>

section \<open>Events\<close>

record app =
  ap_module :: digest_module
  ap_book :: failure_book
  ap_world :: world

datatype verb =
    CreateDigest uuid string periodicity date
  | SetPeriodicity uuid string date
  | SetState uuid bool
  | EnableKpi uuid string
  | DisableKpi uuid string
  | SubscribeUser uuid uuid "metadata option"
  | AutoSubscribe uuid uuid metadata
  | StampMetadata uuid uuid metadata
  | ApplyUnsubscribe datetime uuid uuid
  | Resubscribe uuid uuid

text \<open>The primary key refuses an id that is taken.\<close>

fun run_verb :: "externals \<Rightarrow> digest_module \<Rightarrow> verb \<Rightarrow> world \<Rightarrow> world" where
  "run_verb X m (CreateDigest i nm p today) w =
     (if i \<in> dg_id ` set (digests w) then w else snd (create_digest (cal X) i nm p today w))"
| "run_verb X m (SetPeriodicity i v today) w = snd (set_periodicity (cal X) i v today w)"
| "run_verb X m (SetState i on) w = snd (set_state i on w)"
| "run_verb X m (EnableKpi i k) w = snd (module_enable_kpi m i k w)"
| "run_verb X m (DisableKpi i k) w = snd (disable_kpi i k w)"
| "run_verb X m (SubscribeUser i u extra) w = snd (subscribe_user i u extra w)"
| "run_verb X m (AutoSubscribe i u meta) w = snd (auto_subscribe_user i u meta w)"
| "run_verb X m (StampMetadata i u meta) w = snd (stamp_subscription_metadata i u meta w)"
| "run_verb X m (ApplyUnsubscribe wall i u) w = snd (apply_unsubscribe wall i u w)"
| "run_verb X m (Resubscribe i u) w = snd (resubscribe i u w)"

datatype app_event =
    DailyPull "uuid \<Rightarrow> uuid \<Rightarrow> datetime" datetime
  | SendNow "uuid \<Rightarrow> uuid \<Rightarrow> datetime" uuid datetime
  | Visit http_method string token_param token_param "response option" datetime int
  | UserCreated "json \<Rightarrow> string" datetime envelope
  | HostVerb verb
  | HostCall host_call
  | TableWrite "digest_rec list" "subscription_rec list" "kpi_rec list" "tip_rec list" "tip_user_rec list"

text \<open>
  \<open>TableWrite\<close> stands for every writer that is not one of the operations above: the generated CRUD
  and transition routes, whose service belongs to the framework, and the host's own SQL. It leaves
  any rows whatsoever, as long as the unique keys hold; the database refuses the others.
\<close>

text \<open>A pull that never returned would leave no state; \<open>sweep_loop_total\<close> excludes it.\<close>

fun serve :: "externals \<Rightarrow> app_event \<Rightarrow> app \<Rightarrow> app" where
  "serve X (DailyPull clock now) s =
     (case run_daily_pull X (render_service (ap_module s)) clock now (ap_world s) of
        Some (_, w) \<Rightarrow> s\<lparr>ap_world := w\<rparr> | None \<Rightarrow> s)"
| "serve X (SendNow clock i now) s =
     s\<lparr>ap_world := snd (send_now X (render_service (ap_module s)) clock i now (ap_world s))\<rparr>"
| "serve X (Visit verb path params form limited wall inst) s =
     (case digest_public_routes X (ap_module s) limited wall inst verb path params form (ap_book s) (ap_world s) of
        (_, b, w) \<Rightarrow> s\<lparr>ap_book := b, ap_world := w\<rparr>)"
| "serve X (UserCreated show_serde wall ev) s =
     s\<lparr>ap_world := snd (handle_user_created X show_serde (user_created_handler (ap_module s)) wall ev (ap_world s))\<rparr>"
| "serve X (HostVerb v) s = s\<lparr>ap_world := run_verb X (ap_module s) v (ap_world s)\<rparr>"
| "serve X (HostCall c) s = s\<lparr>ap_module := host_step c (ap_module s)\<rparr>"
| "serve X (TableWrite ds ss ks ts us) s =
     (let w = (ap_world s)\<lparr>digests := ds, subscriptions := ss, digest_kpis := ks, tips := ts, tip_users := us\<rparr>
      in if world_ok w then s\<lparr>ap_world := w\<rparr> else s)"

definition app_step :: "externals \<Rightarrow> string option list \<times> app_event \<Rightarrow> app \<Rightarrow> app" where
  "app_step X e s = serve X (snd e) (s\<lparr>ap_world := (ap_world s)\<lparr>sql_faults := fst e\<rparr>\<rparr>)"

definition run_app :: "externals \<Rightarrow> (string option list \<times> app_event) list \<Rightarrow> app \<Rightarrow> app" where
  "run_app X es s = fold (app_step X) es s"

lemma run_app_simps [simp]:
  "run_app X [] s = s" "run_app X (e # es) s = run_app X es (app_step X e s)"
  by (simp_all add: run_app_def)

lemma digest_public_routes_eq: "digest_public_routes = serve_public"
  by (simp add: digest_public_routes_def fun_eq_iff)

section \<open>The keys\<close>

lemma run_verb_keeps_keys: "world_ok w \<Longrightarrow> world_ok (run_verb X m v w)"
  using create_digest_ok set_periodicity_ok set_state_ok enable_kpi_ok disable_kpi_ok subscribe_user_ok
    auto_subscribe_user_ok stamp_ok apply_unsubscribe_ok resubscribe_ok
  by (cases v) (simp_all add: preserves_def module_enable_kpi_def)

lemma handle_user_created_keeps:
  assumes "\<And>d u meta. preserves P (auto_subscribe_user d u meta)" "\<And>w ev. P w \<Longrightarrow> P (write_audit ev w)" "P w"
  shows "P (snd (handle_user_created X se h wall ev w))"
proof -
  have "P (snd (case auto_subscribe_user d u meta w of
      (Ok True, w') \<Rightarrow> (Acked, write_audit (DigestUserAutoSubscribed d u) w')
    | (Ok False, w') \<Rightarrow> (Acked, w')
    | (Err e, w') \<Rightarrow> (HandlerError handler_name (''subscribe verb: '' @ show_error (uuid_show X) e), w')
    | (Panic, w') \<Rightarrow> (HandlerPanic, w')))" for d u meta
    using assms(1) [of d u meta] assms(2,3)
    by (auto simp: preserves_def split: prod.split res.split bool.split)
  with assms(2,3) show ?thesis
    by (auto simp: handle_user_created_def split: option.split sum.split)
qed

lemma visit_cases:
  obtains (same) "ap_world (serve X (Visit verb path params form limited wall inst) s) = ap_world s"
  | (applied) d u where "ap_world (serve X (Visit verb path params form limited wall inst) s) =
      snd (apply_unsubscribe wall d u (ap_world s))"
proof (cases rule: serve_public_cases [of verb path limited X "ap_module s" wall inst params form "ap_book s" "ap_world s"])
  case acts
  then show ?thesis
    using same applied
    by (cases rule: post_cases [of X "ap_module s" wall inst params form "ap_book s" "ap_world s"])
      (auto simp: digest_public_routes_eq split_beta)
qed (use same in \<open>simp add: digest_public_routes_eq\<close>)

lemma serve_keeps_keys:
  assumes "mail_seam (dm_mail_seam (ap_module s))" "world_ok (ap_world s)"
  shows "world_ok (ap_world (serve X e s))"
proof (cases e)
  case (DailyPull clock now)
  have "mail_seam (en_mail_seam (render_service (ap_module s)))" using assms(1) by (simp add: render_service_def)
  then obtain r oc w' where
    "run_daily_pull X (render_service (ap_module s)) clock now (ap_world s) =
       Some (case r of Ok _ \<Rightarrow> Ok oc | Err e \<Rightarrow> Err e | Panic \<Rightarrow> Panic, w')"
    "sweep_end X (date_naive now) (ap_world s) r oc w'"
    using run_daily_pull_end [OF assms(2)] by blast
  with DailyPull show ?thesis by (simp add: sweep_end_def)
next
  case (SendNow clock i now)
  have "mail_seam (en_mail_seam (render_service (ap_module s)))" using assms(1) by (simp add: render_service_def)
  from send_now_preserves [OF this world_ok_stable] SendNow assms(2) show ?thesis by (simp add: preserves_def)
next
  case (Visit verb path params form limited wall inst)
  show ?thesis
    unfolding Visit
    by (cases rule: visit_cases [of X verb path params form limited wall inst s])
      (use assms(2) apply_unsubscribe_ok in \<open>simp_all add: preserves_def\<close>)
next
  case (UserCreated show_serde wall ev)
  then show ?thesis
    using handle_user_created_keeps [of world_ok "ap_world s", OF auto_subscribe_user_ok _ assms(2)] by simp
qed (use assms run_verb_keeps_keys in \<open>simp_all add: Let_def\<close>)

lemma serve_seam: "dm_mail_seam (ap_module (serve X e s)) = dm_mail_seam (ap_module s)"
  by (cases e) (simp_all add: host_step_seam Let_def split: option.split prod.split)

lemma app_step_seam: "dm_mail_seam (ap_module (app_step X e s)) = dm_mail_seam (ap_module s)"
  by (simp add: app_step_def serve_seam)

lemma app_step_keeps_keys:
  "mail_seam (dm_mail_seam (ap_module s)) \<Longrightarrow> world_ok (ap_world s) \<Longrightarrow> world_ok (ap_world (app_step X e s))"
  by (simp add: app_step_def serve_keeps_keys)

lemma run_app_invariant:
  assumes "mail_seam (dm_mail_seam (ap_module s))" "I (ap_world s)" "list_all ok es"
    and "\<And>e s. mail_seam (dm_mail_seam (ap_module s)) \<Longrightarrow> I (ap_world s) \<Longrightarrow> ok e \<Longrightarrow> I (ap_world (app_step X e s))"
  shows "I (ap_world (run_app X es s))"
  using assms(1-3) by (induction es arbitrary: s) (simp_all add: app_step_seam assms(4))

section \<open>The mails\<close>

text \<open>Whatever an event does, it queues mails to active pairs only, and takes none back.\<close>

definition mails_within :: "(uuid \<times> uuid) set \<Rightarrow> world \<Rightarrow> world \<Rightarrow> bool" where
  "mails_within A w w' \<longleftrightarrow> (\<exists>new. mails w' = mails w @ new \<and> mail_pair ` set new \<subseteq> A)"

lemma mails_within_refl: "mails w' = mails w \<Longrightarrow> mails_within A w w'"
  by (simp add: mails_within_def)

lemma mails_within_trans: "mails_within A w w1 \<Longrightarrow> mails_within A w1 w2 \<Longrightarrow> mails_within A w w2"
  by (fastforce simp: mails_within_def)

lemma preserves_view_sql:
  "(\<And>w fs. f (w\<lparr>sql_faults := fs\<rparr>) = f w) \<Longrightarrow> (\<And>w. f (snd (st w)) = f w) \<Longrightarrow> preserves (\<lambda>w. f w = v) (sql st)"
  by (rule preserves_sql) simp_all

lemma update_digest_quiet:
  "mails (snd (update_digest i f w)) = mails w" "subscriptions (snd (update_digest i f w)) = subscriptions w"
  by (simp_all add: update_digest_def update_where_def)

text \<open>The verbs on digests and KPIs touch neither mails nor subscriptions, the others no mails.\<close>

lemma digest_verb_frame:
  "preserves (\<lambda>w. (mails w, subscriptions w) = v) (create_digest cl i nm p today)"
  "preserves (\<lambda>w. (mails w, subscriptions w) = v) (set_periodicity cl i value today)"
  "preserves (\<lambda>w. (mails w, subscriptions w) = v) (set_state i on)"
  "preserves (\<lambda>w. (mails w, subscriptions w) = v) (enable_kpi g i k)"
  "preserves (\<lambda>w. (mails w, subscriptions w) = v) (disable_kpi i k)"
  unfolding create_digest_def set_periodicity_def set_state_def enable_kpi_def disable_kpi_def
  by (auto intro!: preserves_and_then preserves_view_sql simp: update_digest_quiet split: option.split)

lemma subscription_verb_mails:
  "preserves (\<lambda>w. mails w = v) (subscribe_user i u extra)"
  "preserves (\<lambda>w. mails w = v) (auto_subscribe_user i u meta)"
  "preserves (\<lambda>w. mails w = v) (stamp_subscription_metadata i u meta)"
  "preserves (\<lambda>w. mails w = v) (apply_unsubscribe wall i u)"
  "preserves (\<lambda>w. mails w = v) (resubscribe i u)"
  subgoal unfolding subscribe_user_def Let_def by (rule preserves_view_sql) simp_all
  subgoal unfolding auto_subscribe_user_def
    by (intro preserves_and_then preserves_return preserves_view_sql) (simp_all split: prod.split)
  subgoal unfolding stamp_subscription_metadata_def by (rule preserves_view_sql) simp_all
  subgoal by (simp add: preserves_def apply_unsubscribe_frame)
  subgoal unfolding resubscribe_def
    by (intro preserves_and_then preserves_return preserves_view_sql) (simp_all add: update_where_def)
  done

lemma run_verb_mails: "mails (run_verb X m v w) = mails w"
  using digest_verb_frame [of "(mails w, subscriptions w)"] subscription_verb_mails [of "mails w"]
  by (cases v) (simp_all add: preserves_def module_enable_kpi_def)

text \<open>A manual send.\<close>

lemma send_now_all_mails:
  assumes "mail_seam (en_mail_seam eng)"
  shows "mails_within ((\<lambda>r. (dr_id d, rr_user_id r)) ` set rs) w (snd (send_now_all X eng clock d now rs acc w))"
proof (induction rs arbitrary: acc w)
  case Nil
  then show ?case by (simp add: mails_within_refl)
next
  case (Cons r rs)
  let ?A = "(\<lambda>r. (dr_id d, rr_user_id r)) ` set (r # rs)"
  obtain a b c where acc: "acc = (a, b, c)" by (cases acc) auto
  obtain res w1 where s: "send_to_recipient X eng (clock (dr_id d) (rr_user_id r)) d r now w = (res, w1)"
    by (cases "send_to_recipient X eng (clock (dr_id d) (rr_user_id r)) d r now w") auto
  have "mails_within ?A w w1"
    by (cases rule: send_to_recipient_mails [OF assms, of X "clock (dr_id d) (rr_user_id r)" d r now w])
      (use s in \<open>auto simp: mails_within_def\<close>)
  moreover have "mails_within ?A w1 (snd (send_now_all X eng clock d now rs acc' w1))" for acc'
    using Cons.IH [of w1 acc'] by (auto simp: mails_within_def)
  ultimately have "mails_within ?A w (snd (send_now_all X eng clock d now rs acc' w1))" for acc'
    by (rule mails_within_trans)
  with \<open>mails_within ?A w w1\<close> s acc show ?case by (cases res) (auto split: digest_error.split)
qed

lemma send_now_mails:
  assumes "mail_seam (en_mail_seam eng)"
  shows "mails_within (active_pairs w) w (snd (send_now X eng clock i now w))"
proof -
  obtain row w1 where g: "get_digest i w = (row, w1)" by (cases "get_digest i w") auto
  have "reads_only (get_digest i)" unfolding get_digest_def by (rule reads_only_select)
  from reads_onlyD [OF this g] obtain fs where w1: "w1 = w\<lparr>sql_faults := fs\<rparr>" by blast
  have same: "mails w1 = mails w" by (simp add: w1)
  have "mails_within (active_pairs w) w (snd (send_now X eng clock i now w))" if "\<And>d. row \<noteq> Ok (Some d)"
  proof -
    have "snd (send_now X eng clock i now w) = w1"
    proof (cases row)
      case (Ok x)
      with that [of "the x"] have "x = None" by (cases x) simp_all
      with g Ok show ?thesis by (simp add: send_now_def and_then_def throw_def)
    qed (use g in \<open>simp_all add: send_now_def and_then_def\<close>)
    with same show ?thesis by (simp add: mails_within_refl)
  qed
  moreover have "mails_within (active_pairs w) w (snd (send_now X eng clock i now w))" if found: "row = Ok (Some d)" for d
  proof -
    obtain rs w2 where a: "active_recipients (dr_id d) w1 = (rs, w2)" by (cases "active_recipients (dr_id d) w1") auto
    have "reads_only (active_recipients (dr_id d))" unfolding active_recipients_def by (rule reads_only_select)
    from reads_onlyD [OF this a] obtain fs2 where w2: "w2 = w1\<lparr>sql_faults := fs2\<rparr>" by blast
    have same2: "mails w2 = mails w" by (simp add: w2 w1)
    show ?thesis
    proof (cases rs)
      case (Ok l)
      have "l = recipients_of (dr_id d) w1" using active_recipients_Ok [of "dr_id d" w1 l w2] a Ok by simp
      then have "l = recipients_of (dr_id d) w" by (simp add: w1)
      then have "(\<lambda>r. (dr_id d, rr_user_id r)) ` set l \<subseteq> active_pairs w"
        using recipients_of_ids [of "dr_id d" w] by auto
      moreover have "snd (send_now X eng clock i now w) = snd (send_now_all X eng clock d now l (0, 0, 0) w2)"
        using g found a Ok by (simp add: send_now_def and_then_def)
      moreover note send_now_all_mails [OF assms, of d l w2 X clock now "(0, 0, 0)"]
      ultimately show ?thesis using same2 by (fastforce simp: mails_within_def)
    qed (use g found a same2 in \<open>simp_all add: send_now_def and_then_def mails_within_refl\<close>)
  qed
  ultimately show ?thesis by blast
qed

lemma daily_pull_mails:
  assumes "world_ok w" "mail_seam (en_mail_seam eng)" "run_daily_pull X eng clock now w = Some (r, w')"
  shows "mails_within (active_pairs w) w w'"
proof -
  obtain r1 oc where "sweep_loop X eng clock now [] empty_outcome w = Some (r1, oc, w')"
    using assms(3) by (auto simp: run_daily_pull_def)
  moreover have "batch_mails X eng (active_pairs w) (mails w) (set []) 0 UNIV w"
    by (simp add: batch_mails_def)
  ultimately obtain p where "batch_mails X eng (active_pairs w) (mails w) p 0 UNIV w'"
    using sweep_loop_mails assms(1,2) by (metis snd_conv)
  then show ?thesis by (auto simp: batch_mails_def mails_within_def)
qed

lemma serve_mails:
  assumes "mail_seam (dm_mail_seam (ap_module s))" "world_ok (ap_world s)"
  shows "mails_within (active_pairs (ap_world s)) (ap_world s) (ap_world (serve X e s))"
proof (cases e)
  case (DailyPull clock now)
  have "mail_seam (en_mail_seam (render_service (ap_module s)))" using assms(1) by (simp add: render_service_def)
  from daily_pull_mails [OF assms(2) this] DailyPull show ?thesis
    by (auto simp: mails_within_refl split: option.split)
next
  case (SendNow clock i now)
  have "mail_seam (en_mail_seam (render_service (ap_module s)))" using assms(1) by (simp add: render_service_def)
  from send_now_mails [OF this] SendNow show ?thesis by simp
next
  case (Visit verb path params form limited wall inst)
  show ?thesis
    unfolding Visit
    by (cases rule: visit_cases [of X verb path params form limited wall inst s])
      (simp_all add: mails_within_refl apply_unsubscribe_frame)
next
  case (UserCreated show_serde wall ev)
  then show ?thesis
    using handle_user_created_keeps [of "\<lambda>w. mails w = mails (ap_world s)" "ap_world s", OF subscription_verb_mails(2)]
    by (simp add: mails_within_refl)
qed (simp_all add: mails_within_refl run_verb_mails Let_def)

section \<open>Opting out\<close>

text \<open>A row of the pair exists and says unsubscribed; a pair has one row at most.\<close>

definition opted_out :: "uuid \<Rightarrow> uuid \<Rightarrow> world \<Rightarrow> bool" where
  "opted_out d u w \<longleftrightarrow> (\<exists>r \<in> set (subscriptions w). sub_key r = (d, u) \<and> su_state r = Unsubscribed)"

text \<open>What brings a pair back: an explicit verb, or a foreign write that does not leave it unsubscribed.\<close>

fun opts_in :: "uuid \<Rightarrow> uuid \<Rightarrow> app_event \<Rightarrow> bool" where
  "opts_in d u (HostVerb (SubscribeUser i j extra)) = ((i, j) = (d, u))"
| "opts_in d u (HostVerb (Resubscribe i j)) = ((i, j) = (d, u))"
| "opts_in d u (TableWrite ds ss ks ts us) = (\<not> list_ex (\<lambda>r. sub_key r = (d, u) \<and> su_state r = Unsubscribed) ss)"
| "opts_in d u e = False"

lemma opted_out_cong: "subscriptions w' = subscriptions w \<Longrightarrow> opted_out d u w' = opted_out d u w"
  by (simp add: opted_out_def)

lemma opted_out_frame [simp]:
  "opted_out d u (w\<lparr>sql_faults := fs\<rparr>) = opted_out d u w" "opted_out d u (write_audit ev w) = opted_out d u w"
  "opted_out d u (rollback_to ds w) = opted_out d u w"
  by (simp_all add: opted_out_def rollback_to_def)

lemma opted_out_not_active:
  assumes "world_ok w" "opted_out d u w"
  shows "(d, u) \<notin> active_pairs w"
proof
  assume "(d, u) \<in> active_pairs w"
  then obtain r where r: "r \<in> set (subscriptions w)" "unsubscribable d u r" by (auto simp: active_pairs_iff)
  obtain r' where r': "r' \<in> set (subscriptions w)" "sub_key r' = (d, u)" "su_state r' = Unsubscribed"
    using assms(2) by (auto simp: opted_out_def)
  have "unique_key sub_key (subscriptions w)" using assms(1) by (simp add: world_ok_def)
  from keyed_table.key_inj [OF this r(1) r'(1)] unsubscribable_key [OF r(2)] r'(2) have "r = r'" by simp
  with r(2) r'(3) show False by (simp add: unsubscribable_def)
qed

text \<open>An update that leaves the pair's row unsubscribed leaves the pair opted out; so does an insert.\<close>

lemma opted_out_update:
  assumes "opted_out d u w" "\<And>r. sub_key (f r) = sub_key r"
    and "\<And>r. p r \<Longrightarrow> sub_key r = (d, u) \<Longrightarrow> su_state r = Unsubscribed \<Longrightarrow> su_state (f r) = Unsubscribed"
  shows "opted_out d u (w\<lparr>subscriptions := snd (update_where p f (subscriptions w))\<rparr>)"
proof -
  obtain r where r: "r \<in> set (subscriptions w)" "sub_key r = (d, u)" "su_state r = Unsubscribed"
    using assms(1) by (auto simp: opted_out_def)
  let ?r = "if p r then f r else r"
  have "sub_key ?r = (d, u)" "su_state ?r = Unsubscribed" using r(2,3) assms(2,3) by auto
  moreover have "?r \<in> (\<lambda>r. if p r then f r else r) ` set (subscriptions w)" using r(1) by (rule imageI)
  ultimately show ?thesis unfolding opted_out_def update_where_def by (auto simp del: if_split)
qed

lemma opted_out_insert:
  "opted_out d u w \<Longrightarrow> opted_out d u (w\<lparr>subscriptions := snd (insert_or_ignore sub_key r (subscriptions w))\<rparr>)"
  by (auto simp: opted_out_def insert_or_ignore_def)

lemma opted_out_append: "opted_out d u w \<Longrightarrow> opted_out d u (w\<lparr>subscriptions := subscriptions w @ rows\<rparr>)"
  by (auto simp: opted_out_def)

lemma opted_out_subscribe:
  assumes "(i, j) \<noteq> (d, u)"
  shows "preserves (opted_out d u) (subscribe_user i j extra)"
  unfolding subscribe_user_def Let_def
proof (rule preserves_sql)
  fix w assume o: "opted_out d u w"
  have "opted_out d u (w\<lparr>subscriptions := snd (update_where (\<lambda>r. sub_key r = (i, j)) (resubscribe_row meta) (subscriptions w))\<rparr>)"
    for meta by (rule opted_out_update [OF o]) (use assms in \<open>simp_all add: resubscribe_row_def sub_key_def\<close>)
  with opted_out_append [OF o] show "opted_out d u (snd (if (i, j) \<in> sub_key ` set (subscriptions w)
      then (False, w\<lparr>subscriptions := snd (update_where (\<lambda>r. sub_key r = (i, j))
             (resubscribe_row (case extra of None \<Rightarrow> Map.empty | Some m \<Rightarrow> m)) (subscriptions w))\<rparr>)
      else (True, w\<lparr>subscriptions := subscriptions w @ [\<lparr> su_digest_id = i, su_user_id = j, su_state = Subscribed,
             su_unsubscribed_at = None, su_metadata = (case extra of None \<Rightarrow> Map.empty | Some m \<Rightarrow> m) \<rparr>]\<rparr>)))"
    by simp
qed simp

lemma opted_out_stamp: "preserves (opted_out d u) (stamp_subscription_metadata i j meta)"
  unfolding stamp_subscription_metadata_def
  by (rule preserves_sql, simp, simp, rule opted_out_update) (simp_all add: sub_key_def)

lemma opted_out_auto: "preserves (opted_out d u) (auto_subscribe_user i j meta)"
  unfolding auto_subscribe_user_def
  by (intro preserves_and_then preserves_return preserves_sql) (simp_all add: opted_out_insert split_beta)

lemma opted_out_apply: "preserves (opted_out d u) (apply_unsubscribe wall i j)"
  unfolding apply_unsubscribe_def
proof (intro preserves_and_then preserves_sql)
  fix w assume o: "opted_out d u w"
  show "opted_out d u (snd (case update_where (unsubscribable i j)
      (\<lambda>r. r\<lparr>su_state := Unsubscribed, su_unsubscribed_at := Some wall\<rparr>) (subscriptions w) of
      (n, rows) \<Rightarrow> (n, w\<lparr>subscriptions := rows\<rparr>)))"
    unfolding split_beta snd_conv by (rule opted_out_update [OF o]) (simp_all add: sub_key_def)
qed (simp_all add: preserves_def)

lemma opted_out_resubscribe:
  assumes "(i, j) \<noteq> (d, u)"
  shows "preserves (opted_out d u) (resubscribe i j)"
  unfolding resubscribe_def
proof (intro preserves_and_then preserves_return preserves_sql)
  fix w assume o: "opted_out d u w"
  show "opted_out d u (snd (case update_where
      (\<lambda>r. su_digest_id r = i \<and> su_user_id r = j \<and> su_state r = Unsubscribed \<and> not_deleted (su_metadata r))
      (\<lambda>r. r\<lparr>su_state := Subscribed, su_unsubscribed_at := None\<rparr>) (subscriptions w) of
      (n, rows) \<Rightarrow> (n, w\<lparr>subscriptions := rows\<rparr>)))"
    unfolding split_beta snd_conv by (rule opted_out_update [OF o]) (use assms in \<open>auto simp: sub_key_def\<close>)
qed simp

lemma run_verb_opted_out:
  assumes "\<not> opts_in d u (HostVerb v)" "opted_out d u w"
  shows "opted_out d u (run_verb X m v w)"
proof -
  note same = digest_verb_frame [of "(mails w, subscriptions w)", unfolded preserves_def, rule_format, OF refl]
  have frame: "opted_out d u w'" if "subscriptions w' = subscriptions w" for w'
    using that assms(2) opted_out_cong [of w' w d u] by simp
  have kept: "opted_out d u (snd (f w))" if "preserves (opted_out d u) f" for f :: "'x io"
    using that assms(2) by (simp add: preserves_def)
  show ?thesis
  proof (cases v)
    case CreateDigest
    with assms(2) same(1) show ?thesis by (simp add: frame)
  next
    case (SubscribeUser i j extra)
    with assms(1) show ?thesis by (simp add: kept opted_out_subscribe)
  next
    case (Resubscribe i j)
    with assms(1) show ?thesis by (simp add: kept opted_out_resubscribe)
  qed (use same in \<open>simp_all add: module_enable_kpi_def frame
      kept opted_out_stamp opted_out_auto opted_out_apply\<close>)
qed

text \<open>A delivery keeps the pair opted out, and so does the sweep, rollbacks included.\<close>

lemma opted_out_stable: "batch_stable (opted_out d u)"
  unfolding batch_stable_def delivery_stable_def
proof (intro conjI allI impI)
  fix w w' assume "opted_out d u w" "only_mails_differ w w'"
  then show "opted_out d u w'" using opted_out_cong [of w' w d u] by (simp add: only_mails_differ_def)
next
  fix w i j s assume "opted_out d u w"
  then show "opted_out d u (w\<lparr>subscriptions := snd (update_where (\<lambda>r. su_digest_id r = i \<and> su_user_id r = j)
      (\<lambda>r. r\<lparr>su_metadata := (su_metadata r)(''first_digest_sent_at'' \<mapsto> s)\<rparr>) (subscriptions w))\<rparr>)"
    by (rule opted_out_update) (simp_all add: sub_key_def)
next
  fix w i f assume "opted_out d u w"
  then show "opted_out d u (snd (update_digest i f w))"
    using opted_out_cong [of "snd (update_digest i f w)" w d u] by (simp add: update_digest_quiet)
next
  fix w t assume "opted_out d u w"
  then show "opted_out d u (w\<lparr>tip_users := snd (insert_or_ignore tip_user_key t (tip_users w))\<rparr>)"
    by (simp add: opted_out_def)
qed simp_all

lemma tx_statement_keeps: "batch_stable P \<Longrightarrow> P w \<Longrightarrow> P (snd (tx_statement w))"
  unfolding tx_statement_def
  by (cases rule: select_cases [of "\<lambda>_. ()" w]) (simp_all add: batch_stable_def delivery_stable_def)

lemma run_batch_keeps:
  assumes "mail_seam (en_mail_seam eng)" "batch_stable P" "\<And>w ds. P w \<Longrightarrow> P (rollback_to ds w)" "P w"
  shows "case run_batch X eng clock now p d oc w of Continue p' oc' w' \<Rightarrow> P w' | Halt r oc' w' \<Rightarrow> P w'"
proof -
  obtain r oc1 w1 where pd: "process_digest X eng clock d now oc w = (r, oc1, w1)"
    by (cases "process_digest X eng clock d now oc w") auto
  have P1: "P w1" by (rule sweep_preservesD [OF process_digest_preserves [OF assms(1,2)] assms(4) pd])
  have log: "P w \<Longrightarrow> P (write_audit ev w)" for w ev
    using assms(2) by (simp add: batch_stable_def delivery_stable_def)
  obtain a w2 where t: "tx_statement w1 = (a, w2)" by (cases "tx_statement w1") auto
  obtain b w3 where u: "tx_statement (rollback_to (digests w) w1) = (b, w3)"
    by (cases "tx_statement (rollback_to (digests w) w1)") auto
  have "P w2" using tx_statement_keeps [OF assms(2) P1] t by simp
  moreover have "P w3"
    using tx_statement_keeps [OF assms(2) assms(3) [OF P1, of "digests w"]] u by simp
  ultimately show ?thesis
    using pd t u P1 assms(3) log by (cases r; cases a; cases b) (simp_all add: run_batch_def Let_def)
qed

lemma sweep_iteration_keeps:
  assumes "mail_seam (en_mail_seam eng)" "batch_stable P" "\<And>w ds. P w \<Longrightarrow> P (rollback_to ds w)" "P w"
  shows "case sweep_iteration X eng clock now p oc w of Continue p' oc' w' \<Rightarrow> P w' | Halt r oc' w' \<Rightarrow> P w'"
proof -
  obtain r w1 where c: "and_then tx_statement (\<lambda>_. claim (date_naive now) p) w = (r, w1)"
    by (cases "and_then tx_statement (\<lambda>_. claim (date_naive now) p) w") auto
  have "reads_only (and_then tx_statement (\<lambda>_. claim (date_naive now) p))"
    unfolding tx_statement_def claim_def by (intro reads_only_and_then reads_only_select)
  from reads_only_preserves [OF this, of P] c assms(2,4) have P1: "P w1"
    by (metis batch_stable_def delivery_stable_def preservesD)
  show ?thesis
    using run_batch_keeps [OF assms(1-3) P1] c P1
    by (cases r) (simp_all add: sweep_iteration_def split: option.split)
qed

lemma sweep_loop_keeps:
  assumes "sweep_loop X eng clock now p oc w = Some res" "mail_seam (en_mail_seam eng)"
    and P: "batch_stable P" "\<And>w ds. P w \<Longrightarrow> P (rollback_to ds w)" and "P w"
  shows "P (snd (snd res))"
  using assms(2,5)
proof (induction rule: sweep_loop.raw_induct [OF _ assms(1), consumes 0])
  case (1 loop X eng clock now p oc w res)
  note step = sweep_iteration_keeps [OF 1(3) P 1(4), of X clock now p oc]
  show ?case
  proof (cases "sweep_iteration X eng clock now p oc w")
    case (Halt r1 oc1 w1)
    with step 1(2) show ?thesis by auto
  next
    case (Continue p1 oc1 w1)
    with 1(2) have "loop X eng clock now p1 oc1 w1 = Some res" by simp
    from 1(1) [OF this 1(3)] step Continue show ?thesis by simp
  qed
qed

lemma serve_opted_out:
  assumes "mail_seam (dm_mail_seam (ap_module s))" "opted_out d u (ap_world s)" "\<not> opts_in d u e"
  shows "opted_out d u (ap_world (serve X e s))"
proof (cases e)
  case (DailyPull clock now)
  have seam: "mail_seam (en_mail_seam (render_service (ap_module s)))" using assms(1) by (simp add: render_service_def)
  have "opted_out d u w'" if run: "run_daily_pull X (render_service (ap_module s)) clock now (ap_world s) = Some (r, w')" for r w'
  proof -
    obtain r1 oc where "sweep_loop X (render_service (ap_module s)) clock now [] empty_outcome (ap_world s) = Some (r1, oc, w')"
      using run by (auto simp: run_daily_pull_def)
    from sweep_loop_keeps [OF this seam opted_out_stable _ assms(2)] show ?thesis by simp
  qed
  with DailyPull assms(2) show ?thesis by (auto split: option.split)
next
  case (SendNow clock i now)
  have "mail_seam (en_mail_seam (render_service (ap_module s)))" using assms(1) by (simp add: render_service_def)
  moreover have "delivery_stable (opted_out d u)" using opted_out_stable by (simp add: batch_stable_def)
  ultimately have "preserves (opted_out d u) (send_now X (render_service (ap_module s)) clock i now)"
    by (rule send_now_preserves)
  with SendNow assms(2) show ?thesis by (simp add: preserves_def)
next
  case (Visit verb path params form limited wall inst)
  show ?thesis
    unfolding Visit
    by (cases rule: visit_cases [of X verb path params form limited wall inst s])
      (use assms(2) opted_out_apply in \<open>simp_all add: preserves_def\<close>)
next
  case (UserCreated show_serde wall ev)
  then show ?thesis using handle_user_created_keeps [OF opted_out_auto _ assms(2)] by simp
next
  case TableWrite
  with assms(2,3) show ?thesis by (auto simp: opted_out_def list_ex_iff Let_def)
qed (use assms run_verb_opted_out in simp_all)

text \<open>The state of a pair that has opted out, and the mails since.\<close>

definition silent_since :: "outgoing_mail list \<Rightarrow> uuid \<Rightarrow> uuid \<Rightarrow> world \<Rightarrow> bool" where
  "silent_since M d u w \<longleftrightarrow> world_ok w \<and> opted_out d u w \<and>
     (\<exists>new. mails w = M @ new \<and> (d, u) \<notin> mail_pair ` set new)"

lemma app_step_silent:
  assumes "mail_seam (dm_mail_seam (ap_module s))" "silent_since M d u (ap_world s)" "\<not> opts_in d u (snd e)"
  shows "silent_since M d u (ap_world (app_step X e s))"
proof -
  let ?s = "s\<lparr>ap_world := (ap_world s)\<lparr>sql_faults := fst e\<rparr>\<rparr>"
  have ok: "mail_seam (dm_mail_seam (ap_module ?s))" "world_ok (ap_world ?s)" "opted_out d u (ap_world ?s)"
    and old: "\<exists>new. mails (ap_world s) = M @ new \<and> (d, u) \<notin> mail_pair ` set new"
    using assms(1,2) by (simp_all add: silent_since_def)
  obtain new where "mails (ap_world (serve X (snd e) ?s)) = mails (ap_world s) @ new"
    "mail_pair ` set new \<subseteq> active_pairs (ap_world ?s)"
    using serve_mails [OF ok(1,2), of X "snd e"] by (auto simp: mails_within_def)
  then have "\<exists>new. mails (ap_world (serve X (snd e) ?s)) = M @ new \<and> (d, u) \<notin> mail_pair ` set new"
    using old opted_out_not_active [OF ok(2,3)] by fastforce
  then show ?thesis
    using serve_keeps_keys [OF ok(1,2)] serve_opted_out [OF ok(1,3) assms(3)]
    by (simp add: silent_since_def app_step_def)
qed

lemma run_app_silent:
  assumes "mail_seam (dm_mail_seam (ap_module s))" "silent_since M d u (ap_world s)"
    and "list_all (\<lambda>e. \<not> opts_in d u (snd e)) es"
  shows "silent_since M d u (ap_world (run_app X es s))"
  by (rule run_app_invariant [of s "silent_since M d u", OF assms]) (rule app_step_silent)

section \<open>What the system promises\<close>

lemma silent_at_start:
  "world_ok w \<Longrightarrow> opted_out d u w \<Longrightarrow> silent_since (mails w) d u w"
  by (simp add: silent_since_def)

text \<open>
  An opt-out holds. Once a pair's row says unsubscribed, no event of any kind, in any number and
  order and whatever statements fail, queues that person a mail of that digest or makes the pair
  active again, except the two verbs by which the host subscribes the pair explicitly and a foreign
  write that changes the row itself.
\<close>

theorem opt_out_is_respected:
  assumes "mail_seam (dm_mail_seam (ap_module s))" "world_ok (ap_world s)" "opted_out d u (ap_world s)"
    and "list_all (\<lambda>e. \<not> opts_in d u (snd e)) es"
  shows "\<exists>new. mails (ap_world (run_app X es s)) = mails (ap_world s) @ new \<and> (d, u) \<notin> mail_pair ` set new \<and>
    (d, u) \<notin> active_pairs (ap_world (run_app X es s))"
  using run_app_silent [OF assms(1) silent_at_start [OF assms(2,3)] assms(4), of X] opted_out_not_active
  by (auto simp: silent_since_def)

definition demo_app :: app where
  "demo_app = \<lparr> ap_module = demo_module, ap_book = book_new, ap_world = demo_world \<rparr>"

text \<open>A day of the deployment: a pull, a manual send that loses its connection, a newcomer's event, a pull.\<close>

definition demo_day_events :: "(string option list \<times> app_event) list" where
  "demo_day_events =
     [([], DailyPull demo_clock demo_now), ([None, Some ''down''], SendNow demo_clock 1 demo_now),
      ([], UserCreated (\<lambda>_. ''bad uuid'') demo_now demo_event),
      ([], HostVerb (SubscribeUser 1 12 None)), ([], DailyPull demo_clock (demo_now + day_nanos))]"

lemma demo_app_seam: "mail_seam (dm_mail_seam (ap_module (demo_app\<lparr>ap_world := w\<rparr>)))"
  by (simp add: demo_app_def demo_module_def recording.mail_seam_axioms)

lemma demo_day_events_keep: "list_all (\<lambda>e. \<not> opts_in 1 11 (snd e)) demo_day_events"
  by (simp add: demo_day_events_def)

definition opted_world :: world where
  "opted_world = demo_world\<lparr>subscriptions := [demo_subscription 11\<lparr>su_state := Unsubscribed\<rparr>, demo_subscription 12]\<rparr>"

lemma opt_out_is_respected_witness:
  "\<exists>new. mails (ap_world (run_app demo_externals demo_day_events (demo_app\<lparr>ap_world := opted_world\<rparr>))) = new \<and>
     (1, 11) \<notin> mail_pair ` set new"
proof -
  have "world_ok opted_world"
    using demo_world_ok by (simp add: opted_world_def demo_world_def world_ok_def unique_key_def sub_key_def demo_subscription_def)
  moreover have "opted_out 1 11 opted_world"
    by (simp add: opted_out_def opted_world_def demo_subscription_def sub_key_def)
  moreover have "mails opted_world = []" by (simp add: opted_world_def demo_world_def idle_world_def)
  ultimately show ?thesis
    using opt_out_is_respected [of "demo_app\<lparr>ap_world := opted_world\<rparr>" 1 11 demo_day_events demo_externals,
        OF demo_app_seam _ _ demo_day_events_keep] by auto
qed

lemma applied_opts_out:
  assumes "world_ok w" "sql_faults w = []" "(d, u) \<in> active_pairs w"
  shows "opted_out d u (snd (apply_unsubscribe wall d u w))"
proof -
  let ?f = "\<lambda>r. r\<lparr>su_state := Unsubscribed, su_unsubscribed_at := Some wall\<rparr>"
  obtain r where r: "r \<in> set (subscriptions w)" "unsubscribable d u r" using assms(3) by (auto simp: active_pairs_iff)
  then have "?f r \<in> set (snd (update_where (unsubscribable d u) ?f (subscriptions w)))"
    by (force simp: update_where_def)
  moreover have "sub_key (?f r) = (d, u) \<and> su_state (?f r) = Unsubscribed"
    using unsubscribable_key [OF r(2)] by (simp add: sub_key_def)
  ultimately have "opted_out d u (w\<lparr>subscriptions := snd (update_where (unsubscribable d u) ?f (subscriptions w))\<rparr>)"
    unfolding opted_out_def by (intro bexI [of _ "?f r"]) simp_all
  then show ?thesis
    using apply_unsubscribe_eq [OF assms(1,2), of wall d u] assms(3) by (simp add: Let_def)
qed

text \<open>The click on a mailed link, as an event.\<close>

definition click :: "string \<Rightarrow> datetime \<Rightarrow> int \<Rightarrow> app_event" where
  "click tok wall inst = Visit Post ''/digest/unsubscribe'' \<lparr>tp_t = Some tok, tp_confirm = None\<rparr>
     \<lparr>tp_t = None, tp_confirm = None\<rparr> None wall inst"

lemma click_world:
  assumes "text_ok X" "mac_ok X" "- (2 ^ 63) \<le> e" "e < 2 ^ 63"
    and "unsubscribe_service (ap_module s) = Some svc" "secret svc \<noteq> []" "timestamp wall \<le> e"
  shows "ap_world (serve X (click (token_text X (signed_token X svc d u e)) wall inst) s) =
    snd (apply_unsubscribe wall d u (ap_world s))"
  using assms(5)
  by (cases "apply_unsubscribe wall d u (ap_world s)")
    (simp add: click_def digest_public_routes_eq serve_public_def public_composer_def unsubscribe_post_def
      answers_method_def unsubscribe_by_token_def parse_signed [OF assms(1-4)] verify_signed [OF assms(2,6,7)]
      token_text_not_Nil Let_def split: res.split bool.split)

text \<open>
  Whatever the events, their order and the statements that fail, the four keyed tables keep
  their unique keys.
\<close>

theorem app_keeps_keys:
  assumes "mail_seam (dm_mail_seam (ap_module s))" "world_ok (ap_world s)"
  shows "world_ok (ap_world (run_app X es s))"
  by (rule run_app_invariant [of s world_ok, OF assms, of "\<lambda>_. True"]) (simp_all add: app_step_keeps_keys list_all_iff)

lemma app_keeps_keys_witness:
  "world_ok (ap_world (run_app demo_externals demo_day_events demo_app))"
  by (rule app_keeps_keys) (use demo_app_seam [of "ap_world demo_app"] demo_world_ok in \<open>simp_all add: demo_app_def\<close>)

end
