(* ===== verification/Live_System.thy ===== *)
theory Live_System
  imports Replica_Properties Running_Module
begin

text \<open>
  Sweeps in flight while the module serves requests. The state is the running module together with
  the sessions of \<open>Replicas\<close>; an event either starts or steps a sweep, or is one of the events of
  \<open>Running_Module\<close>. What a sweep has claimed is locked for everybody else: a whole pull run as one
  event skips it, and a verb or a foreign write that updates the digest row has to wait, so while the row is held its
  event does not happen. The properties speak about every state such a system reaches.
\<close>

section \<open>The system\<close>

record live =
  lv_app :: app
  lv_sessions :: "session list"

datatype live_event =
    Sweep replica_event
  | Serve app_event

definition live_world :: "live \<Rightarrow> world" where
  "live_world s = ap_world (lv_app s)"

definition live_engine :: "live \<Rightarrow> engine" where
  "live_engine s = render_service (ap_module (lv_app s))"

definition live_start :: "app \<Rightarrow> live" where
  "live_start a = \<lparr> lv_app = a, lv_sessions = [] \<rparr>"

text \<open>An UPDATE of a locked digest row waits, whoever sends it.\<close>

definition row_of :: "uuid \<Rightarrow> digest_rec list \<Rightarrow> digest_rec option" where
  "row_of i ds = find (\<lambda>r. dg_id r = i) ds"

fun waits :: "uuid list \<Rightarrow> world \<Rightarrow> app_event \<Rightarrow> bool" where
  "waits locks w (HostVerb (SetPeriodicity i value today)) = (i \<in> set locks)"
| "waits locks w (HostVerb (SetState i on)) = (i \<in> set locks)"
| "waits locks w (TableWrite ds ss ks ts us) = list_ex (\<lambda>i. row_of i ds \<noteq> row_of i (digests w)) locks"
| "waits locks w e = False"

definition serve_locked :: "externals \<Rightarrow> app_event \<Rightarrow> uuid list \<Rightarrow> app \<Rightarrow> app" where
  "serve_locked X e locks a =
     (let a' = serve X e (a\<lparr>ap_world := (ap_world a)\<lparr>row_locks := row_locks (ap_world a) @ locks\<rparr>\<rparr>)
      in a'\<lparr>ap_world := (ap_world a')\<lparr>row_locks := row_locks (ap_world a)\<rparr>\<rparr>)"

text \<open>An event runs with the faults its statements meet.\<close>

fun live_event_step :: "externals \<Rightarrow> live_event \<Rightarrow> live \<Rightarrow> live" where
  "live_event_step X (Sweep e) s =
     (let sys = replica_step X (live_engine s) e \<lparr> re_world = live_world s, re_sessions = lv_sessions s \<rparr>
      in s\<lparr>lv_app := (lv_app s)\<lparr>ap_world := re_world sys\<rparr>, lv_sessions := re_sessions sys\<rparr>)"
| "live_event_step X (Serve e) s =
     (if waits (holding (lv_sessions s)) (live_world s) e then s
      else s\<lparr>lv_app := serve_locked X e (holding (lv_sessions s)) (lv_app s)\<rparr>)"

definition live_step :: "externals \<Rightarrow> string option list \<times> live_event \<Rightarrow> live \<Rightarrow> live" where
  "live_step X e s =
     live_event_step X (snd e) (s\<lparr>lv_app := (lv_app s)\<lparr>ap_world := (live_world s)\<lparr>sql_faults := fst e\<rparr>\<rparr>\<rparr>)"

definition run_live :: "externals \<Rightarrow> (string option list \<times> live_event) list \<Rightarrow> live \<Rightarrow> live" where
  "run_live X es s = fold (live_step X) es s"

lemma run_live_simps [simp]:
  "run_live X [] s = s" "run_live X (e # es) s = run_live X es (live_step X e s)"
  "run_live X (es @ fs) s = run_live X fs (run_live X es s)"
  by (simp_all add: run_live_def)

lemma live_start_simps [simp]:
  "lv_sessions (live_start a) = []" "lv_app (live_start a) = a" "live_world (live_start a) = ap_world a"
  by (simp_all add: live_start_def live_world_def)

text \<open>The calendar reaches the dates of the sweeps.\<close>

fun in_calendar :: "externals \<Rightarrow> live_event \<Rightarrow> bool" where
  "in_calendar X (Sweep (Start now clock)) = same_day X (date_naive now)"
| "in_calendar X e = True"


section \<open>A session among the others\<close>

text \<open>\<open>owes d u p\<close>: the batch in phase \<open>p\<close> has the pair on its list and has not come to it.\<close>

definition owes :: "uuid \<Rightarrow> uuid \<Rightarrow> phase \<Rightarrow> bool" where
  "owes d u p \<longleftrightarrow> d \<in> set (held p) \<and> u \<in> awaiting p"


definition orderly :: "phase \<Rightarrow> bool" where
  "orderly p \<longleftrightarrow> (case p of Sending d deg n rs mf df \<Rightarrow> distinct (map rr_user_id rs) | _ \<Rightarrow> True)"






lemma moves_calm: "world_ok w \<Longrightarrow> moves X eng others s w s' w' \<Longrightarrow> calm w w'"
  by (erule movesE) (auto intro: calm_refl)

lemma moves_now: "moves X eng others s w s' w' \<Longrightarrow> se_now s' = se_now s"
  by (erule movesE) auto

lemma moves_exclusive:
  assumes "moves X eng (holding (A @ B)) s w s' w'" "distinct (holding (A @ s # B))"
  shows "distinct (holding (A @ s' # B))"
  using assms by cases (auto simp: distinct_holding_mid dest!: due_queue_head(4))

lemma moves_orderly:
  assumes "moves X eng others s w s' w'" "world_ok w" "orderly (se_phase s)"
  shows "orderly (se_phase s')"
  using assms
proof cases
  case (prepares d oc deg n)
  with recipients_distinct [of w "dr_id d"] assms(2) show ?thesis by (simp add: orderly_def)
qed (auto simp: orderly_def)






section \<open>Every event\<close>

definition live_inv :: "externals \<Rightarrow> live \<Rightarrow> bool" where
  "live_inv X s \<longleftrightarrow>
     mail_seam (dm_mail_seam (ap_module (lv_app s))) \<and> world_ok (live_world s) \<and> distinct (holding (lv_sessions s)) \<and>
     (\<forall>x \<in> set (lv_sessions s). same_day X (date_naive (se_now x)) \<and> orderly (se_phase x))"

lemma locks_frame [simp]:
  "world_ok (w\<lparr>row_locks := ls\<rparr>) = world_ok w" "active_pairs (w\<lparr>row_locks := ls\<rparr>) = active_pairs w"
  "opted_out d u (w\<lparr>row_locks := ls\<rparr>) = opted_out d u w"
  by (simp_all add: world_ok_def active_pairs_def opted_out_def)

lemma live_engine_seam: "mail_seam (dm_mail_seam (ap_module (lv_app s))) \<Longrightarrow> mail_seam (en_mail_seam (live_engine s))"
  by (simp add: live_engine_def render_service_def)

text \<open>
  An event seen from outside: a session starts, a session moves, a request is served, or (a wait, a
  step of no session) nothing happens.
\<close>

lemma live_event_cases [consumes 1, case_names nothing starts moved served]:
  assumes "live_inv X s"
  obtains "live_event_step X e s = s"
  | now clock where "e = Sweep (Start now clock)" "lv_app (live_event_step X e s) = lv_app s"
      "lv_sessions (live_event_step X e s) = lv_sessions s @ [new_session now clock]"
  | A x B x' w' where "lv_sessions s = A @ x # B" "moves X (live_engine s) (holding (A @ B)) x (live_world s) x' w'"
      "session_step X (live_engine s) (holding (A @ B)) x (live_world s) = (x', w')"
      "lv_app (live_event_step X e s) = (lv_app s)\<lparr>ap_world := w'\<rparr>" "lv_sessions (live_event_step X e s) = A @ x' # B"
  | r where "e = Serve r" "lv_app (live_event_step X e s) = serve_locked X r (holding (lv_sessions s)) (lv_app s)"
      "lv_sessions (live_event_step X e s) = lv_sessions s"
proof (cases e)
  case (Sweep v)
  have seam: "mail_seam (en_mail_seam (live_engine s))" using assms live_engine_seam by (simp add: live_inv_def)
  let ?sys = "\<lparr> re_world = live_world s, re_sessions = lv_sessions s \<rparr>"
  show thesis
  proof (cases v)
    case (Start now clock)
    show thesis by (rule that(2) [of now clock]) (simp_all add: Sweep Start live_world_def)
  next
    case (Step i)
    from seam show thesis
    proof (cases rule: step_moves [where i = i and sys = ?sys and X = X])
      case idle
      have "live_event_step X e s = s\<lparr>lv_app := (lv_app s)\<lparr>ap_world := live_world s\<rparr>, lv_sessions := lv_sessions s\<rparr>"
        by (simp add: Sweep Step idle Let_def del: replica_step.simps)
      then show thesis by (intro that(1)) (simp add: live_world_def)
    next
      case (moved A x B x' w')
      have "lv_sessions s = A @ x # B" using moved(1) by simp
      moreover from this have "world_ok (live_world s)" "same_day X (date_naive (se_now x))"
        using assms by (simp_all add: live_inv_def)
      ultimately show thesis
        using that(3) [of A x B x' w'] moved(2-5) by (simp add: Sweep Step Let_def del: replica_step.simps)
    qed
  qed
next
  case (Serve r)
  show thesis
  proof (cases "waits (holding (lv_sessions s)) (live_world s) r")
    case False
    then show thesis by (intro that(4) [of r]) (simp_all add: Serve)
  qed (use that(1) Serve in simp)
qed

lemma serve_locked_world:
  assumes "mail_seam (dm_mail_seam (ap_module a))" "world_ok (ap_world a)"
  shows "world_ok (ap_world (serve_locked X r locks a))"
    "mails_within (active_pairs (ap_world a)) (ap_world a) (ap_world (serve_locked X r locks a))"
    "opted_out d u (ap_world a) \<Longrightarrow> \<not> opts_in d u r \<Longrightarrow> opted_out d u (ap_world (serve_locked X r locks a))"
    "dm_mail_seam (ap_module (serve_locked X r locks a)) = dm_mail_seam (ap_module a)"
proof -
  let ?a = "a\<lparr>ap_world := (ap_world a)\<lparr>row_locks := row_locks (ap_world a) @ locks\<rparr>\<rparr>"
  have ok: "mail_seam (dm_mail_seam (ap_module ?a))" "world_ok (ap_world ?a)" using assms by simp_all
  show "world_ok (ap_world (serve_locked X r locks a))"
    using serve_keeps_keys [OF ok] by (simp add: serve_locked_def Let_def)
  show "mails_within (active_pairs (ap_world a)) (ap_world a) (ap_world (serve_locked X r locks a))"
    using serve_mails [OF ok, of X r] by (simp add: serve_locked_def Let_def mails_within_def)
  show "opted_out d u (ap_world a) \<Longrightarrow> \<not> opts_in d u r \<Longrightarrow> opted_out d u (ap_world (serve_locked X r locks a))"
    using serve_opted_out [OF ok(1), of d u r X] by (simp add: serve_locked_def Let_def)
  show "dm_mail_seam (ap_module (serve_locked X r locks a)) = dm_mail_seam (ap_module a)"
    using serve_seam [of X r ?a] by (simp add: serve_locked_def Let_def)
qed

lemma live_event_inv:
  assumes "live_inv X s" "in_calendar X e"
  shows "live_inv X (live_event_step X e s)"
  using assms(1)
proof (cases rule: live_event_cases [where e = e])
  case nothing
  with assms(1) show ?thesis by simp
next
  case (starts now clock)
  with assms show ?thesis
    by (auto simp: live_inv_def live_world_def holding_def new_session_def orderly_def)
next
  case (moved A x B x' w')
  from assms(1) have ok: "world_ok (live_world s)" and d: "distinct (holding (A @ x # B))"
    and day: "same_day X (date_naive (se_now x))" "orderly (se_phase x)"
    by (simp_all add: live_inv_def moved(1))
  have "world_ok w'" using moves_calm [OF ok moved(2)] by (simp add: calm_def)
  then show ?thesis
    using assms(1) moves_exclusive [OF moved(2) d] moves_orderly [OF moved(2) ok day(2)] moves_now [OF moved(2)] day(1)
    by (simp add: live_inv_def live_world_def moved ball_Un)
next
  case (served r)
  with assms(1) show ?thesis by (simp add: live_inv_def live_world_def serve_locked_world)
qed



text \<open>The faults of an event are no part of what the invariants see.\<close>

lemma faults_frame:
  assumes "s' = s\<lparr>lv_app := (lv_app s)\<lparr>ap_world := (live_world s)\<lparr>sql_faults := fs\<rparr>\<rparr>\<rparr>"
  shows "live_inv X s' = live_inv X s" "active_pairs (live_world s') = active_pairs (live_world s)"
    "mails (live_world s') = mails (live_world s)" "opted_out d u (live_world s') = opted_out d u (live_world s)"
    "lv_sessions s' = lv_sessions s"
  by (simp_all add: assms live_inv_def live_world_def)

lemma live_step_inv: "live_inv X s \<Longrightarrow> in_calendar X (snd e) \<Longrightarrow> live_inv X (live_step X e s)"
  unfolding live_step_def by (rule live_event_inv) (simp_all add: faults_frame(1) [OF refl])



section \<open>Runs\<close>

lemma run_live_inv: "live_inv X s \<Longrightarrow> list_all (\<lambda>e. in_calendar X (snd e)) es \<Longrightarrow> live_inv X (run_live X es s)"
  by (induction es arbitrary: s) (simp_all add: live_step_inv)

lemma live_start_inv:
  "mail_seam (dm_mail_seam (ap_module a)) \<Longrightarrow> world_ok (ap_world a) \<Longrightarrow> live_inv X (live_start a)"
  by (simp add: live_inv_def holding_def)




text \<open>A click on a link that is good: no sweep holds it up, and the row is marked.\<close>

lemma live_click:
  fixes inst :: int
  assumes "text_ok X" "mac_ok X" "- (2 ^ 63) \<le> e" "e < 2 ^ 63" "live_inv X s"
    and "unsubscribe_service (ap_module (lv_app s)) = Some svc" "secret svc \<noteq> []" "timestamp wall \<le> e"
    and "(d, u) \<in> active_pairs (live_world s)"
  defines "s' \<equiv> live_step X ([], Serve (click (token_text X (signed_token X svc d u e)) wall inst)) s"
  shows "opted_out d u (live_world s')" "live_inv X s'" "lv_sessions s' = lv_sessions s"
    "ap_module (lv_app s') = ap_module (lv_app s)"
    "mails (live_world s') = mails (live_world s)" "digest_kpis (live_world s') = digest_kpis (live_world s)"
    "sql_faults (live_world s') = []"
proof -
  let ?c = "click (token_text X (signed_token X svc d u e)) wall inst" and ?H = "holding (lv_sessions s)"
  let ?w = "(live_world s)\<lparr>sql_faults := [], row_locks := row_locks (live_world s) @ ?H\<rparr>"
  let ?a = "(lv_app s)\<lparr>ap_world := ?w\<rparr>"
  have c: "\<not> waits ls w ?c" for ls w by (simp add: click_def)
  have served: "ap_world (serve X ?c ?a) = snd (apply_unsubscribe wall d u ?w)"
    using click_world [OF assms(1-4) _ assms(7,8), of ?a d u inst] assms(6) by simp
  have app: "lv_app s' = (serve X ?c ?a)\<lparr>ap_world := (ap_world (serve X ?c ?a))\<lparr>row_locks := row_locks (live_world s)\<rparr>\<rparr>"
    by (simp add: s'_def live_step_def c serve_locked_def Let_def live_world_def)
  have w: "live_world s' = (snd (apply_unsubscribe wall d u ?w))\<lparr>row_locks := row_locks (live_world s)\<rparr>"
    unfolding live_world_def [of s'] app served by simp
  have ok: "world_ok ?w" "(d, u) \<in> active_pairs ?w" using assms(5,9) by (simp_all add: live_inv_def)
  from applied_opts_out [OF ok(1) _ ok(2), of wall] show "opted_out d u (live_world s')"
    unfolding w by simp
  show "live_inv X s'" unfolding s'_def by (rule live_step_inv [OF assms(5)]) simp
  show "lv_sessions s' = lv_sessions s" by (simp add: s'_def live_step_def c)
  show "ap_module (lv_app s') = ap_module (lv_app s)"
    unfolding app by (simp add: click_def split_beta)
  show "mails (live_world s') = mails (live_world s)" "digest_kpis (live_world s') = digest_kpis (live_world s)"
    unfolding w using apply_unsubscribe_frame [of wall d u ?w] by simp_all
  show "sql_faults (live_world s') = []"
    unfolding w using apply_unsubscribe_eq [OF ok(1), of wall d u] ok(2) by (simp add: Let_def)
qed


text \<open>
  C8: mutual exclusion in the live system. Whatever requests, verbs, other pulls and foreign writes
  that respect the unique keys come between the steps of the sweeps, and whichever statements fail, no digest is ever in two batches, no batch has
  a person twice on its list, and the tables keep their unique keys.
\<close>

theorem live_batches_exclusive:
  assumes "mail_seam (dm_mail_seam (ap_module a))" "world_ok (ap_world a)"
    and "list_all (\<lambda>e. in_calendar X (snd e)) es" "s = run_live X es (live_start a)"
  shows "distinct (holding (lv_sessions s)) \<and> (\<forall>x \<in> set (lv_sessions s). orderly (se_phase x)) \<and> world_ok (live_world s)"
  using run_live_inv [OF live_start_inv [OF assms(1,2)] assms(3)] assms(4) by (simp add: live_inv_def)

lemma moves_listed:
  assumes "moves X eng others s w s' w'"
  shows "\<exists>ms. mails w' = mails w @ ms \<and>
    (\<forall>m \<in> set ms. \<exists>d u. mail_pair m = (d, u) \<and> owes d u (se_phase s)) \<and>
    (\<forall>d u. owes d u (se_phase s') \<longrightarrow> owes d u (se_phase s) \<or> (d, u) \<in> active_pairs w)"
  using assms
proof cases
  case (prepares e oc deg n)
  then show ?thesis
    using recipients_of_ids [of "dr_id e" w] by (intro exI [of _ "[]"]) (auto simp: owes_def)
next
  case (sends e deg n r rs mf df ms oc mf' df')
  then show ?thesis by (intro exI [of _ ms]) (auto simp: owes_def)
next
  case (undoes i ms oc p)
  then have "\<not> owes d u (se_phase s')" for d u by (auto simp: owes_def)
  moreover have "\<forall>m \<in> set ms. \<exists>d u. mail_pair m = (d, u) \<and> owes d u (se_phase s)"
    using undoes(2,6) by (auto simp: owes_def)
  ultimately show ?thesis using undoes(5) by (intro exI [of _ ms]) simp
qed (auto simp: owes_def intro!: exI [of _ "[]"])

text \<open>The pair was active at some moment of the run.\<close>

definition was_active ::
  "externals \<Rightarrow> (string option list \<times> live_event) list \<Rightarrow> app \<Rightarrow> uuid \<times> uuid \<Rightarrow> bool" where
  "was_active X es a p \<longleftrightarrow>
     (\<exists>es1 es2. es = es1 @ es2 \<and> p \<in> active_pairs (live_world (run_live X es1 (live_start a))))"

lemma was_active_now: "p \<in> active_pairs (live_world (run_live X es (live_start a))) \<Longrightarrow> was_active X es a p"
  unfolding was_active_def by (intro exI [of _ es] exI [of _ "[]"]) simp

lemma was_active_snoc: "was_active X es a p \<Longrightarrow> was_active X (es @ [e]) a p"
  unfolding was_active_def by (metis append.assoc)

lemma live_event_listed:
  assumes "live_inv X s"
  shows "\<exists>ms. mails (live_world (live_event_step X e s)) = mails (live_world s) @ ms \<and>
    (\<forall>m \<in> set ms. mail_pair m \<in> active_pairs (live_world s) \<or>
       (\<exists>x \<in> set (lv_sessions s). \<exists>d u. mail_pair m = (d, u) \<and> owes d u (se_phase x))) \<and>
    (\<forall>x' \<in> set (lv_sessions (live_event_step X e s)). \<forall>d u. owes d u (se_phase x') \<longrightarrow>
       (\<exists>x \<in> set (lv_sessions s). owes d u (se_phase x)) \<or> (d, u) \<in> active_pairs (live_world s))"
  using assms
proof (cases rule: live_event_cases [where e = e])
  case nothing
  then show ?thesis by (intro exI [of _ "[]"]) auto
next
  case (starts now clock)
  then show ?thesis by (intro exI [of _ "[]"]) (auto simp: live_world_def owes_def new_session_def)
next
  case (moved A x B x' w')
  from moves_listed [OF moved(2)] obtain ms where ms: "mails w' = mails (live_world s) @ ms"
    "\<forall>m \<in> set ms. \<exists>d u. mail_pair m = (d, u) \<and> owes d u (se_phase x)"
    "\<forall>d u. owes d u (se_phase x') \<longrightarrow> owes d u (se_phase x) \<or> (d, u) \<in> active_pairs (live_world s)" by blast
  have x: "x \<in> set (lv_sessions s)" by (simp add: moved(1))
  have old: "y \<in> set (lv_sessions s) \<or> y = x'" if "y \<in> set (lv_sessions (live_event_step X e s))" for y
    using that unfolding moved(5) moved(1) by auto
  have "live_world (live_event_step X e s) = w'" by (simp add: live_world_def moved(4))
  with ms x old show ?thesis by (intro exI [of _ ms]) blast
next
  case (served r)
  have "mails_within (active_pairs (live_world s)) (live_world s) (live_world (live_event_step X e s))"
    using serve_locked_world(2) assms unfolding live_world_def served(2) by (simp add: live_inv_def live_world_def)
  then obtain ms where "mails (live_world (live_event_step X e s)) = mails (live_world s) @ ms"
    "mail_pair ` set ms \<subseteq> active_pairs (live_world s)" by (auto simp: mails_within_def)
  then show ?thesis unfolding served(3) by (intro exI [of _ ms]) blast
qed

lemma live_step_listed:
  assumes "live_inv X s"
  shows "\<exists>ms. mails (live_world (live_step X e s)) = mails (live_world s) @ ms \<and>
    (\<forall>m \<in> set ms. mail_pair m \<in> active_pairs (live_world s) \<or>
       (\<exists>x \<in> set (lv_sessions s). \<exists>d u. mail_pair m = (d, u) \<and> owes d u (se_phase x))) \<and>
    (\<forall>x' \<in> set (lv_sessions (live_step X e s)). \<forall>d u. owes d u (se_phase x') \<longrightarrow>
       (\<exists>x \<in> set (lv_sessions s). owes d u (se_phase x)) \<or> (d, u) \<in> active_pairs (live_world s))"
  using live_event_listed [of X "s\<lparr>lv_app := (lv_app s)\<lparr>ap_world := (live_world s)\<lparr>sql_faults := fst e\<rparr>\<rparr>\<rparr>" "snd e"] assms
  unfolding live_step_def by (simp add: faults_frame [OF refl])

text \<open>
  C9: nobody is mailed out of the blue. Over any run of the live system, with requests and foreign writes
  between the steps of any number of sweeps, every mail queued goes to a pair that was an active subscription at
  some moment of that run; and the same holds for whoever is still on a sweep's list.
\<close>

theorem live_mails_were_active:
  assumes "mail_seam (dm_mail_seam (ap_module a))" "world_ok (ap_world a)"
    and "list_all (\<lambda>e. in_calendar X (snd e)) es"
  shows "\<exists>new. mails (live_world (run_live X es (live_start a))) = mails (ap_world a) @ new \<and>
    (\<forall>m \<in> set new. was_active X es a (mail_pair m)) \<and>
    (\<forall>x \<in> set (lv_sessions (run_live X es (live_start a))). \<forall>d u. owes d u (se_phase x) \<longrightarrow> was_active X es a (d, u))"
  using assms(3)
proof (induction es rule: rev_induct)
  case (snoc e es)
  let ?s = "run_live X es (live_start a)"
  have "live_inv X ?s" using run_live_inv [OF live_start_inv [OF assms(1,2)]] snoc.prems by simp
  from live_step_listed [OF this, of e] obtain ms where ms:
    "mails (live_world (live_step X e ?s)) = mails (live_world ?s) @ ms"
    "\<forall>m \<in> set ms. mail_pair m \<in> active_pairs (live_world ?s) \<or>
       (\<exists>x \<in> set (lv_sessions ?s). \<exists>d u. mail_pair m = (d, u) \<and> owes d u (se_phase x))"
    "\<forall>x' \<in> set (lv_sessions (live_step X e ?s)). \<forall>d u. owes d u (se_phase x') \<longrightarrow>
       (\<exists>x \<in> set (lv_sessions ?s). owes d u (se_phase x)) \<or> (d, u) \<in> active_pairs (live_world ?s)" by blast
  obtain new where new: "mails (live_world ?s) = mails (ap_world a) @ new"
    "\<forall>m \<in> set new. was_active X es a (mail_pair m)"
    "\<forall>x \<in> set (lv_sessions ?s). \<forall>d u. owes d u (se_phase x) \<longrightarrow> was_active X es a (d, u)"
    using snoc by auto
  have "\<forall>m \<in> set ms. was_active X es a (mail_pair m)" using ms(2) new(3) was_active_now by metis
  moreover have "\<forall>x' \<in> set (lv_sessions (live_step X e ?s)). \<forall>d u. owes d u (se_phase x') \<longrightarrow> was_active X es a (d, u)"
    using ms(3) new(3) was_active_now by metis
  ultimately show ?case
    using ms(1) new(1,2) by (intro exI [of _ "new @ ms"]) (auto intro: was_active_snoc)
qed simp

section \<open>A click that comes too late\<close>

text \<open>
  One subscriber, one due digest; the sweep has read its recipients when the person clicks.
\<close>

definition late_world :: world where
  "late_world = idle_world\<lparr>subscriptions := [demo_subscription 11]\<rparr>"

definition late_app :: app where
  "late_app = demo_app\<lparr>ap_world := late_world\<rparr>"

definition late_token :: string where
  "late_token = token_text demo_externals (signed_token demo_externals demo_service 1 11 (link_expiry demo_now))"

definition late_run :: "(string option list \<times> live_event) list" where
  "late_run = [([], Sweep (Start demo_now demo_clock)), ([], Sweep (Step 0)), ([], Sweep (Step 0)),
     ([], Serve (click late_token demo_now 0))]"

lemma live_step_alone:
  assumes "lv_sessions s = [x]" "sql_faults (live_world s) = []"
    and "session_step X (live_engine s) [] x (live_world s) = (x', w')"
  shows "live_step X ([], Sweep (Step 0)) s = \<lparr> lv_app = (lv_app s)\<lparr>ap_world := w'\<rparr>, lv_sessions = [x'] \<rparr>"
proof -
  have "(live_world s)\<lparr>sql_faults := []\<rparr> = live_world s" using assms(2) by simp
  then have "live_step X ([], Sweep (Step 0)) s = live_event_step X (Sweep (Step 0)) s"
    by (simp add: live_step_def live_world_def)
  with assms show ?thesis by (cases s) (simp add: Let_def held_by_others_def)
qed

definition late_session :: "phase \<Rightarrow> session" where
  "late_session p = \<lparr> se_now = demo_now, se_clock = demo_clock, se_processed = [1],
     se_outcome = empty_outcome\<lparr>so_claimed := 1\<rparr>, se_phase = p \<rparr>"

lemma late_faults: "sql_faults late_world = []" "digest_kpis late_world = []" "mails late_world = []"
  by (simp_all add: late_world_def idle_world_def)

lemma late_claims:
  "session_step demo_externals demo_engine [] (new_session demo_now demo_clock) late_world =
     (late_session (Claimed (read_row demo_digest)), late_world)"
proof -
  have q: "due_queue (date_naive demo_now) [] late_world = [demo_digest]"
    by (simp add: due_queue_def is_due_def late_world_def idle_world_def demo_digest_def demo_now_naive demo_day_def)
  have l: "row_locks late_world = []" by (simp add: late_world_def idle_world_def)
  have q': "due_queue (date_naive demo_now) [] (late_world\<lparr>row_locks := []\<rparr>) = [demo_digest]"
    by (simp add: due_queue_def is_due_def late_world_def idle_world_def demo_digest_def demo_now_naive demo_day_def)
  have i: "dg_id demo_digest = 1" by (simp add: demo_digest_def)
  show ?thesis
    using q q' l i late_faults(1)
    by (simp add: session_step_def new_session_def claim_step_def and_then_def tx_statement_def claim_def
        select_no_faults late_session_def empty_outcome_def)
qed

lemma late_prepares:
  "session_step demo_externals demo_engine [] (late_session (Claimed (read_row demo_digest))) late_world =
     (late_session (Sending (read_row demo_digest) (Some Weekly) 1 [demo_recipient] False None), late_world)"
proof -
  have since: "plus_time (cal demo_externals) demo_now (- 2 * day_nanos) = Some (demo_now - 2 * day_nanos)" by code_simp
  have [simp]: "dg_id demo_digest = 1" "dg_periodicity demo_digest = Daily" by (simp_all add: demo_digest_def)
  have rs: "recipients_of 1 late_world = [demo_recipient]"
    by (simp add: recipients_of_def late_world_def demo_subscription_def demo_recipient_def)
  then have ar: "active_recipients 1 late_world = (Ok [demo_recipient], late_world)"
    using late_faults(1) by (simp add: active_recipients_def select_no_faults recipients_of_def)
  have "any_logged_in_since demo_port [11] (demo_now - 2 * day_nanos) = Inr False"
    by (simp add: demo_port_def sql_port_def sql_any_logged_in_since_def demo_sapiens_def day_nanos_def nanos_def)
  then have sl: "slowdown_check demo_engine (read_row demo_digest) (map rr_user_id [demo_recipient])
      (demo_now - 2 * day_nanos) late_world = (Ok (Some Weekly), late_world)"
    by (simp add: slowdown_check_def demo_recipient_def demo_slot_port return_def)
  show ?thesis
    using ar sl
    by (simp add: session_step_def batch_step_def prepare_def late_session_def bind_sweep_def run_io_def expect_def return_def
        since [simplified])
qed

text \<open>The click is honoured, and finds the sweep with the clicker on its list.\<close>

abbreviation late_sending :: session where
  "late_sending \<equiv> late_session (Sending (read_row demo_digest) (Some Weekly) 1 [demo_recipient] False None)"

lemma late_app_simps: "ap_world late_app = late_world" "ap_module late_app = demo_module"
  "late_app\<lparr>ap_world := late_world\<rparr> = late_app"
  by (simp_all add: late_app_def demo_app_def)

lemma late_app_ok: "mail_seam (dm_mail_seam (ap_module late_app))" "world_ok (ap_world late_app)"
  using demo_app_seam [of late_world]
  by (simp_all add: late_app_def demo_app_def late_world_def world_ok_def unique_key_def idle_world_def)

lemma late_fit: "list_all (\<lambda>e. in_calendar demo_externals (snd e)) late_run"
  using demo_day_ok by (simp add: late_run_def demo_now_naive)

lemma late_prefix:
  "run_live demo_externals (take 3 late_run) (live_start late_app) =
     \<lparr> lv_app = late_app, lv_sessions = [late_sending] \<rparr>"
proof -
  have f: "late_world\<lparr>sql_faults := []\<rparr> = late_world" using late_faults(1) by simp
  have e: "live_engine \<lparr> lv_app = late_app, lv_sessions = ss \<rparr> = demo_engine" for ss
    by (simp add: live_engine_def late_app_simps demo_render_service)
  have w: "live_world \<lparr> lv_app = late_app, lv_sessions = ss \<rparr> = late_world" for ss
    by (simp add: live_world_def late_app_simps)
  have start: "live_step demo_externals ([], Sweep (Start demo_now demo_clock)) (live_start late_app) =
      \<lparr> lv_app = late_app, lv_sessions = [new_session demo_now demo_clock] \<rparr>"
    by (simp add: live_step_def live_start_def Let_def late_app_simps w) (simp add: live_world_def late_app_simps f)
  have step: "live_step demo_externals ([], Sweep (Step 0)) \<lparr> lv_app = late_app, lv_sessions = [x] \<rparr> =
      \<lparr> lv_app = late_app, lv_sessions = [x'] \<rparr>"
    if "session_step demo_externals demo_engine [] x late_world = (x', late_world)" for x x'
    using live_step_alone [of "\<lparr> lv_app = late_app, lv_sessions = [x] \<rparr>" x demo_externals x' late_world] that late_faults(1)
    by (simp add: e w late_app_simps)
  show ?thesis
    by (simp add: late_run_def start step [OF late_claims] step [OF late_prepares])
qed

lemma late_active: "(1, 11) \<in> active_pairs late_world"
  by (auto simp: active_pairs_iff unsubscribable_def late_world_def demo_subscription_def)

text \<open>The click is honoured while the sweep has the clicker on its list.\<close>

lemma late_state:
  defines "s \<equiv> run_live demo_externals late_run (live_start late_app)"
  shows "lv_sessions s = [late_sending]" "live_engine s = demo_engine" "opted_out 1 11 (live_world s)"
    "sql_faults (live_world s) = []" "digest_kpis (live_world s) = []" "mails (live_world s) = []"
proof -
  let ?t = "\<lparr> lv_app = late_app, lv_sessions = [late_sending] \<rparr>"
  have s: "s = live_step demo_externals ([], Serve (click late_token demo_now 0)) ?t"
    using late_prefix unfolding s_def by (simp add: late_run_def)
  have w: "live_world ?t = late_world" by (simp add: live_world_def late_app_simps)
  have i: "live_inv demo_externals ?t"
    using late_prefix run_live_inv [OF live_start_inv [OF late_app_ok], of demo_externals "take 3 late_run"] late_fit
    by (simp add: list_all_iff) (metis in_set_takeD)
  have t: "timestamp demo_now \<le> link_expiry demo_now" by code_simp
  have svc: "unsubscribe_service (ap_module (lv_app ?t)) = Some demo_service"
    using demo_unsubscribe_service by (simp add: late_app_simps)
  have act: "(1, 11) \<in> active_pairs (live_world ?t)" unfolding w by (rule late_active)
  note click = live_click [OF demo_text_ok demo_mac_ok demo_expiry i svc demo_secret t act, where inst = 0,
      folded late_token_def, folded s]
  show "lv_sessions s = [late_sending]" "opted_out 1 11 (live_world s)" "sql_faults (live_world s) = []"
    "digest_kpis (live_world s) = []" "mails (live_world s) = []"
    using click w late_faults by simp_all
  show "live_engine s = demo_engine"
    using click(4) by (simp add: live_engine_def demo_render_service late_app_simps)
qed



lemma live_batches_exclusive_witness:
  "distinct (holding (lv_sessions (run_live demo_externals late_run (live_start late_app))))"
  by (rule live_batches_exclusive [OF late_app_ok late_fit refl, THEN conjunct1])

lemma live_mails_were_active_witness:
  "was_active demo_externals late_run late_app (1, 11)"
proof -
  have "owes 1 11 (se_phase late_sending)"
    by (simp add: owes_def late_session_def demo_recipient_def) (simp add: demo_digest_def)
  with live_mails_were_active [OF late_app_ok late_fit] late_state(1) show ?thesis by auto
qed

end
