(* ===== verification/Accessors.thy ===== *)
theory Accessors
  imports Ids Exports Periodicity
begin

text \<open>
  The borrowing accessors of the entities and the conversions of their ids
  (\<^verbatim>\<open>domain/entity/*.rs\<close>, \<^verbatim>\<open>exports/types.rs\<close>), the text of the entities' cadence, and the module's
  event type (\<^verbatim>\<open>exports/events.rs\<close>). A reference and an \<^verbatim>\<open>as_ref()\<close> are the value they point to.
\<close>

fun show_entity_periodicity :: "periodicity \<Rightarrow> string" where
  "show_entity_periodicity Daily = ''daily''"
| "show_entity_periodicity Weekly = ''weekly''"
| "show_entity_periodicity Monthly = ''monthly''"
| "show_entity_periodicity Quarterly = ''quarterly''"

definition entity_periodicity_default :: periodicity where
  "entity_periodicity_default = Daily"

lemma entity_periodicity_roundtrip: "entity_periodicity_from_str (show_entity_periodicity p) = Inr p"
  by (cases p) (simp_all add: entity_periodicity_from_str_def lower_char_def Let_def)

section \<open>DigestDigest\<close>

definition digest_entity_uuid :: "digest_entity \<Rightarrow> uuid" where
  "digest_entity_uuid e = ent_id e"

definition digest_ref_created_at :: "digest_entity \<Rightarrow> datetime option" where
  "digest_ref_created_at e = am_created_at (ent_metadata e)"

definition digest_ref_updated_at :: "digest_entity \<Rightarrow> datetime option" where
  "digest_ref_updated_at e = am_updated_at (ent_metadata e)"

definition digest_ref_deleted_at :: "digest_entity \<Rightarrow> datetime option" where
  "digest_ref_deleted_at e = am_deleted_at (ent_metadata e)"

definition digest_ref_created_by :: "digest_entity \<Rightarrow> uuid option" where
  "digest_ref_created_by e = am_created_by (ent_metadata e)"

definition digest_ref_updated_by :: "digest_entity \<Rightarrow> uuid option" where
  "digest_ref_updated_by e = am_updated_by (ent_metadata e)"

definition digest_ref_deleted_by :: "digest_entity \<Rightarrow> uuid option" where
  "digest_ref_deleted_by e = am_deleted_by (ent_metadata e)"

definition digest_is_deleted :: "digest_entity \<Rightarrow> bool" where
  "digest_is_deleted e \<longleftrightarrow> digest_ref_deleted_at e \<noteq> None"

definition digest_is_active :: "digest_entity \<Rightarrow> bool" where
  "digest_is_active e \<longleftrightarrow> digest_ref_deleted_at e = None"

definition digest_key_of_entity :: "digest_entity \<Rightarrow> uuid" where
  "digest_key_of_entity e = ent_id e"

definition digest_id_of_uuid :: "uuid \<Rightarrow> digest_id" where
  "digest_id_of_uuid u = DigestId u"

fun uuid_of_digest_id :: "digest_id \<Rightarrow> uuid" where
  "uuid_of_digest_id (DigestId u) = u"

fun digest_id_as_ref :: "digest_id \<Rightarrow> uuid" where
  "digest_id_as_ref (DigestId u) = u"

fun digest_id_deref :: "digest_id \<Rightarrow> uuid" where
  "digest_id_deref (DigestId u) = u"

definition digest_ref_id_of_uuid :: "uuid \<Rightarrow> digest_ref_id" where
  "digest_ref_id_of_uuid u = DigestRefId u"

fun uuid_of_digest_ref_id :: "digest_ref_id \<Rightarrow> uuid" where
  "uuid_of_digest_ref_id (DigestRefId u) = u"

section \<open>DigestSubscription\<close>

definition subscription_entity_uuid :: "subscription_entity \<Rightarrow> uuid" where
  "subscription_entity_uuid e = ent_id e"

definition subscription_ref_created_at :: "subscription_entity \<Rightarrow> datetime option" where
  "subscription_ref_created_at e = am_created_at (ent_metadata e)"

definition subscription_ref_updated_at :: "subscription_entity \<Rightarrow> datetime option" where
  "subscription_ref_updated_at e = am_updated_at (ent_metadata e)"

definition subscription_ref_deleted_at :: "subscription_entity \<Rightarrow> datetime option" where
  "subscription_ref_deleted_at e = am_deleted_at (ent_metadata e)"

definition subscription_ref_created_by :: "subscription_entity \<Rightarrow> uuid option" where
  "subscription_ref_created_by e = am_created_by (ent_metadata e)"

definition subscription_ref_updated_by :: "subscription_entity \<Rightarrow> uuid option" where
  "subscription_ref_updated_by e = am_updated_by (ent_metadata e)"

definition subscription_ref_deleted_by :: "subscription_entity \<Rightarrow> uuid option" where
  "subscription_ref_deleted_by e = am_deleted_by (ent_metadata e)"

definition subscription_is_deleted :: "subscription_entity \<Rightarrow> bool" where
  "subscription_is_deleted e \<longleftrightarrow> subscription_ref_deleted_at e \<noteq> None"

definition subscription_is_active :: "subscription_entity \<Rightarrow> bool" where
  "subscription_is_active e \<longleftrightarrow> subscription_ref_deleted_at e = None"

definition subscription_key_of_entity :: "subscription_entity \<Rightarrow> uuid" where
  "subscription_key_of_entity e = ent_id e"

definition subscription_id_of_uuid :: "uuid \<Rightarrow> subscription_id" where
  "subscription_id_of_uuid u = SubscriptionId u"

fun uuid_of_subscription_id :: "subscription_id \<Rightarrow> uuid" where
  "uuid_of_subscription_id (SubscriptionId u) = u"

fun subscription_id_as_ref :: "subscription_id \<Rightarrow> uuid" where
  "subscription_id_as_ref (SubscriptionId u) = u"

fun subscription_id_deref :: "subscription_id \<Rightarrow> uuid" where
  "subscription_id_deref (SubscriptionId u) = u"

definition subscription_ref_id_of_uuid :: "uuid \<Rightarrow> subscription_ref_id" where
  "subscription_ref_id_of_uuid u = SubscriptionRefId u"

fun uuid_of_subscription_ref_id :: "subscription_ref_id \<Rightarrow> uuid" where
  "uuid_of_subscription_ref_id (SubscriptionRefId u) = u"

section \<open>DigestDigestKpi\<close>

definition kpi_entity_uuid :: "kpi_entity \<Rightarrow> uuid" where
  "kpi_entity_uuid e = ent_id e"

definition kpi_ref_created_at :: "kpi_entity \<Rightarrow> datetime option" where
  "kpi_ref_created_at e = am_created_at (ent_metadata e)"

definition kpi_ref_updated_at :: "kpi_entity \<Rightarrow> datetime option" where
  "kpi_ref_updated_at e = am_updated_at (ent_metadata e)"

definition kpi_ref_deleted_at :: "kpi_entity \<Rightarrow> datetime option" where
  "kpi_ref_deleted_at e = am_deleted_at (ent_metadata e)"

definition kpi_ref_created_by :: "kpi_entity \<Rightarrow> uuid option" where
  "kpi_ref_created_by e = am_created_by (ent_metadata e)"

definition kpi_ref_updated_by :: "kpi_entity \<Rightarrow> uuid option" where
  "kpi_ref_updated_by e = am_updated_by (ent_metadata e)"

definition kpi_ref_deleted_by :: "kpi_entity \<Rightarrow> uuid option" where
  "kpi_ref_deleted_by e = am_deleted_by (ent_metadata e)"

definition kpi_is_deleted :: "kpi_entity \<Rightarrow> bool" where
  "kpi_is_deleted e \<longleftrightarrow> kpi_ref_deleted_at e \<noteq> None"

definition kpi_is_active :: "kpi_entity \<Rightarrow> bool" where
  "kpi_is_active e \<longleftrightarrow> kpi_ref_deleted_at e = None"

definition kpi_key_of_entity :: "kpi_entity \<Rightarrow> uuid" where
  "kpi_key_of_entity e = ent_id e"

definition kpi_id_of_uuid :: "uuid \<Rightarrow> kpi_id" where
  "kpi_id_of_uuid u = KpiId u"

fun uuid_of_kpi_id :: "kpi_id \<Rightarrow> uuid" where
  "uuid_of_kpi_id (KpiId u) = u"

fun kpi_id_as_ref :: "kpi_id \<Rightarrow> uuid" where
  "kpi_id_as_ref (KpiId u) = u"

fun kpi_id_deref :: "kpi_id \<Rightarrow> uuid" where
  "kpi_id_deref (KpiId u) = u"

definition kpi_ref_id_of_uuid :: "uuid \<Rightarrow> kpi_ref_id" where
  "kpi_ref_id_of_uuid u = KpiRefId u"

fun uuid_of_kpi_ref_id :: "kpi_ref_id \<Rightarrow> uuid" where
  "uuid_of_kpi_ref_id (KpiRefId u) = u"

section \<open>DigestTip\<close>

definition tip_entity_uuid :: "tip_entity \<Rightarrow> uuid" where
  "tip_entity_uuid e = ent_id e"

definition tip_ref_created_at :: "tip_entity \<Rightarrow> datetime option" where
  "tip_ref_created_at e = am_created_at (ent_metadata e)"

definition tip_ref_updated_at :: "tip_entity \<Rightarrow> datetime option" where
  "tip_ref_updated_at e = am_updated_at (ent_metadata e)"

definition tip_ref_deleted_at :: "tip_entity \<Rightarrow> datetime option" where
  "tip_ref_deleted_at e = am_deleted_at (ent_metadata e)"

definition tip_ref_created_by :: "tip_entity \<Rightarrow> uuid option" where
  "tip_ref_created_by e = am_created_by (ent_metadata e)"

definition tip_ref_updated_by :: "tip_entity \<Rightarrow> uuid option" where
  "tip_ref_updated_by e = am_updated_by (ent_metadata e)"

definition tip_ref_deleted_by :: "tip_entity \<Rightarrow> uuid option" where
  "tip_ref_deleted_by e = am_deleted_by (ent_metadata e)"

definition tip_is_deleted :: "tip_entity \<Rightarrow> bool" where
  "tip_is_deleted e \<longleftrightarrow> tip_ref_deleted_at e \<noteq> None"

definition tip_is_active :: "tip_entity \<Rightarrow> bool" where
  "tip_is_active e \<longleftrightarrow> tip_ref_deleted_at e = None"

definition tip_key_of_entity :: "tip_entity \<Rightarrow> uuid" where
  "tip_key_of_entity e = ent_id e"

definition tip_id_of_uuid :: "uuid \<Rightarrow> tip_id" where
  "tip_id_of_uuid u = TipId u"

fun uuid_of_tip_id :: "tip_id \<Rightarrow> uuid" where
  "uuid_of_tip_id (TipId u) = u"

fun tip_id_as_ref :: "tip_id \<Rightarrow> uuid" where
  "tip_id_as_ref (TipId u) = u"

fun tip_id_deref :: "tip_id \<Rightarrow> uuid" where
  "tip_id_deref (TipId u) = u"

definition tip_ref_id_of_uuid :: "uuid \<Rightarrow> tip_ref_id" where
  "tip_ref_id_of_uuid u = TipRefId u"

fun uuid_of_tip_ref_id :: "tip_ref_id \<Rightarrow> uuid" where
  "uuid_of_tip_ref_id (TipRefId u) = u"

section \<open>DigestTipUser\<close>

definition tip_user_entity_uuid :: "tip_user_entity \<Rightarrow> uuid" where
  "tip_user_entity_uuid e = ent_id e"

definition tip_user_ref_created_at :: "tip_user_entity \<Rightarrow> datetime option" where
  "tip_user_ref_created_at e = am_created_at (ent_metadata e)"

definition tip_user_ref_updated_at :: "tip_user_entity \<Rightarrow> datetime option" where
  "tip_user_ref_updated_at e = am_updated_at (ent_metadata e)"

definition tip_user_ref_deleted_at :: "tip_user_entity \<Rightarrow> datetime option" where
  "tip_user_ref_deleted_at e = am_deleted_at (ent_metadata e)"

definition tip_user_ref_created_by :: "tip_user_entity \<Rightarrow> uuid option" where
  "tip_user_ref_created_by e = am_created_by (ent_metadata e)"

definition tip_user_ref_updated_by :: "tip_user_entity \<Rightarrow> uuid option" where
  "tip_user_ref_updated_by e = am_updated_by (ent_metadata e)"

definition tip_user_ref_deleted_by :: "tip_user_entity \<Rightarrow> uuid option" where
  "tip_user_ref_deleted_by e = am_deleted_by (ent_metadata e)"

definition tip_user_is_deleted :: "tip_user_entity \<Rightarrow> bool" where
  "tip_user_is_deleted e \<longleftrightarrow> tip_user_ref_deleted_at e \<noteq> None"

definition tip_user_is_active :: "tip_user_entity \<Rightarrow> bool" where
  "tip_user_is_active e \<longleftrightarrow> tip_user_ref_deleted_at e = None"

definition tip_user_key_of_entity :: "tip_user_entity \<Rightarrow> uuid" where
  "tip_user_key_of_entity e = ent_id e"

definition tip_user_id_of_uuid :: "uuid \<Rightarrow> tip_user_id" where
  "tip_user_id_of_uuid u = TipUserId u"

fun uuid_of_tip_user_id :: "tip_user_id \<Rightarrow> uuid" where
  "uuid_of_tip_user_id (TipUserId u) = u"

fun tip_user_id_as_ref :: "tip_user_id \<Rightarrow> uuid" where
  "tip_user_id_as_ref (TipUserId u) = u"

fun tip_user_id_deref :: "tip_user_id \<Rightarrow> uuid" where
  "tip_user_id_deref (TipUserId u) = u"

definition tip_user_ref_id_of_uuid :: "uuid \<Rightarrow> tip_user_ref_id" where
  "tip_user_ref_id_of_uuid u = TipUserRefId u"

fun uuid_of_tip_user_ref_id :: "tip_user_ref_id \<Rightarrow> uuid" where
  "uuid_of_tip_user_ref_id (TipUserRefId u) = u"

section \<open>The module's events\<close>

datatype digest_event =
    DigestCreatedEvent digest_created_event
  | DigestUpdatedEvent digest_updated_event
  | DigestDeletedEvent digest_deleted_event
  | SubscriptionCreatedEvent subscription_created_event
  | SubscriptionUpdatedEvent subscription_updated_event
  | SubscriptionDeletedEvent subscription_deleted_event
  | KpiCreatedEvent kpi_created_event
  | KpiUpdatedEvent kpi_updated_event
  | KpiDeletedEvent kpi_deleted_event
  | TipCreatedEvent tip_created_event
  | TipUpdatedEvent tip_updated_event
  | TipDeletedEvent tip_deleted_event
  | TipUserCreatedEvent tip_user_created_event
  | TipUserUpdatedEvent tip_user_updated_event
  | TipUserDeletedEvent tip_user_deleted_event

record digest_event_metadata =
  em_module :: string
  em_version :: string

definition event_metadata_default :: digest_event_metadata where
  "event_metadata_default = \<lparr> em_module = ''digest'', em_version = ''1.0'' \<rparr>"

end
