(* ===== verification/Routing.thy ===== *)
theory Routing
  imports Http_Handlers
begin

text \<open>
  Which routes the module mounts (\<^verbatim>\<open>lib.rs\<close>, \<^verbatim>\<open>presentation/http/*_handler.rs\<close>).
  A router is the list of its routes, merging appends. The framework's three route sets of one
  entity and its permission constructor are parameters; \<open>'svc\<close> is a CRUD service, \<open>'r\<close> a route.
\<close>

record ('svc, 'perm, 'r) crud_framework =
  crud_permissions :: "string \<Rightarrow> string \<Rightarrow> 'perm"
  routes_guarded :: "'svc \<Rightarrow> string \<Rightarrow> 'perm \<Rightarrow> 'r list"
  read_routes_guarded :: "'svc \<Rightarrow> string \<Rightarrow> 'perm \<Rightarrow> 'r list"
  write_routes_guarded :: "'svc \<Rightarrow> string \<Rightarrow> 'perm \<Rightarrow> 'r list"

definition digest_permissions :: "('svc, 'perm, 'r) crud_framework \<Rightarrow> 'perm" where
  "digest_permissions F = crud_permissions F ''digest_digest'' ''digest''"

definition digest_routes :: "('svc, 'perm, 'r) crud_framework \<Rightarrow> 'svc \<Rightarrow> 'r list" where
  "digest_routes F svc = routes_guarded F svc ''/digest_digests'' (digest_permissions F)"

definition digest_read_routes :: "('svc, 'perm, 'r) crud_framework \<Rightarrow> 'svc \<Rightarrow> 'r list" where
  "digest_read_routes F svc = read_routes_guarded F svc ''/digest_digests'' (digest_permissions F)"

definition digest_write_routes :: "('svc, 'perm, 'r) crud_framework \<Rightarrow> 'svc \<Rightarrow> 'r list" where
  "digest_write_routes F svc = write_routes_guarded F svc ''/digest_digests'' (digest_permissions F)"

definition subscription_permissions :: "('svc, 'perm, 'r) crud_framework \<Rightarrow> 'perm" where
  "subscription_permissions F = crud_permissions F ''digest_subscription'' ''digest''"

definition subscription_routes :: "('svc, 'perm, 'r) crud_framework \<Rightarrow> 'svc \<Rightarrow> 'r list" where
  "subscription_routes F svc = routes_guarded F svc ''/digest_subscriptions'' (subscription_permissions F)"

definition subscription_read_routes :: "('svc, 'perm, 'r) crud_framework \<Rightarrow> 'svc \<Rightarrow> 'r list" where
  "subscription_read_routes F svc = read_routes_guarded F svc ''/digest_subscriptions'' (subscription_permissions F)"

definition subscription_write_routes :: "('svc, 'perm, 'r) crud_framework \<Rightarrow> 'svc \<Rightarrow> 'r list" where
  "subscription_write_routes F svc = write_routes_guarded F svc ''/digest_subscriptions'' (subscription_permissions F)"

definition kpi_permissions :: "('svc, 'perm, 'r) crud_framework \<Rightarrow> 'perm" where
  "kpi_permissions F = crud_permissions F ''digest_digest_kpi'' ''digest''"

definition kpi_routes :: "('svc, 'perm, 'r) crud_framework \<Rightarrow> 'svc \<Rightarrow> 'r list" where
  "kpi_routes F svc = routes_guarded F svc ''/digest_digest_kpis'' (kpi_permissions F)"

definition kpi_read_routes :: "('svc, 'perm, 'r) crud_framework \<Rightarrow> 'svc \<Rightarrow> 'r list" where
  "kpi_read_routes F svc = read_routes_guarded F svc ''/digest_digest_kpis'' (kpi_permissions F)"

definition kpi_write_routes :: "('svc, 'perm, 'r) crud_framework \<Rightarrow> 'svc \<Rightarrow> 'r list" where
  "kpi_write_routes F svc = write_routes_guarded F svc ''/digest_digest_kpis'' (kpi_permissions F)"

definition tip_permissions :: "('svc, 'perm, 'r) crud_framework \<Rightarrow> 'perm" where
  "tip_permissions F = crud_permissions F ''digest_tip'' ''digest''"

definition tip_routes :: "('svc, 'perm, 'r) crud_framework \<Rightarrow> 'svc \<Rightarrow> 'r list" where
  "tip_routes F svc = routes_guarded F svc ''/digest_tips'' (tip_permissions F)"

definition tip_read_routes :: "('svc, 'perm, 'r) crud_framework \<Rightarrow> 'svc \<Rightarrow> 'r list" where
  "tip_read_routes F svc = read_routes_guarded F svc ''/digest_tips'' (tip_permissions F)"

definition tip_write_routes :: "('svc, 'perm, 'r) crud_framework \<Rightarrow> 'svc \<Rightarrow> 'r list" where
  "tip_write_routes F svc = write_routes_guarded F svc ''/digest_tips'' (tip_permissions F)"

definition tip_user_permissions :: "('svc, 'perm, 'r) crud_framework \<Rightarrow> 'perm" where
  "tip_user_permissions F = crud_permissions F ''digest_tip_user'' ''digest''"

definition tip_user_routes :: "('svc, 'perm, 'r) crud_framework \<Rightarrow> 'svc \<Rightarrow> 'r list" where
  "tip_user_routes F svc = routes_guarded F svc ''/digest_tip_users'' (tip_user_permissions F)"

definition tip_user_read_routes :: "('svc, 'perm, 'r) crud_framework \<Rightarrow> 'svc \<Rightarrow> 'r list" where
  "tip_user_read_routes F svc = read_routes_guarded F svc ''/digest_tip_users'' (tip_user_permissions F)"

definition tip_user_write_routes :: "('svc, 'perm, 'r) crud_framework \<Rightarrow> 'svc \<Rightarrow> 'r list" where
  "tip_user_write_routes F svc = write_routes_guarded F svc ''/digest_tip_users'' (tip_user_permissions F)"

section \<open>The module's routers\<close>

record 'svc crud_services =
  digest_digest_service :: 'svc
  digest_subscription_service :: 'svc
  digest_digest_kpi_service :: 'svc
  digest_tip_service :: 'svc
  digest_tip_user_service :: 'svc

definition all_crud_routes :: "('svc, 'perm, 'r) crud_framework \<Rightarrow> 'svc crud_services \<Rightarrow> 'r list" where
  "all_crud_routes F S =
     digest_routes F (digest_digest_service S) @
     subscription_routes F (digest_subscription_service S) @
     kpi_routes F (digest_digest_kpi_service S) @
     tip_routes F (digest_tip_service S) @
     tip_user_routes F (digest_tip_user_service S)"

definition readonly_routes :: "('svc, 'perm, 'r) crud_framework \<Rightarrow> 'svc crud_services \<Rightarrow> 'r list" where
  "readonly_routes F S =
     digest_read_routes F (digest_digest_service S) @
     subscription_read_routes F (digest_subscription_service S) @
     kpi_read_routes F (digest_digest_kpi_service S) @
     tip_read_routes F (digest_tip_service S) @
     tip_user_read_routes F (digest_tip_user_service S)"

definition deprecated_routes :: "('svc, 'perm, 'r) crud_framework \<Rightarrow> 'svc crud_services \<Rightarrow> 'r list" where
  "deprecated_routes F S = all_crud_routes F S"

section \<open>Transition routes\<close>

text \<open>Path and handler of each; all answer \<^verbatim>\<open>POST\<close>.\<close>

definition digest_transition_routes ::
  "('a, 'p, digest_response_dto, 'b) http_kit \<Rightarrow> ('s, digest_entity) crud_service \<Rightarrow>
   (string \<times> (string \<Rightarrow> 'a option \<Rightarrow> bool \<Rightarrow> 's \<Rightarrow> (nat \<times> 'b) \<times> 's)) list" where
  "digest_transition_routes K S =
     [(''/digest_digests/:id/transitions/action_activate'', action_activate_transition K S),
      (''/digest_digests/:id/transitions/action_deactivate'', action_deactivate_transition K S)]"

definition subscription_transition_routes ::
  "('a, 'p, subscription_response_dto, 'b) http_kit \<Rightarrow> ('s, subscription_entity) crud_service \<Rightarrow>
   (string \<times> (string \<Rightarrow> 'a option \<Rightarrow> bool \<Rightarrow> 's \<Rightarrow> (nat \<times> 'b) \<times> 's)) list" where
  "subscription_transition_routes K S =
     [(''/digest_subscriptions/:id/transitions/unsubscribe'', unsubscribe_transition K S),
      (''/digest_subscriptions/:id/transitions/resubscribe'', resubscribe_transition K S)]"
section \<open>What the routers expose\<close>

text \<open>The read-only router holds read routes only, and the full one nothing but the entities' own routes.\<close>

lemma readonly_routes_read:
  assumes "\<And>svc path perm r. r \<in> set (read_routes_guarded F svc path perm) \<Longrightarrow> reads r"
    and "r \<in> set (readonly_routes F S)"
  shows "reads r"
  using assms(2)
  by (auto simp: readonly_routes_def digest_read_routes_def subscription_read_routes_def kpi_read_routes_def
      tip_read_routes_def tip_user_read_routes_def intro: assms(1))


end
