(* ===== verification/Repository_Ports.thy ===== *)
theory Repository_Ports
  imports Repositories
begin

text \<open>
  The repository traits of the domain layer (\<^verbatim>\<open>domain/repositories/*.rs\<close>) as records of operations: one
  field per method, a transformer of the store \<open>'s\<close> whose left result is the error text. Nothing
  in the crate implements or calls them.
\<close>

type_synonym ('s, 'a) store_op = "'s \<Rightarrow> (string + 'a) \<times> 's"

record 's digest_repository =
  pd_save :: "digest_entity \<Rightarrow> ('s, digest_entity) store_op"
  pd_find_by_id :: "string \<Rightarrow> ('s, digest_entity option) store_op"
  pd_find_all :: "('s, digest_entity list) store_op"
  pd_update :: "string \<Rightarrow> digest_entity \<Rightarrow> ('s, digest_entity option) store_op"
  pd_delete :: "string \<Rightarrow> ('s, bool) store_op"
  pd_list :: "digest_page_params \<Rightarrow> ('s, digest_page_result) store_op"
  pd_list_with_filters :: "digest_page_params \<Rightarrow> digest_filter \<Rightarrow> ('s, digest_page_result) store_op"
  pd_count :: "('s, 64 word) store_op"
  pd_count_with_filters :: "digest_filter \<Rightarrow> ('s, 64 word) store_op"
  pd_exists :: "string \<Rightarrow> ('s, bool) store_op"
  pd_soft_delete :: "string \<Rightarrow> ('s, bool) store_op"
  pd_restore :: "string \<Rightarrow> ('s, digest_entity option) store_op"
  pd_list_deleted :: "digest_page_params \<Rightarrow> ('s, digest_page_result) store_op"
  pd_empty_trash :: "('s, 64 word) store_op"
  pd_bulk_save :: "digest_entity list \<Rightarrow> ('s, digest_entity list) store_op"
  pd_bulk_delete :: "string list \<Rightarrow> ('s, 64 word) store_op"

record 's subscription_repository =
  ps_save :: "subscription_entity \<Rightarrow> ('s, subscription_entity) store_op"
  ps_find_by_id :: "string \<Rightarrow> ('s, subscription_entity option) store_op"
  ps_find_all :: "('s, subscription_entity list) store_op"
  ps_update :: "string \<Rightarrow> subscription_entity \<Rightarrow> ('s, subscription_entity option) store_op"
  ps_delete :: "string \<Rightarrow> ('s, bool) store_op"
  ps_list :: "subscription_page_params \<Rightarrow> ('s, subscription_page_result) store_op"
  ps_list_with_filters :: "subscription_page_params \<Rightarrow> subscription_filter \<Rightarrow> ('s, subscription_page_result) store_op"
  ps_count :: "('s, 64 word) store_op"
  ps_count_with_filters :: "subscription_filter \<Rightarrow> ('s, 64 word) store_op"
  ps_exists :: "string \<Rightarrow> ('s, bool) store_op"
  ps_soft_delete :: "string \<Rightarrow> ('s, bool) store_op"
  ps_restore :: "string \<Rightarrow> ('s, subscription_entity option) store_op"
  ps_list_deleted :: "subscription_page_params \<Rightarrow> ('s, subscription_page_result) store_op"
  ps_empty_trash :: "('s, 64 word) store_op"
  ps_bulk_save :: "subscription_entity list \<Rightarrow> ('s, subscription_entity list) store_op"
  ps_bulk_delete :: "string list \<Rightarrow> ('s, 64 word) store_op"

record 's kpi_repository =
  pk_save :: "kpi_entity \<Rightarrow> ('s, kpi_entity) store_op"
  pk_find_by_id :: "string \<Rightarrow> ('s, kpi_entity option) store_op"
  pk_find_all :: "('s, kpi_entity list) store_op"
  pk_update :: "string \<Rightarrow> kpi_entity \<Rightarrow> ('s, kpi_entity option) store_op"
  pk_delete :: "string \<Rightarrow> ('s, bool) store_op"
  pk_list :: "kpi_page_params \<Rightarrow> ('s, kpi_page_result) store_op"
  pk_list_with_filters :: "kpi_page_params \<Rightarrow> kpi_filter \<Rightarrow> ('s, kpi_page_result) store_op"
  pk_count :: "('s, 64 word) store_op"
  pk_count_with_filters :: "kpi_filter \<Rightarrow> ('s, 64 word) store_op"
  pk_exists :: "string \<Rightarrow> ('s, bool) store_op"
  pk_soft_delete :: "string \<Rightarrow> ('s, bool) store_op"
  pk_restore :: "string \<Rightarrow> ('s, kpi_entity option) store_op"
  pk_list_deleted :: "kpi_page_params \<Rightarrow> ('s, kpi_page_result) store_op"
  pk_empty_trash :: "('s, 64 word) store_op"
  pk_bulk_save :: "kpi_entity list \<Rightarrow> ('s, kpi_entity list) store_op"
  pk_bulk_delete :: "string list \<Rightarrow> ('s, 64 word) store_op"

record 's tip_repository =
  pt_save :: "tip_entity \<Rightarrow> ('s, tip_entity) store_op"
  pt_find_by_id :: "string \<Rightarrow> ('s, tip_entity option) store_op"
  pt_find_all :: "('s, tip_entity list) store_op"
  pt_update :: "string \<Rightarrow> tip_entity \<Rightarrow> ('s, tip_entity option) store_op"
  pt_delete :: "string \<Rightarrow> ('s, bool) store_op"
  pt_list :: "tip_page_params \<Rightarrow> ('s, tip_page_result) store_op"
  pt_list_with_filters :: "tip_page_params \<Rightarrow> tip_filter \<Rightarrow> ('s, tip_page_result) store_op"
  pt_count :: "('s, 64 word) store_op"
  pt_count_with_filters :: "tip_filter \<Rightarrow> ('s, 64 word) store_op"
  pt_exists :: "string \<Rightarrow> ('s, bool) store_op"
  pt_soft_delete :: "string \<Rightarrow> ('s, bool) store_op"
  pt_restore :: "string \<Rightarrow> ('s, tip_entity option) store_op"
  pt_list_deleted :: "tip_page_params \<Rightarrow> ('s, tip_page_result) store_op"
  pt_empty_trash :: "('s, 64 word) store_op"
  pt_bulk_save :: "tip_entity list \<Rightarrow> ('s, tip_entity list) store_op"
  pt_bulk_delete :: "string list \<Rightarrow> ('s, 64 word) store_op"

record 's tip_user_repository =
  pu_save :: "tip_user_entity \<Rightarrow> ('s, tip_user_entity) store_op"
  pu_find_by_id :: "string \<Rightarrow> ('s, tip_user_entity option) store_op"
  pu_find_all :: "('s, tip_user_entity list) store_op"
  pu_update :: "string \<Rightarrow> tip_user_entity \<Rightarrow> ('s, tip_user_entity option) store_op"
  pu_delete :: "string \<Rightarrow> ('s, bool) store_op"
  pu_list :: "tip_user_page_params \<Rightarrow> ('s, tip_user_page_result) store_op"
  pu_list_with_filters :: "tip_user_page_params \<Rightarrow> tip_user_filter \<Rightarrow> ('s, tip_user_page_result) store_op"
  pu_count :: "('s, 64 word) store_op"
  pu_count_with_filters :: "tip_user_filter \<Rightarrow> ('s, 64 word) store_op"
  pu_exists :: "string \<Rightarrow> ('s, bool) store_op"
  pu_soft_delete :: "string \<Rightarrow> ('s, bool) store_op"
  pu_restore :: "string \<Rightarrow> ('s, tip_user_entity option) store_op"
  pu_list_deleted :: "tip_user_page_params \<Rightarrow> ('s, tip_user_page_result) store_op"
  pu_empty_trash :: "('s, 64 word) store_op"
  pu_bulk_save :: "tip_user_entity list \<Rightarrow> ('s, tip_user_entity list) store_op"
  pu_bulk_delete :: "string list \<Rightarrow> ('s, 64 word) store_op"

end
