(* ===== verification/Spec2Isabelle.thy ===== *)
theory Spec2Isabelle
  imports Sweep_Properties Sweep_Mails Mail_Properties Unsubscribe_Properties Schedule_Properties
    Module_Properties Api_Properties Versioning App_State Ids Entity_Meta Exports Seeders
    Replica_Properties Sweep_Complete Running_Module Live_System Accessors Routing Repository_Ports
begin

text \<open>
  A verification development for \<^verbatim>\<open>backbone-digest\<close>, a Rust module that mails periodic KPI digests to
  the users of a host application. Paths are under \<^verbatim>\<open>src/\<close>, most under \<^verbatim>\<open>src/src/\<close>.

  \<^bold>\<open>The program.\<close> A digest has a name, a cadence (daily, weekly, monthly, quarterly), a next run date
  and a state; users subscribe to it and tips are shown once per user. Every day the sweep claims
  the digests that are due, one at a time, each in its own transaction. For a claimed digest it asks
  whether any recipient has logged in lately (if none has, the cadence drops one rung), renders a
  mail for each active recipient, hands it to the mail package, and advances the digest; if any
  recipient failed, the digest is put on tomorrow instead. A render resolves the recipient through a
  port to the host's identity tables, leaves out the KPIs outside the recipient's company fence,
  and signs an unsubscribe link with an HMAC. The public routes act on such a link without a
  session. A user-created event may subscribe the newcomer to a default digest. Around this core
  the crate has generated code: entities, state machines, DTOs, row rules, HTTP handlers.

  \<^bold>\<open>Theories, foundations.\<close> \<open>Prelude\<close>: value types, JSON, the text functions of the Rust library that
  the sources use, tables with a unique key (locale \<open>keyed_table\<close>). \<open>Calendar\<close>: the part of
  \<^verbatim>\<open>chrono::NaiveDate\<close> the sources use, as the locale \<open>chrono_calendar\<close>, interpreted by an executable
  proleptic Gregorian calendar. \<open>F64\<close>: binary64 arithmetic. \<open>Externals\<close>: the other packages, as one
  record of functions. \<open>World\<close>: the five tables, the queued mails, the audit events, and the
  statement monad \<open>io\<close> in which every SQL statement may fail. \<open>Demo\<close>: a small deployment on which
  the witnesses are evaluated.

  \<^bold>\<open>Theories, the hand-written core.\<close> One per file of \<^verbatim>\<open>application/service/\<close>: \<open>Digest_Error\<close>
  (\<^verbatim>\<open>digest_error.rs\<close>); \<open>Periodicity\<close> and \<open>Write_Service\<close> (\<^verbatim>\<open>digest_write_service.rs\<close>: the cadence and
  its ladder; the verbs on digest, KPI and subscription rows); \<open>Engagement_Port\<close> (\<^verbatim>\<open>engagement_port.rs\<close>:
  the refusing default, the canned double, the shared slot, the SQL adapter); \<open>Kpi_Registry\<close>;
  \<open>Base_Kpis\<close>; \<open>Unsubscribe\<close> (\<^verbatim>\<open>unsubscribe_service.rs\<close>); \<open>Mail_Seam\<close>; \<open>Render\<close>; \<open>Cron\<close>; \<open>Growth\<close>
  (\<^verbatim>\<open>user_created_handler.rs\<close>). \<open>Public_Routes\<close> is \<^verbatim>\<open>presentation/http/public_routes.rs\<close>, \<open>Digest_Module\<close>
  is \<^verbatim>\<open>lib.rs\<close>: the builder wires registry, port slot, mail seam and token secret into the engine
  that \<open>Render\<close> and \<open>Cron\<close> run. A struct is a record, an enum a datatype with the source's variants;
  an async method is a state transformer on \<open>world\<close>, an error a constructor of its result, a panic
  a result of its own. A transaction of the sweep is explicit: rollback and failed commit restore
  the digest rows, while sends went through the pool and stay. \<open>Replicas\<close> is the same sweep cut into
  steps: a session has a program counter (\<open>phase\<close>), and a list of events starts sessions and lets
  them step in any order over the shared tables. A step is one claim, one recipient with its own
  delivery transaction, the preparation or conclusion of a batch, or one commit; a row another
  session has claimed is skipped, as \<^verbatim>\<open>FOR UPDATE SKIP LOCKED\<close> does.

  \<^bold>\<open>Theories, the generated code.\<close> \<open>State_Machines\<close>, \<open>Entities\<close>, \<open>Entity_Meta\<close>, \<open>Ids\<close>, \<open>Dtos\<close>, \<open>Repositories\<close>,
  \<open>Row_Rules\<close>, \<open>Http_Handlers\<close>, \<open>Versioning\<close>, \<open>App_State\<close>, \<open>Exports\<close>, \<open>Seeders\<close>; \<open>Accessors\<close> (the getters and
  metadata accessors of the entities), \<open>Routing\<close> (which method and path reaches which handler, with
  the guard in front of it) and \<open>Repository_Ports\<close> (the repository traits as records of operations). Where the generator
  repeats a shape for each entity, the definitions repeat it too and a locale holds what the
  copies promise (\<open>workflow\<close>, \<open>field_patch\<close>, \<open>persistent\<close>, \<open>typed_id\<close>, \<open>paged\<close>, \<open>page_request\<close>, \<open>verb_guarded\<close>,
  \<open>error_table\<close>, \<open>transition_route\<close>), interpreted for every copy.

  \<^bold>\<open>Interfaces.\<close> \<open>mail_seam\<close> states what the engine relies on of an outbound seam, and is interpreted
  on the default seam and on the recording double. \<open>recipient_port_contract\<close> is that of the identity
  port, interpreted on the SQL adapter and on the refusing default; a slot is the port it holds.

  \<^bold>\<open>What the lemmas show.\<close> \<open>Sweep_Properties\<close>: a sweep returns, drains what was due, moves dates
  forward only, slows a digest by one rung and only on silence, and touches nothing else; the
  outcome of one batch follows from what its sends answered. \<open>Replica_Properties\<close>: concurrent sweeps claim disjoint digests, mail nobody
  twice, end within a number of steps known in advance and leave nothing due, and a session that
  steps alone is \<open>run_daily_pull\<close>. \<open>Sweep_Complete\<close>: every active recipient of a due
  digest is served, unless the tally names the digest among its failures. \<open>Sweep_Mails\<close>: every mail of a sweep goes to an active
  subscriber of a due digest, at most one each, and carries its unsubscribe link. \<open>Mail_Properties\<close>: what a
  render shows, the fence, the carousel, and what a delivery writes. \<open>Unsubscribe_Properties\<close>: minted
  links verify and act for 180 days, nothing else acts, a link opened again changes nothing, and the
  answers tell nothing. \<open>Schedule_Properties\<close>
  and \<open>Module_Properties\<close>: dates, the write verbs, the growth loop, the composed module.
  \<open>Running_Module\<close> runs the composed module on a list of events (pulls, manual sends, public requests,
  user-created deliveries, the host's verbs and calls, each with the statements that fail in it, and
  writes by anybody else to the module's tables): each event runs to its end, the keys hold, and an
  opt-out is respected. The foreign writes stand for the generated CRUD and transition routes, whose
  service is the framework's: any rows that keep the unique keys. \<open>Live_System\<close> puts the two together:
  requests come between the steps of any number of sweeps, a held digest row makes its writers wait,
  and still no digest is in two batches, nobody is mailed who was never active, and an opt-out, a
  click on a mailed link for instance, leaves at most one mail, that of a list read before it.
  \<open>Api_Properties\<close>: states move through their verbs only, and paging returns every row once.

  \<^bold>\<open>Numbers and loops.\<close> Dates are day numbers and times are nanoseconds, as integers with chrono's range
  (an operation that leaves it is a panic, as in the source: the date arithmetic of the ladder, the
  login window, the KPI windows, the expiry of a token); u32 and u64 fields of the API are
  words and wrap, as in a release build (a debug build panics where they wrap); f64 has 53 significant bits and an unbounded exponent, without infinities.
  The sweep's loop is a \<^verbatim>\<open>partial_function\<close> into \<open>option\<close>, without fuel; that it returns is a theorem.
  The one fuelled function prints the shortest decimal of a rounded margin and tries 20 decimals;
  its values are hundredths rounded once, for which two suffice (\<open>shortest_hundredths\<close>, up to \<open>2\<^sup>5\<^sup>2\<close>).

  \<^bold>\<open>Parameters.\<close> Code that is not in the repository is an argument: chrono's printing and reading, the
  text of a uuid, HMAC-SHA256, the ammonia sanitizer, the mail package, the host's identity tables,
  the generic CRUD service, the permission check and the response constructors of the HTTP
  framework, the row-rule vocabulary, the seed files. Hypotheses on them (\<open>text_ok\<close>, \<open>mac_ok\<close>,
  \<open>mail_seam\<close>, \<open>rules_ok\<close>, \<open>shows_field\<close>) are documented behaviour, and \<open>Demo\<close> and the witnesses
  instantiate them.

  \<^bold>\<open>Not modelled.\<close> Interleaving inside one step of \<open>Replicas\<close> (the statements of one recipient's
  delivery run together) or inside one request; the organisation fence of request-scoped queries; logging other than the
  audit events; foreign keys, checks and triggers of the schema (a statement they reject is one that
  fails, an entry of \<open>sql_faults\<close>); JSON field naming of the DTOs; the rate limiter and the router of the framework,
  which are parameters; the OpenAPI schemas; the infrastructure newtypes over the generic repository
  and the CRUD services, which are aliases over an external framework; domain events, which are
  aliases without behaviour; the migrations. Texts are ordered bytewise where SQL orders them. Strings are
  UTF-8 byte sequences: \<^verbatim>\<open>trim\<close> strips Unicode white space; \<^verbatim>\<open>to_lowercase\<close>, used only to compare with
  ASCII words, maps the letters whose lower case is ASCII and leaves the others.
\<close>

end
